(* ===== verification/Prelude.thy ===== *)
theory Prelude
  imports
    "HOL-Library.Word"
    "HOL-Library.Char_ord"
    "HOL-Library.List_Lexorder"
    "HOL-Library.Product_Lexorder"
    "HOL-Library.Monad_Syntax"
    "HOL-Library.Multiset"
begin

text \<open>
  Shared vocabulary of the development: machine integers at the widths the C++ code uses,
  the exceptions the library throws as values of one datatype, the result type of fallible
  operations with its sequencing combinator, the rule collections the component theories
  fill, and the generic facts on lists, options and words that their proofs share.
\<close>

section \<open>Types\<close>

text \<open>
  Bytes and fixed-width unsigned integers are words of the same width.  A C++
  \<^verbatim>\<open>double\<close> is its IEEE 754 binary64 bit pattern: the library never computes with
  values, it only tests them for finiteness and copies or bit-casts them.  Container
  sizes (\<^verbatim>\<open>std::size_t\<close>) are natural numbers; a counter that is persisted or that the code
  guards against overflow is kept at its width.
\<close>

type_synonym byte = "8 word"
type_synonym u16 = "16 word"
type_synonym u32 = "32 word"
type_synonym u64 = "64 word"
type_synonym double = "64 word"

text \<open>The decode errors of \<^verbatim>\<open>src/internal/wal_record.hpp\<close>, carried by \<^verbatim>\<open>WalFormatError\<close>.\<close>

datatype WalDecodeError =
    wal_none
  | wal_incomplete_record
  | wal_invalid_magic
  | wal_unsupported_version
  | wal_unsupported_record_type
  | wal_invalid_length
  | wal_checksum_mismatch
  | wal_invalid_payload

text \<open>
  One constructor per exception type the library throws or lets through, with the message
  the code gives it.  \<open>Crashed\<close> is not an exception of the program: it is the
  outcome of an operating-system call at which the process dies, and no handler of the
  model continues after it.
\<close>

datatype exn =
    InvalidArgument string
  | LengthError string
  | LogicError string
  | RuntimeError string
  | OverflowError string
  | SystemError string
  | ManifestFormatError string
  | SegmentFormatError string
  | WalFormatError u64 WalDecodeError
  | DatabaseBusyError string
  | DatabaseCorruptionError string
  | Crashed

type_synonym 'a result = "exn + 'a"

definition ebind :: "'a result \<Rightarrow> ('a \<Rightarrow> 'b result) \<Rightarrow> 'b result" where
  "ebind r f = (case r of Inl e \<Rightarrow> Inl e | Inr x \<Rightarrow> f x)"

lemma ebind_simps [simp]:
  "ebind (Inl e) f = Inl e"
  "ebind (Inr x) f = f x"
  by (simp_all add: ebind_def)

lemma ebind_eq_Inr: "ebind r f = Inr y \<longleftrightarrow> (\<exists>x. r = Inr x \<and> f x = Inr y)"
  by (cases r) auto

lemma ebind_cong [fundef_cong]:
  "r = r' \<Longrightarrow> (\<And>x. r' = Inr x \<Longrightarrow> f x = g x) \<Longrightarrow> ebind r f = ebind r' g"
  by (cases r') auto

text \<open>A loop over a list whose body may throw: the first exception ends it.\<close>

fun efold :: "('a \<Rightarrow> 's \<Rightarrow> 's result) \<Rightarrow> 'a list \<Rightarrow> 's \<Rightarrow> 's result" where
  "efold f [] s = Inr s"
| "efold f (x # xs) s = ebind (f x s) (efold f xs)"

lemma efold_append: "efold f (xs @ ys) s = ebind (efold f xs s) (efold f ys)"
proof (induction xs arbitrary: s)
  case (Cons x xs)
  then show ?case by (cases "f x s") simp_all
qed simp

fun emap :: "('a \<Rightarrow> 'b result) \<Rightarrow> 'a list \<Rightarrow> 'b list result" where
  "emap f [] = Inr []"
| "emap f (x # xs) = ebind (f x) (\<lambda>y. ebind (emap f xs) (\<lambda>ys. Inr (y # ys)))"

lemma emap_all_Inr: "(\<And>x. x \<in> set xs \<Longrightarrow> f x = Inr (g x)) \<Longrightarrow> emap f xs = Inr (map g xs)"
  by (induction xs) auto

lemma emap_eq_Inr_length: "emap f xs = Inr ys \<Longrightarrow> length ys = length xs"
  by (induction xs arbitrary: ys) (auto simp: ebind_eq_Inr)

section \<open>Rule collections\<close>

named_theorems codec_simps \<open>reading back what the byte writer wrote\<close>
named_theorems size_simps \<open>lengths of encodings\<close>

section \<open>Generic facts\<close>

lemma strict_sorted_distinct: "sorted_wrt (<) (xs :: 'a :: linorder list) \<Longrightarrow> distinct xs"
  using strict_sorted_iff by blast

lemma option_case_if_eq:
  "(case x of None \<Rightarrow> a | Some y \<Rightarrow> f y) = (if x = None then a else f (the x))"
  by (cases x) auto

lemma list_all2_preimage: "list_all2 P xs ys \<Longrightarrow> y \<in> set ys \<Longrightarrow> \<exists>x\<in>set xs. P x y"
  by (induction rule: list_all2_induct) auto

lemma sum_case_Some_iff: "(case r of Inl _ \<Rightarrow> None | Inr x \<Rightarrow> Some x) = Some y \<longleftrightarrow> r = Inr y"
  by (cases r) auto

lemma sorted_wrt_iff_adjacent:
  assumes "transp R"
  shows "sorted_wrt R xs \<longleftrightarrow> (\<forall>i. 0 < i \<and> i < length xs \<longrightarrow> R (xs ! (i - 1)) (xs ! i))"
proof -
  have "sorted_wrt R xs \<longleftrightarrow> (\<forall>i. Suc i < length xs \<longrightarrow> R (xs ! i) (xs ! Suc i))"
    using sorted_wrt_iff_nth_Suc_transp[OF assms] by blast
  also have "\<dots> \<longleftrightarrow> (\<forall>i. 0 < i \<and> i < length xs \<longrightarrow> R (xs ! (i - 1)) (xs ! i))"
  proof (intro iffI allI impI)
    fix i assume "\<forall>i. Suc i < length xs \<longrightarrow> R (xs ! i) (xs ! Suc i)" "0 < i \<and> i < length xs"
    then show "R (xs ! (i - 1)) (xs ! i)" by (cases i) auto
  next
    fix i assume "\<forall>i. 0 < i \<and> i < length xs \<longrightarrow> R (xs ! (i - 1)) (xs ! i)" "Suc i < length xs"
    then show "R (xs ! i) (xs ! Suc i)" by (auto dest: spec[of _ "Suc i"])
  qed
  finally show ?thesis .
qed

lemma unat_of_nat_u32: "n \<le> 0xFFFFFFFF \<Longrightarrow> unat (of_nat n :: u32) = n"
  by (simp add: unat_of_nat)

lemma unat_of_nat_u64: "n < 2 ^ 64 \<Longrightarrow> unat (of_nat n :: u64) = n"
  by (simp add: unat_of_nat)

lemma unat_u32_le: "unat (w :: u32) \<le> 0xFFFFFFFF"
  using unsigned_less[of w, where ?'a = nat] by simp

lemma unat_u64_less: "unat (w :: u64) < 2 ^ 64"
  using unsigned_less[of w, where ?'a = nat] by simp

lemma unat_byte_less: "unat (w :: byte) < 256"
  using unsigned_less[of w, where ?'a = nat] by simp

end
