(* ===== verification/Model.thy ===== *)
theory Model
  imports Prelude
begin

text \<open>
  The data model of \<^verbatim>\<open>include/chronostore/model.hpp\<close> and \<^verbatim>\<open>src/model.cpp\<close>: tags, series
  keys, timestamps and samples.  The C++ classes are immutable values whose constructors
  validate; here a class is a datatype and its validating constructor a function into the
  result type.  The defaulted three-way comparisons compare member by member: each is a
  function into \<open>strong_ordering\<close>, and the order instance of the class reads its relational
  operators off that function; \<^verbatim>\<open>std::string\<close> compares bytes as unsigned characters,
  which is the lexicographic order on \<^typ>\<open>string\<close>.
\<close>

section \<open>Values and their orders\<close>

datatype Tag = Tag (tag_key: string) (tag_value: string)

datatype SeriesKey = SeriesKey (measurement: string) (tags: "Tag list")

datatype Timestamp = Timestamp (nanoseconds_since_epoch: u64)

datatype Sample = Sample (timestamp: Timestamp) (sample_value: double)

text \<open>
  \<^verbatim>\<open>std::strong_ordering\<close>, and the comparison of members that the language synthesises from
  their orders.  As in C++, \<open>a < b\<close> means that the comparison is \<open>ord_less\<close>, and \<open>a \<le> b\<close> that
  it is not \<open>ord_greater\<close>.
\<close>

datatype strong_ordering = ord_less | ord_equal | ord_greater

definition three_way :: "'a::linorder \<Rightarrow> 'a \<Rightarrow> strong_ordering" where
  "three_way x y = (if x < y then ord_less else if x = y then ord_equal else ord_greater)"

lemma three_way_iff [simp]:
  "three_way x y = ord_less \<longleftrightarrow> x < y"
  "three_way x y = ord_equal \<longleftrightarrow> x = y"
  "three_way x y = ord_greater \<longleftrightarrow> y < x"
  by (auto simp: three_way_def)

definition compare_Tag :: "Tag \<Rightarrow> Tag \<Rightarrow> strong_ordering" where
  "compare_Tag a b = three_way (tag_key a, tag_value a) (tag_key b, tag_value b)"

declare compare_Tag_def [simp]

instantiation Tag :: linorder
begin

definition less_eq_Tag :: "Tag \<Rightarrow> Tag \<Rightarrow> bool" where
  "less_eq_Tag a b \<longleftrightarrow> compare_Tag a b \<noteq> ord_greater"

definition less_Tag :: "Tag \<Rightarrow> Tag \<Rightarrow> bool" where
  "less_Tag a b \<longleftrightarrow> compare_Tag a b = ord_less"

instance
  by standard (auto simp: less_eq_Tag_def less_Tag_def Tag.expand)

end

definition compare_SeriesKey :: "SeriesKey \<Rightarrow> SeriesKey \<Rightarrow> strong_ordering" where
  "compare_SeriesKey a b = three_way (measurement a, tags a) (measurement b, tags b)"

declare compare_SeriesKey_def [simp]

instantiation SeriesKey :: linorder
begin

definition less_eq_SeriesKey :: "SeriesKey \<Rightarrow> SeriesKey \<Rightarrow> bool" where
  "less_eq_SeriesKey a b \<longleftrightarrow> compare_SeriesKey a b \<noteq> ord_greater"

definition less_SeriesKey :: "SeriesKey \<Rightarrow> SeriesKey \<Rightarrow> bool" where
  "less_SeriesKey a b \<longleftrightarrow> compare_SeriesKey a b = ord_less"

instance
  by standard (auto simp: less_eq_SeriesKey_def less_SeriesKey_def SeriesKey.expand)

end

lemma Timestamp_eqI:
  "sint (nanoseconds_since_epoch a) = sint (nanoseconds_since_epoch b) \<Longrightarrow> a = b"
  by (cases a, cases b) (auto intro: signed_word_eqI)

text \<open>A timestamp is a signed 64-bit integer: the order is the two's complement one.\<close>

definition compare_Timestamp :: "Timestamp \<Rightarrow> Timestamp \<Rightarrow> strong_ordering" where
  "compare_Timestamp a b =
     three_way (sint (nanoseconds_since_epoch a)) (sint (nanoseconds_since_epoch b))"

declare compare_Timestamp_def [simp]

instantiation Timestamp :: linorder
begin

definition less_eq_Timestamp :: "Timestamp \<Rightarrow> Timestamp \<Rightarrow> bool" where
  "less_eq_Timestamp a b \<longleftrightarrow> compare_Timestamp a b \<noteq> ord_greater"

definition less_Timestamp :: "Timestamp \<Rightarrow> Timestamp \<Rightarrow> bool" where
  "less_Timestamp a b \<longleftrightarrow> compare_Timestamp a b = ord_less"

instance
  by standard
    (auto simp: less_eq_Timestamp_def less_Timestamp_def intro: Timestamp_eqI)

end

section \<open>Constructors\<close>

definition make_Tag :: "string \<Rightarrow> string \<Rightarrow> Tag result" where
  "make_Tag key val =
     (if key = [] then Inl (InvalidArgument ''tag key cannot be empty'') else Inr (Tag key val))"

text \<open>The loop over adjacent tags of the \<open>SeriesKey\<close> constructor.\<close>

fun check_duplicate_tags :: "Tag list \<Rightarrow> unit result" where
  "check_duplicate_tags (previous # current # rest) =
     (if tag_key previous = tag_key current
      then Inl (InvalidArgument (''duplicate tag key: '' @ tag_key current))
      else check_duplicate_tags (current # rest))"
| "check_duplicate_tags _ = Inr ()"

definition make_SeriesKey :: "string \<Rightarrow> Tag list \<Rightarrow> SeriesKey result" where
  "make_SeriesKey m ts =
     (if m = [] then Inl (InvalidArgument ''measurement cannot be empty'')
      else let sorted_tags = sort ts
           in ebind (check_duplicate_tags sorted_tags) (\<lambda>_. Inr (SeriesKey m sorted_tags)))"

text \<open>\<^verbatim>\<open>std::isfinite\<close>: the eleven exponent bits are not all ones.\<close>

definition isfinite :: "double \<Rightarrow> bool" where
  "isfinite v \<longleftrightarrow> take_bit 11 (drop_bit 52 v) \<noteq> 0x7FF"

definition make_Sample :: "Timestamp \<Rightarrow> double \<Rightarrow> Sample result" where
  "make_Sample t v =
     (if \<not> isfinite v then Inl (InvalidArgument ''sample value must be finite'')
      else Inr (Sample t v))"

section \<open>Class invariants\<close>

text \<open>What the constructors establish, and what every value of the class therefore has.\<close>

definition tag_wf :: "Tag \<Rightarrow> bool" where
  "tag_wf t \<longleftrightarrow> tag_key t \<noteq> []"

definition series_wf :: "SeriesKey \<Rightarrow> bool" where
  "series_wf k \<longleftrightarrow> measurement k \<noteq> [] \<and> list_all tag_wf (tags k) \<and>
     sorted_wrt (<) (map tag_key (tags k))"

definition sample_wf :: "Sample \<Rightarrow> bool" where
  "sample_wf s \<longleftrightarrow> isfinite (sample_value s)"

section \<open>Properties\<close>

lemma Tag_less_key: "tag_key a < tag_key b \<Longrightarrow> a < b"
  by (simp add: less_Tag_def)

lemma Tag_le_keyD: "a \<le> b \<Longrightarrow> tag_key a \<le> tag_key b"
  by (auto simp: less_eq_Tag_def)

lemma sorted_keys_sorted_tags: "sorted_wrt (<) (map tag_key ts) \<Longrightarrow> sorted ts"
  by (simp add: sorted_wrt_map)
    (metis (mono_tags, lifting) Tag_less_key order_less_imp_le sorted_wrt_mono_rel)

lemma check_duplicate_tags_sorted:
  assumes "sorted ts"
  shows "check_duplicate_tags ts = Inr () \<longleftrightarrow> sorted_wrt (<) (map tag_key ts)"
  using assms
proof (induction ts rule: check_duplicate_tags.induct)
  case (1 p c r)
  from 1(2) have le: "tag_key p \<le> tag_key c" and srt: "sorted (c # r)"
    by (auto dest: Tag_le_keyD)
  from 1(2) have ge: "\<forall>x\<in>set r. tag_key c \<le> tag_key x"
    by (auto dest: Tag_le_keyD)
  show ?case
    using 1(1)[OF _ srt] le ge by (cases "tag_key p = tag_key c") fastforce+
qed simp_all

lemma check_duplicate_tags_error:
  "check_duplicate_tags ts = Inl e \<Longrightarrow> \<exists>msg. e = InvalidArgument msg"
  by (induction ts rule: check_duplicate_tags.induct) (auto split: if_splits)

lemma distinct_keys_sort:
  "distinct (map tag_key ts) \<longleftrightarrow> sorted_wrt (<) (map tag_key (sort ts))"
proof -
  have "sorted (map tag_key (sort ts))"
    by (rule sorted_map_mono) (auto simp: mono_on_def dest: Tag_le_keyD)
  moreover have "distinct (map tag_key (sort ts)) \<longleftrightarrow> distinct (map tag_key ts)"
    by (metis mset_eq_imp_distinct_iff mset_map mset_sort)
  ultimately show ?thesis
    by (simp add: strict_sorted_iff)
qed

lemma make_SeriesKey_Inr:
  "make_SeriesKey m ts = Inr k \<longleftrightarrow>
     m \<noteq> [] \<and> distinct (map tag_key ts) \<and> k = SeriesKey m (sort ts)"
  using check_duplicate_tags_sorted[of "sort ts"]
  by (auto simp: make_SeriesKey_def Let_def distinct_keys_sort ebind_eq_Inr)

lemma make_SeriesKey_error:
  "make_SeriesKey m ts = Inl e \<Longrightarrow> \<exists>msg. e = InvalidArgument msg"
  by (auto simp: make_SeriesKey_def Let_def ebind_def split: if_splits sum.splits
      dest: check_duplicate_tags_error)

lemma make_SeriesKey_wf:
  assumes "make_SeriesKey m ts = Inr k" "list_all tag_wf ts"
  shows "series_wf k"
  using assms by (auto simp: make_SeriesKey_Inr series_wf_def distinct_keys_sort list_all_iff)

lemma make_SeriesKey_canonical [simp]:
  assumes "series_wf k"
  shows "make_SeriesKey (measurement k) (tags k) = Inr k"
proof -
  from assms have "sorted (tags k)" "distinct (map tag_key (tags k))"
    by (auto simp: series_wf_def sorted_keys_sorted_tags strict_sorted_distinct)
  with assms show ?thesis
    by (simp add: make_SeriesKey_Inr series_wf_def sort_key_id_if_sorted)
qed

lemma make_Tag_wf [simp]: "tag_wf t \<Longrightarrow> make_Tag (tag_key t) (tag_value t) = Inr t"
  by (simp add: make_Tag_def tag_wf_def)

lemma make_Tag_Inr: "make_Tag k v = Inr t \<longleftrightarrow> k \<noteq> [] \<and> t = Tag k v"
  by (auto simp: make_Tag_def)

lemma make_Sample_Inr: "make_Sample t v = Inr s \<longleftrightarrow> isfinite v \<and> s = Sample t v"
  by (auto simp: make_Sample_def)

lemma make_Sample_finite [simp]: "isfinite v \<Longrightarrow> make_Sample t v = Inr (Sample t v)"
  by (simp add: make_Sample_def)

lemma sort_mset_cong: "mset xs = mset ys \<Longrightarrow> sort xs = sort ys"
  by (metis properties_for_sort sorted_sort mset_sort)

end
