(* ===== verification/OrderedMap.thy ===== *)
theory OrderedMap
  imports Prelude
begin

text \<open>
  \<^verbatim>\<open>std::map\<close> as the code uses it: a finite map whose iteration order is the key order.
  The representation is the sequence of entries in iteration order, strictly increasing in
  the key; \<^const>\<open>map_of\<close> is \<^verbatim>\<open>find\<close>, \<open>om_put\<close> is insert-or-assign (\<^verbatim>\<open>m[k] = v\<close>, or
  \<^verbatim>\<open>emplace\<close> of an absent key followed by an assignment), \<open>om_lower_bound\<close> the entries from
  \<^verbatim>\<open>lower_bound\<close> on.  What clients rely on is the locale \<open>ordered_map\<close>; the sequence
  representation is its interpretation.
\<close>

type_synonym ('k, 'v) omap = "('k \<times> 'v) list"

fun om_put :: "'k :: linorder \<Rightarrow> 'v \<Rightarrow> ('k, 'v) omap \<Rightarrow> ('k, 'v) omap" where
  "om_put k v [] = [(k, v)]"
| "om_put k v ((k', v') # m) =
     (if k < k' then (k, v) # (k', v') # m
      else if k = k' then (k, v) # m
      else (k', v') # om_put k v m)"

definition om_lower_bound :: "('k :: linorder, 'v) omap \<Rightarrow> 'k \<Rightarrow> ('k, 'v) omap" where
  "om_lower_bound m k = dropWhile (\<lambda>e. fst e < k) m"

abbreviation om_inv :: "('k :: linorder, 'v) omap \<Rightarrow> bool" where
  "om_inv m \<equiv> sorted_wrt (<) (map fst m)"

text \<open>\<^verbatim>\<open>std::set\<close> of values with iteration in increasing order.\<close>

fun os_insert :: "'k :: linorder \<Rightarrow> 'k list \<Rightarrow> 'k list" where
  "os_insert k [] = [k]"
| "os_insert k (k' # s) =
     (if k < k' then k # k' # s else if k = k' then k' # s else k' # os_insert k s)"

section \<open>The interface\<close>

locale ordered_map =
  fixes find :: "'m \<Rightarrow> 'k :: linorder \<Rightarrow> 'v option"
    and put :: "'k \<Rightarrow> 'v \<Rightarrow> 'm \<Rightarrow> 'm"
    and entries :: "'m \<Rightarrow> ('k \<times> 'v) list"
    and invar :: "'m \<Rightarrow> bool"
  assumes find_put: "invar m \<Longrightarrow> find (put k v m) = (find m)(k \<mapsto> v)"
    and invar_put: "invar m \<Longrightarrow> invar (put k v m)"
    and find_entries: "invar m \<Longrightarrow> find m = map_of (entries m)"
    and entries_sorted: "invar m \<Longrightarrow> sorted_wrt (<) (map fst (entries m))"
begin

lemma invar_fold_put: "invar m \<Longrightarrow> invar (fold (\<lambda>x. put (f x) (g x)) xs m)"
  by (induction xs arbitrary: m) (auto simp: invar_put)

lemma find_fold_put:
  "invar m \<Longrightarrow>
     find (fold (\<lambda>x. put (f x) (g x)) xs m) = find m ++ map_of (rev (map (\<lambda>x. (f x, g x)) xs))"
  by (induction xs arbitrary: m) (auto simp: invar_put find_put map_add_def fun_eq_iff
      split: option.splits)

lemma entries_distinct: "invar m \<Longrightarrow> distinct (map fst (entries m))"
  using entries_sorted strict_sorted_distinct by blast

lemma set_entries: "invar m \<Longrightarrow> (k, v) \<in> set (entries m) \<longleftrightarrow> find m k = Some v"
  by (simp add: find_entries entries_distinct)

lemma entries_unique:
  assumes "invar m" "invar m'" "find m = find m'"
  shows "entries m = entries m'"
proof -
  have "set (entries m) = set (entries m')"
    using assms by (auto simp: set_entries)
  moreover have "sorted (map fst (entries m))" "sorted (map fst (entries m'))"
    using entries_sorted assms(1,2) strict_sorted_iff by blast+
  moreover have "inj_on fst (set (entries m) \<union> set (entries m'))"
    using entries_distinct[OF assms(1)] calculation(1) by (simp add: distinct_map)
  ultimately show ?thesis
    using entries_distinct assms(1,2) map_sorted_distinct_set_unique by blast
qed

lemma dom_find_finite: "invar m \<Longrightarrow> finite (dom (find m))"
  by (simp add: find_entries finite_dom_map_of)

lemma length_entries: "invar m \<Longrightarrow> length (entries m) = card (dom (find m))"
  by (metis distinct_card dom_map_of_conv_image_fst entries_distinct find_entries length_map
      list.set_map)

end

section \<open>The sequence of entries implements it\<close>

lemma set_om_put_keys: "fst ` set (om_put k v m) = insert k (fst ` set m)"
  by (induction k v m rule: om_put.induct) auto

lemma om_put_inv: "om_inv m \<Longrightarrow> om_inv (om_put k v m)"
proof (induction m)
  case (Cons e m)
  obtain k' v' where e: "e = (k', v')" by force
  have ks: "set (map fst (om_put k v m)) = insert k (set (map fst m))"
    using set_om_put_keys[of k v m] by simp
  show ?case
    using Cons unfolding e
    by (auto simp: ks simp del: set_map)
qed simp

lemma map_of_om_put: "map_of (om_put k v m) = (map_of m)(k \<mapsto> v)"
  by (induction m) (auto simp: fun_eq_iff)

interpretation smap: ordered_map map_of om_put "\<lambda>m. m" om_inv
  by unfold_locales (auto simp: map_of_om_put om_put_inv)

section \<open>Searching and walking\<close>

lemma om_lower_bound_filter:
  "om_inv m \<Longrightarrow> om_lower_bound m k = filter (\<lambda>e. k \<le> fst e) m"
proof (induction m)
  case (Cons e m)
  show ?case
  proof (cases "fst e < k")
    case True
    then show ?thesis using Cons by (simp add: om_lower_bound_def)
  next
    case False
    then have "\<forall>x\<in>set (e # m). k \<le> fst x"
      using Cons.prems by (auto intro: order_trans less_imp_le)
    then have "filter (\<lambda>e. k \<le> fst e) (e # m) = e # m"
      by (simp add: filter_id_conv)
    then show ?thesis
      using False by (simp only: om_lower_bound_def) simp
  qed
qed (simp add: om_lower_bound_def)

lemma takeWhile_sorted_filter:
  fixes f :: "'a \<Rightarrow> 'b :: linorder"
  shows "sorted_wrt (<) (map f m) \<Longrightarrow> takeWhile (\<lambda>e. f e < k) m = filter (\<lambda>e. f e < k) m"
proof (induction m)
  case (Cons e m)
  then have "\<not> f e < k \<Longrightarrow> filter (\<lambda>e. f e < k) (e # m) = []"
    by (fastforce simp: filter_empty_conv)
  with Cons show ?case by auto
qed simp

lemma dropWhile_sorted_filter:
  fixes f :: "'a \<Rightarrow> 'b :: linorder"
  shows "sorted_wrt (<) (map f m) \<Longrightarrow> dropWhile (\<lambda>e. f e < k) m = filter (\<lambda>e. k \<le> f e) m"
proof (induction m)
  case (Cons e m)
  then show ?case
    by (cases "f e < k") (auto intro!: filter_True[symmetric] dest: less_imp_le)
qed simp

lemma sorted_filter_map_lt: "sorted_wrt (<) (map f m) \<Longrightarrow> sorted_wrt (<) (map f (filter P m))"
  by (simp add: sorted_wrt_map sorted_wrt_filter)

lemma set_os_insert [simp]: "set (os_insert k s) = insert k (set s)"
  by (induction s) auto

lemma sorted_os_insert: "sorted_wrt (<) s \<Longrightarrow> sorted_wrt (<) (os_insert k s)"
  by (induction s) auto

lemma set_fold_os_insert [simp]: "set (fold os_insert xs s) = set xs \<union> set s"
  by (induction xs arbitrary: s) auto

lemma sorted_fold_os_insert: "sorted_wrt (<) s \<Longrightarrow> sorted_wrt (<) (fold os_insert xs s)"
  by (induction xs arbitrary: s) (auto simp: sorted_os_insert)

text \<open>The representation is canonical.\<close>

lemma om_ext:
  assumes "om_inv m" "om_inv m'" "map_of m = map_of m'"
  shows "m = m'"
proof -
  have "set m = set m'"
    using assms by (metis map_of_inject_set strict_sorted_distinct)
  moreover have "distinct (map fst m)" "distinct (map fst m')" "sorted (map fst m)" "sorted (map fst m')"
    using assms(1,2) by (simp_all add: strict_sorted_iff)
  ultimately show ?thesis
    by (intro map_sorted_distinct_set_unique[where f = fst]) (simp_all add: distinct_map)
qed

end
