(* ===== verification/SampleStore.thy ===== *)
theory SampleStore
  imports Model OrderedMap
begin

text \<open>
  What a store of samples promises, stated once for every component that holds samples: the
  MemTable, a segment file and the whole engine answer point, latest and range queries
  about a partial map from series and timestamps to values.  The locale \<open>sample_source\<close>
  is that contract; its lemmas (range results agree with point queries, adjacent ranges
  concatenate, latest is the end of the full range) hold for each interpretation.
\<close>

section \<open>The abstract store and its queries\<close>

type_synonym store = "SeriesKey \<Rightarrow> Timestamp \<Rightarrow> double option"

definition store_put :: "SeriesKey \<Rightarrow> Sample \<Rightarrow> store \<Rightarrow> store" where
  "store_put k s S = S(k := (S k)(timestamp s \<mapsto> sample_value s))"

text \<open>Later writes win: the store \<open>N\<close> written on top of the store \<open>S\<close>.\<close>

definition store_overlay :: "store \<Rightarrow> store \<Rightarrow> store" where
  "store_overlay S N = (\<lambda>k. S k ++ N k)"

text \<open>The logical samples: the unique pairs of series and timestamp.\<close>

definition store_keys :: "store \<Rightarrow> (SeriesKey \<times> Timestamp) set" where
  "store_keys S = {(k, t). S k t \<noteq> None}"

definition store_finite_values :: "store \<Rightarrow> bool" where
  "store_finite_values S \<longleftrightarrow> (\<forall>k t v. S k t = Some v \<longrightarrow> isfinite v)"

definition is_latest :: "store \<Rightarrow> SeriesKey \<Rightarrow> Sample option \<Rightarrow> bool" where
  "is_latest S k r \<longleftrightarrow>
     (case r of
        None \<Rightarrow> S k = Map.empty
      | Some s \<Rightarrow> S k (timestamp s) = Some (sample_value s) \<and>
                  (\<forall>t\<in>dom (S k). t \<le> timestamp s))"

definition is_range :: "store \<Rightarrow> SeriesKey \<Rightarrow> Timestamp \<Rightarrow> Timestamp \<Rightarrow> Sample list \<Rightarrow> bool" where
  "is_range S k a b xs \<longleftrightarrow>
     sorted_wrt (<) (map timestamp xs) \<and>
     set xs = {Sample t v |t v. S k t = Some v \<and> a \<le> t \<and> t < b}"

section \<open>Facts about stores\<close>

lemma sample_list_unique:
  assumes "sorted_wrt (<) (map timestamp xs)" "sorted_wrt (<) (map timestamp ys)"
    and "set xs = set ys"
  shows "xs = ys"
proof -
  have "distinct (map timestamp xs)" "distinct (map timestamp ys)"
    using assms(1,2) strict_sorted_distinct by blast+
  moreover have "sorted (map timestamp xs)" "sorted (map timestamp ys)"
    using assms(1,2) strict_sorted_iff by blast+
  ultimately show ?thesis
    using assms(3) by (metis distinct_map map_sorted_distinct_set_unique sup.idem)
qed

lemma is_range_unique: "is_range S k a b xs \<Longrightarrow> is_range S k a b ys \<Longrightarrow> xs = ys"
  by (auto simp: is_range_def intro: sample_list_unique)

lemma is_range_append:
  assumes "is_range S k a b xs" "is_range S k b c ys" "a \<le> b" "b \<le> c"
  shows "is_range S k a c (xs @ ys)"
proof -
  have sep: "\<forall>x\<in>set xs. \<forall>y\<in>set ys. timestamp x < timestamp y"
    using assms(1,2) by (auto simp: is_range_def)
  show ?thesis
    using assms sep by (auto simp: is_range_def sorted_wrt_append)
qed

lemma is_latest_Some:
  "is_latest S k (Some s) \<longleftrightarrow>
     S k (timestamp s) = Some (sample_value s) \<and> (\<forall>t v. S k t = Some v \<longrightarrow> t \<le> timestamp s)"
  by (auto simp: is_latest_def dom_def)

lemma is_latest_None: "is_latest S k None \<longleftrightarrow> (\<forall>t. S k t = None)"
  by (auto simp: is_latest_def fun_eq_iff)

lemma is_latest_unique:
  assumes "is_latest S k r" "is_latest S k r'"
  shows "r = r'"
proof (cases r; cases r')
  fix s s' assume r: "r = Some s" "r' = Some s'"
  then have "timestamp s \<le> timestamp s'" "timestamp s' \<le> timestamp s"
    using assms by (auto simp: is_latest_Some)
  then have "timestamp s = timestamp s'" by simp
  with assms r show ?thesis
    by (auto simp: is_latest_Some Sample.expand)
qed (use assms in \<open>auto simp: is_latest_Some is_latest_None\<close>)

lemma sorted_last_greatest:
  assumes "sorted_wrt (<) (map timestamp xs)" "x \<in> set xs"
  shows "timestamp x \<le> timestamp (last xs)"
  using assms by (induction xs rule: rev_induct) (auto simp: sorted_wrt_append intro: less_imp_le)

lemma is_range_is_latest:
  assumes "is_range S k a b xs" "\<forall>t\<in>dom (S k). a \<le> t \<and> t < b"
  shows "is_latest S k (if xs = [] then None else Some (last xs))"
proof -
  have mem: "Sample t v \<in> set xs" if "S k t = Some v" for t v
    using assms that by (auto simp: is_range_def dom_def)
  show ?thesis
  proof (cases "xs = []")
    case True
    then have "S k t = None" for t
      using mem by (cases "S k t") auto
    with True show ?thesis by (simp add: is_latest_None)
  next
    case False
    have last: "S k (timestamp (last xs)) = Some (sample_value (last xs))"
      using assms(1) last_in_set[OF False] by (auto simp: is_range_def)
    have "t \<le> timestamp (last xs)" if "S k t = Some v" for t v
      using assms(1) mem[OF that] sorted_last_greatest[of xs "Sample t v"]
      by (simp add: is_range_def)
    with last False show ?thesis by (simp add: is_latest_Some)
  qed
qed

lemma is_latest_last_range:
  assumes "is_latest S k r" "is_range S k a b xs" "\<forall>t\<in>dom (S k). a \<le> t \<and> t < b"
  shows "r = (if xs = [] then None else Some (last xs))"
  using is_latest_unique[OF assms(1) is_range_is_latest[OF assms(2,3)]] .

lemma store_overlay_assoc:
  "store_overlay (store_overlay A B) C = store_overlay A (store_overlay B C)"
  by (simp add: store_overlay_def)

lemma store_overlay_empty [simp]:
  "store_overlay S (\<lambda>_. Map.empty) = S"
  "store_overlay (\<lambda>_. Map.empty) S = S"
  by (simp_all add: store_overlay_def)

lemma store_put_overlay:
  "store_overlay S (store_put k s N) = store_put k s (store_overlay S N)"
  by (auto simp: store_overlay_def store_put_def fun_eq_iff map_add_def)

lemma store_keys_put: "store_keys (store_put k s S) = insert (k, timestamp s) (store_keys S)"
  by (auto simp: store_keys_def store_put_def split: if_splits)

lemma store_keys_overlay: "store_keys (store_overlay S N) = store_keys S \<union> store_keys N"
  by (auto simp: store_keys_def store_overlay_def)

lemma store_keys_empty [simp]: "store_keys (\<lambda>_. Map.empty) = {}"
  by (simp add: store_keys_def)

lemma store_put_same: "store_put k s S k (timestamp s) = Some (sample_value s)"
  by (simp add: store_put_def)

section \<open>The contract of a source of samples\<close>

locale sample_source =
  fixes invar :: "'s \<Rightarrow> bool"
    and content :: "'s \<Rightarrow> store"
    and get :: "'s \<Rightarrow> SeriesKey \<Rightarrow> Timestamp \<Rightarrow> Sample option result"
    and latest :: "'s \<Rightarrow> SeriesKey \<Rightarrow> Sample option result"
    and range :: "'s \<Rightarrow> SeriesKey \<Rightarrow> Timestamp \<Rightarrow> Timestamp \<Rightarrow> Sample list result"
  assumes get_content: "invar s \<Longrightarrow> get s k t = Inr (map_option (Sample t) (content s k t))"
    and latest_content: "invar s \<Longrightarrow> \<exists>r. latest s k = Inr r \<and> is_latest (content s) k r"
    and range_content:
      "invar s \<Longrightarrow> a \<le> b \<Longrightarrow> \<exists>xs. range s k a b = Inr xs \<and> is_range (content s) k a b xs"
    and range_reversed: "invar s \<Longrightarrow> b < a \<Longrightarrow> \<exists>msg. range s k a b = Inl (InvalidArgument msg)"
begin

lemma range_Inr_is_range:
  assumes "invar s" "range s k a b = Inr xs"
  shows "a \<le> b \<and> is_range (content s) k a b xs"
proof -
  have "a \<le> b" using range_reversed[OF assms(1), of b a k] assms(2) by (fastforce simp: not_le)
  with range_content[OF assms(1) this, of k] assms(2) show ?thesis by auto
qed

lemma range_total: "invar s \<Longrightarrow> (\<exists>xs. range s k a b = Inr xs) \<longleftrightarrow> a \<le> b"
  by (metis range_content range_Inr_is_range)

lemma range_member:
  assumes "invar s" "range s k a b = Inr xs"
  shows "x \<in> set xs \<longleftrightarrow> get s k (timestamp x) = Inr (Some x) \<and> a \<le> timestamp x \<and> timestamp x < b"
  using range_Inr_is_range[OF assms] get_content[OF assms(1), of k "timestamp x"]
  by (cases x) (auto simp: is_range_def)

lemma range_concat:
  assumes "invar s" "range s k a b = Inr xs" "range s k b c = Inr ys"
  shows "range s k a c = Inr (xs @ ys)"
proof -
  from assms have ab: "a \<le> b" "is_range (content s) k a b xs"
    and bc: "b \<le> c" "is_range (content s) k b c ys"
    using range_Inr_is_range by blast+
  then obtain zs where "range s k a c = Inr zs" "is_range (content s) k a c zs"
    using range_content[OF assms(1)] order_trans by blast
  moreover have "is_range (content s) k a c (xs @ ys)"
    using ab bc is_range_append by blast
  ultimately show ?thesis using is_range_unique by blast
qed

lemma latest_is_end_of_range:
  assumes "invar s" "latest s k = Inr r" "range s k a b = Inr xs"
    and "\<forall>t\<in>dom (content s k). a \<le> t \<and> t < b"
  shows "r = (if xs = [] then None else Some (last xs))"
  using latest_content[OF assms(1), of k] range_Inr_is_range[OF assms(1,3)] assms(2,4)
    is_latest_last_range by fastforce

lemma latest_bounds_get:
  assumes "invar s" "latest s k = Inr (Some x)" "get s k t = Inr (Some y)"
  shows "t \<le> timestamp x \<and> get s k (timestamp x) = Inr (Some x)"
  using latest_content[OF assms(1), of k] get_content[OF assms(1), of k] assms(2,3)
  by (auto simp: is_latest_def)

lemma latest_None_iff: "invar s \<Longrightarrow> latest s k = Inr None \<longleftrightarrow> (\<forall>t. get s k t = Inr None)"
  using latest_content[of s k] by (auto simp: get_content is_latest_def split: option.splits)

end

end
