(* ===== verification/SeriesMap.thy ===== *)
theory SeriesMap
  imports SampleStore
begin

text \<open>
  The nested map \<^verbatim>\<open>std::map<SeriesKey, std::map<Timestamp, double>>\<close> that the MemTable keeps
  and that compaction builds, with the store it denotes, and the samples it yields when
  walked in order.
\<close>

type_synonym SamplesByTimestamp = "(Timestamp, double) omap"
type_synonym series_map = "(SeriesKey, SamplesByTimestamp) omap"

text \<open>\<^verbatim>\<open>merged[series]\<close>: the inner map, empty when the series is new.\<close>

definition sm_samples :: "series_map \<Rightarrow> SeriesKey \<Rightarrow> SamplesByTimestamp" where
  "sm_samples m k = (case map_of m k of None \<Rightarrow> [] | Some s \<Rightarrow> s)"

definition sm_put :: "SeriesKey \<Rightarrow> Timestamp \<Rightarrow> double \<Rightarrow> series_map \<Rightarrow> series_map" where
  "sm_put k t v m = om_put k (om_put t v (sm_samples m k)) m"

definition sm_content :: "series_map \<Rightarrow> store" where
  "sm_content m k = map_of (sm_samples m k)"

definition sm_inv :: "series_map \<Rightarrow> bool" where
  "sm_inv m \<longleftrightarrow> om_inv m \<and> (\<forall>(k, s)\<in>set m. om_inv s)"

definition sm_size :: "series_map \<Rightarrow> nat" where
  "sm_size m = sum_list (map (\<lambda>e. length (snd e)) m)"

definition sm_nonempty :: "series_map \<Rightarrow> bool" where
  "sm_nonempty m \<longleftrightarrow> (\<forall>(k, s)\<in>set m. s \<noteq> [])"

text \<open>\<^verbatim>\<open>samples.emplace_back(timestamp, value)\<close> over one inner map: each step runs the sample constructor.\<close>

definition samples_of_map :: "SamplesByTimestamp \<Rightarrow> Sample list result" where
  "samples_of_map s = emap (\<lambda>(t, v). make_Sample t v) s"

section \<open>Facts\<close>

lemma sm_empty [simp]: "sm_inv []" "sm_content [] = (\<lambda>_. Map.empty)" "sm_size [] = 0" "sm_nonempty []"
  by (simp_all add: sm_inv_def sm_content_def sm_samples_def fun_eq_iff sm_size_def sm_nonempty_def)

lemma sm_samples_inv: "sm_inv m \<Longrightarrow> om_inv (sm_samples m k)"
  by (auto simp: sm_inv_def sm_samples_def dest: map_of_SomeD split: option.splits)

lemma set_om_put: "om_inv m \<Longrightarrow> e \<in> set (om_put k v m) \<longleftrightarrow> e = (k, v) \<or> (e \<in> set m \<and> fst e \<noteq> k)"
  using smap.set_entries[OF smap.invar_put, of m "fst e" "snd e" k v] smap.set_entries[of m "fst e" "snd e"]
  by (cases e) (auto simp: map_of_om_put)

lemma sm_put_inv: "sm_inv m \<Longrightarrow> sm_inv (sm_put k t v m)"
  using sm_samples_inv[of m k]
  by (auto simp: sm_inv_def sm_put_def om_put_inv set_om_put)

lemma sm_put_content: "sm_content (sm_put k t v m) = store_put k (Sample t v) (sm_content m)"
  by (auto simp: sm_content_def sm_put_def sm_samples_def store_put_def fun_eq_iff map_of_om_put)

lemma om_put_neq_Nil [simp]: "om_put k v m \<noteq> []" "[] \<noteq> om_put k v m"
  by (induction k v m rule: om_put.induct) auto

lemma sm_put_nonempty: "sm_inv m \<Longrightarrow> sm_nonempty m \<Longrightarrow> sm_nonempty (sm_put k t v m)"
  by (fastforce simp: sm_nonempty_def sm_put_def sm_inv_def set_om_put)

lemma store_keys_sm_content:
  "sm_inv m \<Longrightarrow> store_keys (sm_content m) = (\<Union>(k, s)\<in>set m. Pair k ` fst ` set s)"
proof (intro set_eqI iffI)
  fix x assume inv: "sm_inv m" and "x \<in> store_keys (sm_content m)"
  then show "x \<in> (\<Union>(k, s)\<in>set m. Pair k ` fst ` set s)"
    by (force simp: store_keys_def sm_content_def sm_samples_def split: option.splits
        dest: map_of_SomeD)
next
  fix x assume inv: "sm_inv m" and "x \<in> (\<Union>(k, s)\<in>set m. Pair k ` fst ` set s)"
  then obtain k s where x: "(k, s) \<in> set m" "x \<in> Pair k ` fst ` set s" by auto
  then have "map_of m k = Some s"
    using inv smap.set_entries[of m k s] by (simp add: sm_inv_def)
  with x show "x \<in> store_keys (sm_content m)"
    by (force simp: store_keys_def sm_content_def sm_samples_def map_of_eq_None_iff)
qed

lemma store_keys_Cons:
  assumes "sm_inv ((k, s) # m)"
  shows "store_keys (sm_content ((k, s) # m)) = Pair k ` fst ` set s \<union> store_keys (sm_content m)"
    and "(Pair k ` fst ` set s) \<inter> store_keys (sm_content m) = {}"
proof -
  have m: "sm_inv m" using assms by (auto simp: sm_inv_def)
  show "store_keys (sm_content ((k, s) # m)) = Pair k ` fst ` set s \<union> store_keys (sm_content m)"
    using store_keys_sm_content[OF assms] store_keys_sm_content[OF m] by simp
  show "(Pair k ` fst ` set s) \<inter> store_keys (sm_content m) = {}"
    using assms store_keys_sm_content[OF m] by (fastforce simp: sm_inv_def)
qed

lemma sm_size_card: "sm_inv m \<Longrightarrow> sm_size m = card (store_keys (sm_content m))"
proof (induction m)
  case (Cons e m)
  obtain k s where e: "e = (k, s)" by force
  from Cons.prems have m: "sm_inv m" and s: "distinct (map fst s)"
    by (auto simp: sm_inv_def e strict_sorted_distinct)
  have fin: "finite (store_keys (sm_content m))"
    using store_keys_sm_content[OF m] by auto
  have "card (Pair k ` fst ` set s) = length s"
    using distinct_card[OF s] by (simp add: card_image inj_on_def)
  with Cons m fin store_keys_Cons[OF Cons.prems[unfolded e]] show ?case
    by (simp add: sm_size_def e card_Un_disjoint)
qed simp

lemma sm_finite_keys: "sm_inv m \<Longrightarrow> finite (store_keys (sm_content m))"
  using store_keys_sm_content by fastforce

lemma samples_of_map_finite:
  "(\<And>t v. (t, v) \<in> set s \<Longrightarrow> isfinite v) \<Longrightarrow> samples_of_map s = Inr (map (\<lambda>(t, v). Sample t v) s)"
  unfolding samples_of_map_def by (rule emap_all_Inr) auto

lemma sm_content_entry: "sm_inv m \<Longrightarrow> (k, s) \<in> set m \<Longrightarrow> sm_content m k = map_of s"
  using smap.set_entries[of m k s] by (simp add: sm_inv_def sm_content_def sm_samples_def)

lemma sm_content_finite_values:
  assumes "sm_inv m" "store_finite_values (sm_content m)" "(k, s) \<in> set m" "(t, v) \<in> set s"
  shows "isfinite v"
proof -
  have "map_of s t = Some v"
    using assms by (intro map_of_is_SomeI) (auto simp: sm_inv_def strict_sorted_distinct)
  then have "sm_content m k t = Some v"
    using sm_content_entry[OF assms(1,3)] by simp
  with assms(2) show ?thesis
    unfolding store_finite_values_def by blast
qed

lemma map_of_samples_range:
  assumes "om_inv s"
  shows "set (map (\<lambda>(t, v). Sample t v) (filter (\<lambda>e. a \<le> fst e \<and> fst e < b) s)) =
    {Sample t v |t v. map_of s t = Some v \<and> a \<le> t \<and> t < b}"
  using assms smap.set_entries[OF assms] by force

lemma timestamps_of_samples: "map timestamp (map (\<lambda>(t, v). Sample t v) s) = map fst s"
  by (induction s) auto

lemma store_put_finite_values:
  "store_finite_values S \<Longrightarrow> sample_wf s \<Longrightarrow> store_finite_values (store_put k s S)"
  by (auto simp: store_finite_values_def store_put_def sample_wf_def split: if_splits)

lemma sm_samples_eq:
  assumes m: "sm_inv m" "sm_nonempty m"
  shows "map_of m k = (if sm_samples m k = [] then None else Some (sm_samples m k))"
  using assms by (auto simp: sm_samples_def sm_nonempty_def dest: map_of_SomeD split: option.splits)

lemma sm_ext:
  assumes m: "sm_inv m" "sm_nonempty m" and m': "sm_inv m'" "sm_nonempty m'" and eq: "sm_content m = sm_content m'"
  shows "m = m'"
proof (rule om_ext)
  have "sm_samples m k = sm_samples m' k" for k
    using om_ext[OF sm_samples_inv[OF m(1)] sm_samples_inv[OF m'(1)]] fun_cong[OF eq, of k] by (simp add: sm_content_def)
  then show "map_of m = map_of m'" using sm_samples_eq[OF m] sm_samples_eq[OF m'] by (simp add: fun_eq_iff)
qed (use m m' in \<open>simp_all add: sm_inv_def\<close>)

end
