(* ===== verification/MemTable.thy ===== *)
theory MemTable
  imports SeriesMap
begin

text \<open>
  The ordered in-memory table of \<^verbatim>\<open>src/internal/memtable.hpp\<close> and \<^verbatim>\<open>src/memtable.cpp\<close>: its
  state, every operation, the invariant the operations keep, and the proof that it
  implements the contract of a source of samples.
\<close>

section \<open>State and operations\<close>

record MemTable =
  mt_series :: series_map
  mt_sample_count :: nat

datatype MemTableSeriesSnapshot =
  MemTableSeriesSnapshot (snapshot_series: SeriesKey) (snapshot_samples: "Sample list")

definition empty_memtable :: MemTable where
  "empty_memtable = \<lparr>mt_series = [], mt_sample_count = 0\<rparr>"

definition memtable_put :: "SeriesKey \<Rightarrow> Sample \<Rightarrow> MemTable \<Rightarrow> MemTable" where
  "memtable_put k s m =
     (let series = (case map_of (mt_series m) k of
                      None \<Rightarrow> om_put k [] (mt_series m)
                    | Some _ \<Rightarrow> mt_series m);
          samples = the (map_of series k);
          t = timestamp s;
          v = sample_value s
      in case map_of samples t of
           None \<Rightarrow> m\<lparr>mt_series := om_put k (om_put t v samples) series,
                     mt_sample_count := mt_sample_count m + 1\<rparr>
         | Some _ \<Rightarrow> m\<lparr>mt_series := om_put k (om_put t v samples) series\<rparr>)"

definition memtable_latest :: "MemTable \<Rightarrow> SeriesKey \<Rightarrow> Sample option result" where
  "memtable_latest m k =
     (case map_of (mt_series m) k of
        None \<Rightarrow> Inr None
      | Some samples \<Rightarrow>
          if samples = [] then Inr None
          else ebind (make_Sample (fst (last samples)) (snd (last samples))) (\<lambda>s. Inr (Some s)))"

definition memtable_get :: "MemTable \<Rightarrow> SeriesKey \<Rightarrow> Timestamp \<Rightarrow> Sample option result" where
  "memtable_get m k t =
     (case map_of (mt_series m) k of
        None \<Rightarrow> Inr None
      | Some samples \<Rightarrow>
          (case map_of samples t of
             None \<Rightarrow> Inr None
           | Some v \<Rightarrow> ebind (make_Sample t v) (\<lambda>s. Inr (Some s))))"

text \<open>The loop of \<^verbatim>\<open>MemTable::range\<close> from the \<^verbatim>\<open>lower_bound\<close> iterator on.\<close>

fun memtable_range_loop :: "SamplesByTimestamp \<Rightarrow> Timestamp \<Rightarrow> Sample list result" where
  "memtable_range_loop [] end_ts = Inr []"
| "memtable_range_loop ((t, v) # rest) end_ts =
     (if \<not> t < end_ts then Inr []
      else ebind (make_Sample t v) (\<lambda>s.
             ebind (memtable_range_loop rest end_ts) (\<lambda>xs. Inr (s # xs))))"

definition memtable_range ::
  "MemTable \<Rightarrow> SeriesKey \<Rightarrow> Timestamp \<Rightarrow> Timestamp \<Rightarrow> Sample list result" where
  "memtable_range m k start_ts end_ts =
     (if end_ts < start_ts then Inl (InvalidArgument ''range end cannot be before start'')
      else case map_of (mt_series m) k of
             None \<Rightarrow> Inr []
           | Some samples \<Rightarrow> memtable_range_loop (om_lower_bound samples start_ts) end_ts)"

definition memtable_sample_count :: "MemTable \<Rightarrow> nat" where
  "memtable_sample_count m = mt_sample_count m"

definition memtable_empty :: "MemTable \<Rightarrow> bool" where
  "memtable_empty m \<longleftrightarrow> mt_sample_count m = 0"

definition memtable_series :: "MemTable \<Rightarrow> SeriesKey list" where
  "memtable_series m = map fst (mt_series m)"

definition memtable_snapshot :: "MemTable \<Rightarrow> MemTableSeriesSnapshot list result" where
  "memtable_snapshot m =
     emap (\<lambda>(k, samples_by_timestamp).
             ebind (samples_of_map samples_by_timestamp) (\<lambda>samples.
               Inr (MemTableSeriesSnapshot k samples)))
       (mt_series m)"

definition memtable_clear :: "MemTable \<Rightarrow> MemTable" where
  "memtable_clear m = m\<lparr>mt_series := [], mt_sample_count := 0\<rparr>"

section \<open>Invariant and content\<close>

definition memtable_inv :: "MemTable \<Rightarrow> bool" where
  "memtable_inv m \<longleftrightarrow>
     sm_inv (mt_series m) \<and> sm_nonempty (mt_series m) \<and>
     store_finite_values (sm_content (mt_series m)) \<and>
     (\<forall>k\<in>fst ` set (mt_series m). series_wf k) \<and>
     mt_sample_count m = sm_size (mt_series m)"

definition memtable_content :: "MemTable \<Rightarrow> store" where
  "memtable_content m = sm_content (mt_series m)"

lemma om_put_idem: "om_inv m \<Longrightarrow> om_put k w (om_put k v m) = om_put k w m"
  by (rule smap.entries_unique) (simp_all add: om_put_inv map_of_om_put)

lemma memtable_put_series:
  assumes "om_inv (mt_series m)"
  shows "mt_series (memtable_put k s m) =
     sm_put k (timestamp s) (sample_value s) (mt_series m)"
  using assms
  by (auto simp: memtable_put_def sm_put_def sm_samples_def Let_def map_of_om_put om_put_idem
      split: option.splits)

lemma memtable_put_count:
  "mt_sample_count (memtable_put k s m) =
     mt_sample_count m +
     (if memtable_content m k (timestamp s) = None then 1 else 0)"
  by (auto simp: memtable_put_def Let_def map_of_om_put memtable_content_def sm_content_def
      sm_samples_def split: option.splits)

lemma memtable_inv_empty [simp]: "memtable_inv empty_memtable"
  "memtable_content empty_memtable = (\<lambda>_. Map.empty)"
  by (simp_all add: memtable_inv_def empty_memtable_def store_finite_values_def memtable_content_def)

lemma memtable_inv_clear [simp]: "memtable_inv (memtable_clear m)"
  "memtable_content (memtable_clear m) = (\<lambda>_. Map.empty)"
  by (simp_all add: memtable_inv_def memtable_clear_def store_finite_values_def memtable_content_def)

lemma memtable_content_put:
  assumes "memtable_inv m"
  shows "memtable_content (memtable_put k s m) = store_put k s (memtable_content m)"
  using assms by (simp add: memtable_content_def memtable_put_series memtable_inv_def sm_inv_def
      sm_put_content)

lemma memtable_count_card:
  "memtable_inv m \<Longrightarrow> mt_sample_count m = card (store_keys (memtable_content m))"
  by (simp add: memtable_inv_def memtable_content_def sm_size_card)

lemma memtable_put_inv:
  assumes "memtable_inv m" "series_wf k" "sample_wf s"
  shows "memtable_inv (memtable_put k s m)"
proof -
  let ?M = "mt_series m"
  let ?M' = "mt_series (memtable_put k s m)"
  from assms(1) have inv: "sm_inv ?M" and om: "om_inv ?M" by (auto simp: memtable_inv_def sm_inv_def)
  have M': "?M' = sm_put k (timestamp s) (sample_value s) ?M"
    using memtable_put_series[OF om] .
  have inv': "sm_inv ?M'" by (simp add: M' sm_put_inv inv)
  have content: "sm_content ?M' = store_put k s (sm_content ?M)" by (simp add: M' sm_put_content)
  have "sm_size ?M' = card (insert (k, timestamp s) (store_keys (sm_content ?M)))"
    by (simp add: sm_size_card[OF inv'] content store_keys_put)
  also have "\<dots> = mt_sample_count (memtable_put k s m)"
    using assms(1) sm_finite_keys[OF inv] sm_size_card[OF inv]
    by (auto simp: memtable_put_count memtable_inv_def card_insert_if memtable_content_def
        store_keys_def)
  finally show ?thesis
    using assms inv' om content
    by (auto simp: memtable_inv_def M' sm_put_nonempty store_put_finite_values)
      (auto simp: sm_put_def set_om_put)
qed

section \<open>Queries\<close>

lemma memtable_entry:
  assumes "memtable_inv m" "map_of (mt_series m) k = Some s"
  shows "om_inv s" "s \<noteq> []" "(t, v) \<in> set s \<Longrightarrow> isfinite v" "memtable_content m k = map_of s"
proof -
  have mem: "(k, s) \<in> set (mt_series m)" using assms(2) by (rule map_of_SomeD)
  with assms(1) show "om_inv s" "s \<noteq> []"
    by (auto simp: memtable_inv_def sm_inv_def sm_nonempty_def)
  show "memtable_content m k = map_of s"
    using assms(2) by (simp add: memtable_content_def sm_content_def sm_samples_def)
  assume "(t, v) \<in> set s"
  with assms(1) mem show "isfinite v"
    unfolding memtable_inv_def by (blast intro: sm_content_finite_values)
qed

lemma memtable_content_absent:
  "map_of (mt_series m) k = None \<Longrightarrow> memtable_content m k = Map.empty"
  by (simp add: memtable_content_def sm_content_def sm_samples_def)

lemma memtable_get_correct:
  assumes "memtable_inv m"
  shows "memtable_get m k t = Inr (map_option (Sample t) (memtable_content m k t))"
proof (cases "map_of (mt_series m) k")
  case None
  then show ?thesis by (simp add: memtable_get_def memtable_content_absent)
next
  case (Some s)
  note E = memtable_entry[OF assms Some]
  show ?thesis
    using E(3) by (auto simp: memtable_get_def Some E(4) split: option.splits dest: map_of_SomeD)
qed

lemma memtable_range_loop_correct:
  assumes "om_inv s" "\<And>t v. (t, v) \<in> set s \<Longrightarrow> isfinite v"
  shows "memtable_range_loop s e = Inr (map (\<lambda>(t, v). Sample t v) (filter (\<lambda>x. fst x < e) s))"
  using assms
proof (induction s e rule: memtable_range_loop.induct)
  case (2 t v rest e)
  show ?case
  proof (cases "t < e")
    case True
    have "isfinite v" "om_inv rest" "\<And>t v. (t, v) \<in> set rest \<Longrightarrow> isfinite v"
      using 2(2,3) by auto
    with 2(1) True show ?thesis by simp
  next
    case False
    with 2(2) have "filter (\<lambda>x. fst x < e) rest = []" by (force simp: filter_empty_conv)
    with False show ?thesis by simp
  qed
qed simp

lemma memtable_range_correct:
  assumes "memtable_inv m" "a \<le> b"
  shows "\<exists>xs. memtable_range m k a b = Inr xs \<and> is_range (memtable_content m) k a b xs"
proof (cases "map_of (mt_series m) k")
  case None
  then show ?thesis
    using assms(2) by (auto simp: memtable_range_def is_range_def memtable_content_absent)
next
  case (Some s)
  note E = memtable_entry[OF assms(1) Some]
  let ?s = "filter (\<lambda>e. a \<le> fst e) s"
  let ?r = "filter (\<lambda>e. a \<le> fst e \<and> fst e < b) s"
  have "memtable_range_loop ?s b = Inr (map (\<lambda>(t, v). Sample t v) (filter (\<lambda>e. fst e < b) ?s))"
    by (rule memtable_range_loop_correct) (use E(1,3) in \<open>auto simp: sorted_filter_map_lt\<close>)
  then have "memtable_range m k a b =
      Inr (map (\<lambda>(t, v). Sample t v) (filter (\<lambda>e. fst e < b) ?s))"
    using assms(2) by (simp add: memtable_range_def Some om_lower_bound_filter[OF E(1)] leD)
  moreover have "filter (\<lambda>e. fst e < b) ?s = ?r"
    by (simp add: conj_commute)
  moreover have "is_range (memtable_content m) k a b (map (\<lambda>(t, v). Sample t v) ?r)"
    unfolding is_range_def E(4) map_of_samples_range[OF E(1)] timestamps_of_samples
    using E(1) by (simp add: sorted_filter_map_lt)
  ultimately show ?thesis by auto
qed

lemma last_entry_greatest: "om_inv s \<Longrightarrow> e \<in> set s \<Longrightarrow> fst e \<le> fst (last s)"
  by (induction s rule: rev_induct) (auto simp: sorted_wrt_append intro: less_imp_le)

lemma memtable_latest_correct:
  assumes "memtable_inv m"
  shows "\<exists>r. memtable_latest m k = Inr r \<and> is_latest (memtable_content m) k r"
proof (cases "map_of (mt_series m) k")
  case None
  then show ?thesis by (simp add: memtable_latest_def is_latest_None memtable_content_absent)
next
  case (Some s)
  note E = memtable_entry[OF assms Some]
  obtain t v where l: "last s = (t, v)" by force
  then have mem: "(t, v) \<in> set s" using E(2) last_in_set by metis
  have "t' \<le> t" if "map_of s t' = Some v'" for t' v'
    using last_entry_greatest[OF E(1) map_of_SomeD[OF that]] l by simp
  moreover have "map_of s t = Some v"
    using E(1) mem by (simp add: strict_sorted_distinct)
  ultimately show ?thesis
    using E(2) E(3)[OF mem] by (simp add: memtable_latest_def Some l is_latest_Some E(4))
qed

interpretation memtable: sample_source memtable_inv memtable_content
  memtable_get memtable_latest memtable_range
proof
  fix m k and a b :: Timestamp assume "memtable_inv m" "b < a"
  then show "\<exists>msg. memtable_range m k a b = Inl (InvalidArgument msg)"
    by (simp add: memtable_range_def)
qed (simp_all add: memtable_get_correct memtable_latest_correct memtable_range_correct)

lemma memtable_ext:
  "memtable_inv m \<Longrightarrow> memtable_inv m' \<Longrightarrow> memtable_content m = memtable_content m' \<Longrightarrow> m = m'"
  using sm_ext[of "mt_series m" "mt_series m'"] by (simp add: memtable_inv_def memtable_content_def)

end
