(* ===== verification/ByteCodec.thy ===== *)
theory ByteCodec
  imports Prelude
begin

unbundle bit_operations_syntax

text \<open>
  The little-endian byte writer and bounds-checked byte reader of
  \<^verbatim>\<open>src/internal/byte_codec.hpp\<close> and \<^verbatim>\<open>src/byte_codec.cpp\<close>.  A read that the C++ code
  reports with \<^verbatim>\<open>false\<close> is \<^const>\<open>None\<close>; the reader and the output are then unchanged.
  A reader that has consumed \<open>pre\<close> and has \<open>xs\<close> left is written \<open>reader_at pre xs\<close>; the
  rules in \<open>codec_simps\<close> run a decoder on the bytes an encoder produced.
\<close>

section \<open>ByteWriter\<close>

record ByteWriter =
  bw_data :: "byte list"

definition empty_writer :: ByteWriter where
  "empty_writer = \<lparr>bw_data = []\<rparr>"

fun write_unsigned :: "u64 \<Rightarrow> nat \<Rightarrow> ByteWriter \<Rightarrow> ByteWriter" where
  "write_unsigned v 0 w = w"
| "write_unsigned v (Suc byte_count) w =
     write_unsigned (drop_bit 8 v) byte_count
       (w\<lparr>bw_data := bw_data w @ [ucast (v AND 0xFF)]\<rparr>)"

definition write_u8 :: "byte \<Rightarrow> ByteWriter \<Rightarrow> ByteWriter" where
  "write_u8 v w = write_unsigned (ucast v) 1 w"

definition write_u16 :: "u16 \<Rightarrow> ByteWriter \<Rightarrow> ByteWriter" where
  "write_u16 v w = write_unsigned (ucast v) 2 w"

definition write_u32 :: "u32 \<Rightarrow> ByteWriter \<Rightarrow> ByteWriter" where
  "write_u32 v w = write_unsigned (ucast v) 4 w"

definition write_u64 :: "u64 \<Rightarrow> ByteWriter \<Rightarrow> ByteWriter" where
  "write_u64 v w = write_unsigned v 8 w"

definition write_bytes :: "byte list \<Rightarrow> ByteWriter \<Rightarrow> ByteWriter" where
  "write_bytes bytes w = fold (\<lambda>b w. w\<lparr>bw_data := bw_data w @ [b]\<rparr>) bytes w"

section \<open>ByteReader\<close>

record ByteReader =
  br_data :: "byte list"
  br_position :: nat

definition make_reader :: "byte list \<Rightarrow> ByteReader" where
  "make_reader bytes = \<lparr>br_data = bytes, br_position = 0\<rparr>"

definition remaining :: "ByteReader \<Rightarrow> nat" where
  "remaining r = length (br_data r) - br_position r"

definition can_read :: "nat \<Rightarrow> ByteReader \<Rightarrow> bool" where
  "can_read n r \<longleftrightarrow> n \<le> remaining r"

definition read_unsigned :: "nat \<Rightarrow> ByteReader \<Rightarrow> (u64 \<times> ByteReader) option" where
  "read_unsigned byte_count r =
     (if byte_count > 8 then None
      else if \<not> can_read byte_count r then None
      else let decoded = foldl (\<lambda>d index.
                    d OR push_bit (index * 8) (ucast (br_data r ! (br_position r + index))))
                  0 [0..<byte_count]
           in Some (decoded, r\<lparr>br_position := br_position r + byte_count\<rparr>))"

definition read_u8 :: "ByteReader \<Rightarrow> (byte \<times> ByteReader) option" where
  "read_u8 r = (case read_unsigned 1 r of None \<Rightarrow> None | Some (decoded, r') \<Rightarrow> Some (ucast decoded, r'))"

definition read_u16 :: "ByteReader \<Rightarrow> (u16 \<times> ByteReader) option" where
  "read_u16 r = (case read_unsigned 2 r of None \<Rightarrow> None | Some (decoded, r') \<Rightarrow> Some (ucast decoded, r'))"

definition read_u32 :: "ByteReader \<Rightarrow> (u32 \<times> ByteReader) option" where
  "read_u32 r = (case read_unsigned 4 r of None \<Rightarrow> None | Some (decoded, r') \<Rightarrow> Some (ucast decoded, r'))"

definition read_u64 :: "ByteReader \<Rightarrow> (u64 \<times> ByteReader) option" where
  "read_u64 r = (case read_unsigned 8 r of None \<Rightarrow> None | Some (decoded, r') \<Rightarrow> Some (decoded, r'))"

definition read_bytes :: "nat \<Rightarrow> ByteReader \<Rightarrow> (byte list \<times> ByteReader) option" where
  "read_bytes n r =
     (if \<not> can_read n r then None
      else Some (map (\<lambda>index. br_data r ! (br_position r + index)) [0..<n],
                 r\<lparr>br_position := br_position r + n\<rparr>))"

section \<open>Byte images of integers\<close>

fun le_bytes :: "nat \<Rightarrow> u64 \<Rightarrow> byte list" where
  "le_bytes 0 v = []"
| "le_bytes (Suc n) v = ucast v # le_bytes n (drop_bit 8 v)"

fun le_value :: "byte list \<Rightarrow> u64" where
  "le_value [] = 0"
| "le_value (b # bs) = ucast b OR push_bit 8 (le_value bs)"

definition u8_bytes :: "byte \<Rightarrow> byte list" where
  "u8_bytes v = le_bytes 1 (ucast v)"

definition u16_bytes :: "u16 \<Rightarrow> byte list" where
  "u16_bytes v = le_bytes 2 (ucast v)"

definition u32_bytes :: "u32 \<Rightarrow> byte list" where
  "u32_bytes v = le_bytes 4 (ucast v)"

definition u64_bytes :: "u64 \<Rightarrow> byte list" where
  "u64_bytes v = le_bytes 8 v"

lemma length_le_bytes [simp]: "length (le_bytes n v) = n"
  by (induction n arbitrary: v) auto

lemma length_int_bytes [simp, size_simps]:
  "length (u8_bytes a) = 1" "length (u16_bytes b) = 2"
  "length (u32_bytes c) = 4" "length (u64_bytes d) = 8"
  by (simp_all add: u8_bytes_def u16_bytes_def u32_bytes_def u64_bytes_def)

lemma bit_le_value:
  "bit (le_value bs) i \<longleftrightarrow> i < 64 \<and> i div 8 < length bs \<and> bit (bs ! (i div 8)) (i mod 8)"
proof (induction bs arbitrary: i)
  case (Cons b bs)
  show ?case
  proof (cases "i < 8")
    case True
    then show ?thesis by (auto simp: bit_or_iff bit_push_bit_iff bit_ucast_iff)
  next
    case False
    then obtain j where j: "i = j + 8" by (metis add.commute le_Suc_ex not_less)
    have "\<not> bit b i" using False bit_imp_le_length[of b i] by auto
    moreover have "i div 8 = Suc (j div 8)" "i mod 8 = j mod 8" using j by simp_all
    ultimately show ?thesis
      using Cons.IH[of j] by (auto simp: j bit_or_iff bit_push_bit_iff bit_ucast_iff)
  qed
qed simp

lemma bit_le_bytes: "k < n \<Longrightarrow> j < 8 \<Longrightarrow> bit (le_bytes n v ! k) j \<longleftrightarrow> bit v (8 * k + j)"
proof (induction n arbitrary: v k)
  case (Suc n)
  then show ?case
    by (cases k) (auto simp: bit_ucast_iff bit_drop_bit_eq add_ac)
qed simp

lemma le_value_le_bytes: "n \<le> 8 \<Longrightarrow> le_value (le_bytes n v) = take_bit (8 * n) v"
proof (rule bit_word_eqI)
  fix i assume "n \<le> 8" "i < LENGTH(64)"
  then show "bit (le_value (le_bytes n v)) i = bit (take_bit (8 * n) v) i"
    using bit_le_bytes[of "i div 8" n "i mod 8" v]
    by (auto simp: bit_le_value bit_take_bit_iff)
qed

lemma le_bytes_le_value: "length bs \<le> 8 \<Longrightarrow> le_bytes (length bs) (le_value bs) = bs"
proof (rule nth_equalityI)
  fix k assume "length bs \<le> 8" "k < length (le_bytes (length bs) (le_value bs))"
  then have k: "k < length bs" "length bs \<le> 8" by simp_all
  show "le_bytes (length bs) (le_value bs) ! k = bs ! k"
  proof (rule bit_word_eqI)
    fix j assume "j < LENGTH(8)"
    then have "j < 8" by simp
    with k show "bit (le_bytes (length bs) (le_value bs) ! k) j = bit (bs ! k) j"
      by (auto simp: bit_le_bytes bit_le_value)
  qed
qed simp

section \<open>The writer appends byte images\<close>

lemma ucast_mask_byte: "(ucast ((v :: u64) AND 0xFF) :: byte) = ucast v"
proof (rule bit_word_eqI)
  fix i assume "i < LENGTH(8)"
  then have "bit (mask 8 :: u64) i" by (simp add: bit_mask_iff)
  moreover have "(0xFF :: u64) = mask 8" by (simp add: mask_eq_exp_minus_1)
  ultimately show "bit (ucast (v AND 0xFF) :: byte) i = bit (ucast v :: byte) i"
    by (simp only: bit_ucast_iff bit_and_iff simp_thms)
qed

definition appended :: "ByteWriter \<Rightarrow> byte list \<Rightarrow> ByteWriter" where
  "appended w bs = w\<lparr>bw_data := bw_data w @ bs\<rparr>"

lemma appended_simps [codec_simps, simp]:
  "appended w [] = w" "appended (appended w bs) cs = appended w (bs @ cs)"
  "bw_data (appended w bs) = bw_data w @ bs" "bw_data empty_writer = []"
  by (simp_all add: appended_def empty_writer_def)

lemma write_unsigned_appended: "write_unsigned v n w = appended w (le_bytes n v)"
  by (induction v n w rule: write_unsigned.induct) (simp_all add: ucast_mask_byte appended_def)

lemma write_bytes_appended [codec_simps]: "write_bytes bs w = appended w bs"
proof (induction bs arbitrary: w)
  case (Cons b bs)
  from Cons[of "w\<lparr>bw_data := bw_data w @ [b]\<rparr>"] show ?case
    by (simp add: write_bytes_def appended_def)
qed (simp add: write_bytes_def)

lemma write_int_appended [codec_simps]:
  "write_u8 a w = appended w (u8_bytes a)" "write_u16 b w = appended w (u16_bytes b)"
  "write_u32 c w = appended w (u32_bytes c)" "write_u64 d w = appended w (u64_bytes d)"
  by (simp_all only: write_u8_def write_u16_def write_u32_def write_u64_def
      write_unsigned_appended u8_bytes_def u16_bytes_def u32_bytes_def u64_bytes_def)

section \<open>The reader consumes byte images\<close>

definition reader_at :: "byte list \<Rightarrow> byte list \<Rightarrow> ByteReader" where
  "reader_at pre xs = \<lparr>br_data = pre @ xs, br_position = length pre\<rparr>"

lemma make_reader_at [codec_simps]: "make_reader xs = reader_at [] xs"
  by (simp add: make_reader_def reader_at_def)

lemma remaining_at [codec_simps, simp]: "remaining (reader_at pre xs) = length xs"
  by (simp add: remaining_def reader_at_def)

lemma foldl_le_value:
  "k + length xs \<le> 8 \<Longrightarrow>
     foldl (\<lambda>d i. d OR push_bit ((k + i) * 8) (ucast (xs ! i))) acc [0..<length xs] =
     acc OR push_bit (k * 8) (le_value xs)"
proof (induction xs arbitrary: k acc)
  case (Cons x xs)
  let ?f = "\<lambda>k xs d i. d OR push_bit ((k + i) * 8) (ucast (xs ! i :: byte)) :: u64"
  have "foldl (?f k (x # xs)) acc [0..<length (x # xs)] =
      foldl (?f k (x # xs)) (?f k (x # xs) acc 0) (map Suc [0..<length xs])"
    by (simp only: length_Cons upt_conv_Cons[OF zero_less_Suc] map_Suc_upt foldl_Cons)
  also have "\<dots> = foldl (?f (Suc k) xs) (?f k (x # xs) acc 0) [0..<length xs]"
    by (simp add: foldl_map add.commute add.left_commute)
  also have "\<dots> = (acc OR push_bit (k * 8) (ucast x)) OR push_bit (Suc k * 8) (le_value xs)"
    using Cons.prems by (subst Cons.IH) simp_all
  also have "\<dots> = acc OR push_bit (k * 8) (le_value (x # xs))"
    by (simp add: push_bit_or or.assoc add.commute)
  finally show ?case .
qed simp

lemma read_unsigned_at:
  "n \<le> 8 \<Longrightarrow> read_unsigned n (reader_at pre xs) =
     (if n \<le> length xs then Some (le_value (take n xs), reader_at (pre @ take n xs) (drop n xs))
      else None)"
proof (cases "n \<le> length xs")
  case True
  assume n: "n \<le> 8"
  have "foldl (\<lambda>d i. d OR push_bit (i * 8) (ucast ((pre @ xs) ! (length pre + i)))) 0 [0..<n] =
      foldl (\<lambda>d i. d OR push_bit ((0 + i) * 8) (ucast (take n xs ! i))) 0 [0..<length (take n xs)]"
    using True by (intro foldl_cong) auto
  also have "\<dots> = le_value (take n xs)"
    using n True by (subst foldl_le_value) auto
  finally show ?thesis
    using n True by (simp add: read_unsigned_def can_read_def reader_at_def remaining_def)
qed (simp add: read_unsigned_def can_read_def)

lemma read_bytes_at [codec_simps]:
  "read_bytes n (reader_at pre xs) =
     (if n \<le> length xs then Some (take n xs, reader_at (pre @ take n xs) (drop n xs)) else None)"
  by (auto simp: read_bytes_def can_read_def reader_at_def remaining_def intro!: nth_equalityI)

lemma le_value_u32: "(ucast (le_value (u32_bytes v)) :: u32) = v"
  by (rule bit_word_eqI) (auto simp: u32_bytes_def le_value_le_bytes bit_ucast_iff bit_take_bit_iff)

lemma le_value_u16: "(ucast (le_value (u16_bytes v)) :: u16) = v"
  by (rule bit_word_eqI) (auto simp: u16_bytes_def le_value_le_bytes bit_ucast_iff bit_take_bit_iff)

lemma le_value_u8: "(ucast (le_value (u8_bytes v)) :: byte) = v"
  by (rule bit_word_eqI) (auto simp: u8_bytes_def le_value_le_bytes bit_ucast_iff bit_take_bit_iff)

lemma le_value_u64: "le_value (u64_bytes v) = v"
  by (rule bit_word_eqI) (auto simp: u64_bytes_def le_value_le_bytes bit_take_bit_iff)

lemma read_int_at [codec_simps]:
  "read_u8 (reader_at pre (u8_bytes a @ xs)) = Some (a, reader_at (pre @ u8_bytes a) xs)"
  "read_u16 (reader_at pre (u16_bytes b @ xs)) = Some (b, reader_at (pre @ u16_bytes b) xs)"
  "read_u32 (reader_at pre (u32_bytes c @ xs)) = Some (c, reader_at (pre @ u32_bytes c) xs)"
  "read_u64 (reader_at pre (u64_bytes d @ xs)) = Some (d, reader_at (pre @ u64_bytes d) xs)"
  by (simp_all add: read_u8_def read_u16_def read_u32_def read_u64_def read_unsigned_at
      le_value_u8 le_value_u16 le_value_u32 le_value_u64)

lemma take_is_u32_bytes: "4 \<le> length xs \<Longrightarrow> u32_bytes (ucast (le_value (take 4 xs))) = take 4 xs"
proof -
  assume "4 \<le> length xs"
  then have l: "length (take 4 xs) = 4" by simp
  have "ucast (ucast (le_value (take 4 xs)) :: u32) = le_value (take 4 xs)"
    by (rule bit_word_eqI) (use l in \<open>auto simp: bit_ucast_iff bit_le_value\<close>)
  then show ?thesis
    using le_bytes_le_value[of "take 4 xs"] l by (simp add: u32_bytes_def)
qed

lemma take_is_u8_bytes: "1 \<le> length xs \<Longrightarrow> u8_bytes (ucast (le_value (take 1 xs))) = take 1 xs"
proof -
  assume "1 \<le> length xs"
  then have l: "length (take 1 xs) = 1" by simp
  have "ucast (ucast (le_value (take 1 xs)) :: byte) = le_value (take 1 xs)"
    by (rule bit_word_eqI) (use l in \<open>auto simp: bit_ucast_iff bit_le_value\<close>)
  then show ?thesis
    using le_bytes_le_value[of "take 1 xs"] l by (simp add: u8_bytes_def)
qed

lemma take_is_u16_bytes: "2 \<le> length xs \<Longrightarrow> u16_bytes (ucast (le_value (take 2 xs))) = take 2 xs"
proof -
  assume "2 \<le> length xs"
  then have l: "length (take 2 xs) = 2" by simp
  have "ucast (ucast (le_value (take 2 xs)) :: u16) = le_value (take 2 xs)"
    by (rule bit_word_eqI) (use l in \<open>auto simp: bit_ucast_iff bit_le_value\<close>)
  then show ?thesis
    using le_bytes_le_value[of "take 2 xs"] l by (simp add: u16_bytes_def)
qed

lemma take_is_u64_bytes: "8 \<le> length xs \<Longrightarrow> u64_bytes (le_value (take 8 xs)) = take 8 xs"
  using le_bytes_le_value[of "take 8 xs"] by (simp add: u64_bytes_def min_absorb2)

text \<open>What a successful read says about the bytes.\<close>

lemma read_int_SomeD:
  "read_u8 (reader_at pre xs) = Some (a, r) \<Longrightarrow>
     \<exists>ys. xs = u8_bytes a @ ys \<and> r = reader_at (pre @ u8_bytes a) ys"
  "read_u16 (reader_at pre xs) = Some (b, r) \<Longrightarrow>
     \<exists>ys. xs = u16_bytes b @ ys \<and> r = reader_at (pre @ u16_bytes b) ys"
  "read_u32 (reader_at pre xs) = Some (c, r) \<Longrightarrow>
     \<exists>ys. xs = u32_bytes c @ ys \<and> r = reader_at (pre @ u32_bytes c) ys"
  "read_u64 (reader_at pre xs) = Some (d, r) \<Longrightarrow>
     \<exists>ys. xs = u64_bytes d @ ys \<and> r = reader_at (pre @ u64_bytes d) ys"
  using take_is_u8_bytes[of xs] take_is_u16_bytes[of xs] take_is_u32_bytes[of xs]
    take_is_u64_bytes[of xs]
  by (auto simp: read_u8_def read_u16_def read_u32_def read_u64_def read_unsigned_at
      split: if_splits intro!: exI[of _ "drop _ xs"])

text \<open>A read fails exactly when too few bytes are left.\<close>

lemma read_int_None:
  "read_u8 (reader_at pre xs) = None \<longleftrightarrow> length xs < 1"
  "read_u16 (reader_at pre xs) = None \<longleftrightarrow> length xs < 2"
  "read_u32 (reader_at pre xs) = None \<longleftrightarrow> length xs < 4"
  "read_u64 (reader_at pre xs) = None \<longleftrightarrow> length xs < 8"
  by (auto simp: read_u8_def read_u16_def read_u32_def read_u64_def read_unsigned_at not_less_eq_eq)

text \<open>Splitting off the image of an integer.\<close>

lemma split_int:
  "length xs = 1 + n \<Longrightarrow> \<exists>a ys. xs = u8_bytes a @ ys \<and> length ys = n"
  "length xs = 2 + n \<Longrightarrow> \<exists>b ys. xs = u16_bytes b @ ys \<and> length ys = n"
  "length xs = 4 + n \<Longrightarrow> \<exists>c ys. xs = u32_bytes c @ ys \<and> length ys = n"
  "length xs = 8 + n \<Longrightarrow> \<exists>d ys. xs = u64_bytes d @ ys \<and> length ys = n"
  by (metis append_take_drop_id diff_add_inverse le_add1 length_drop take_is_u8_bytes,
      metis append_take_drop_id diff_add_inverse le_add1 length_drop take_is_u16_bytes,
      metis append_take_drop_id diff_add_inverse le_add1 length_drop take_is_u32_bytes,
      metis append_take_drop_id diff_add_inverse le_add1 length_drop take_is_u64_bytes)

end
