(* ===== verification/SeriesCodec.thy ===== *)
theory SeriesCodec
  imports Model ByteCodec
begin

text \<open>
  Strings and series keys on disk.  Four source files carry their own copy of
  \<^verbatim>\<open>write_string\<close> and \<^verbatim>\<open>read_string\<close> (\<^verbatim>\<open>src/wal_record.cpp\<close>, \<^verbatim>\<open>src/segment_block_codec.cpp\<close>,
  \<^verbatim>\<open>src/segment_file.cpp\<close>, \<^verbatim>\<open>src/manifest.cpp\<close>); the copies differ in the exception message
  only, which is a parameter here.  The component theories instantiate these definitions
  and inherit the round trips.
\<close>

section \<open>Writing\<close>

definition put_string :: "string \<Rightarrow> string \<Rightarrow> ByteWriter \<Rightarrow> ByteWriter result" where
  "put_string message v w =
     (if length v > 0xFFFFFFFF then Inl (LengthError message)
      else Inr (fold (\<lambda>c. write_u8 (of_char c)) v (write_u32 (of_nat (length v)) w)))"

text \<open>The measurement, the tag count and the tags, as every encoder writes a series key.\<close>

definition put_tag :: "string \<Rightarrow> Tag \<Rightarrow> ByteWriter \<Rightarrow> ByteWriter result" where
  "put_tag message t w =
     ebind (put_string message (tag_key t) w) (put_string message (tag_value t))"

definition put_series_key :: "string \<Rightarrow> string \<Rightarrow> SeriesKey \<Rightarrow> ByteWriter \<Rightarrow> ByteWriter result" where
  "put_series_key string_message tags_message k w =
     ebind (put_string string_message (measurement k) w) (\<lambda>w.
       if length (tags k) > 0xFFFFFFFF then Inl (LengthError tags_message)
       else efold (put_tag string_message) (tags k) (write_u32 (of_nat (length (tags k))) w))"

section \<open>Reading\<close>

text \<open>The loop that reads the bytes of a string one by one.\<close>

fun get_chars :: "nat \<Rightarrow> ByteReader \<Rightarrow> (string \<times> ByteReader) option" where
  "get_chars 0 r = Some ([], r)"
| "get_chars (Suc n) r =
     (case read_u8 r of
        None \<Rightarrow> None
      | Some (b, r) \<Rightarrow>
          (case get_chars n r of
             None \<Rightarrow> None
           | Some (cs, r) \<Rightarrow> Some (char_of (unat b) # cs, r)))"

definition get_string :: "ByteReader \<Rightarrow> (string \<times> ByteReader) option" where
  "get_string r =
     (case read_u32 r of
        None \<Rightarrow> None
      | Some (encoded_length, r) \<Rightarrow>
          if unat encoded_length > remaining r then None
          else get_chars (unat encoded_length) r)"

text \<open>
  The tag loop.  \<open>strict\<close> is the canonical-order test of the segment decoders
  (\<^verbatim>\<open>key <= tags.back().key()\<close> is refused); the WAL decoder has no such test.  An empty key
  makes the \<open>Tag\<close> constructor throw, which every caller catches and turns into \<^verbatim>\<open>nullopt\<close>.
\<close>

fun get_tags :: "bool \<Rightarrow> nat \<Rightarrow> Tag list \<Rightarrow> ByteReader \<Rightarrow> (Tag list \<times> ByteReader) option" where
  "get_tags strict 0 ts r = Some (ts, r)"
| "get_tags strict (Suc n) ts r =
     (case get_string r of
        None \<Rightarrow> None
      | Some (key, r) \<Rightarrow>
          (case get_string r of
             None \<Rightarrow> None
           | Some (val, r) \<Rightarrow>
               if strict \<and> ts \<noteq> [] \<and> key \<le> tag_key (last ts) then None
               else case make_Tag key val of
                      Inl _ \<Rightarrow> None
                    | Inr t \<Rightarrow> get_tags strict n (ts @ [t]) r))"

section \<open>Byte images\<close>

definition string_bytes :: "string \<Rightarrow> byte list" where
  "string_bytes v = u32_bytes (of_nat (length v)) @ map of_char v"

definition tag_bytes :: "Tag \<Rightarrow> byte list" where
  "tag_bytes t = string_bytes (tag_key t) @ string_bytes (tag_value t)"

definition series_bytes :: "SeriesKey \<Rightarrow> byte list" where
  "series_bytes k =
     string_bytes (measurement k) @ u32_bytes (of_nat (length (tags k))) @
     concat (map tag_bytes (tags k))"

text \<open>The sizes for which the 32-bit length fields do not lose information.\<close>

definition string_fits :: "string \<Rightarrow> bool" where
  "string_fits v \<longleftrightarrow> length v \<le> 0xFFFFFFFF"

definition tag_fits :: "Tag \<Rightarrow> bool" where
  "tag_fits t \<longleftrightarrow> string_fits (tag_key t) \<and> string_fits (tag_value t)"

definition series_fits :: "SeriesKey \<Rightarrow> bool" where
  "series_fits k \<longleftrightarrow> string_fits (measurement k) \<and> length (tags k) \<le> 0xFFFFFFFF \<and>
     list_all tag_fits (tags k)"

lemma length_string_bytes [simp, size_simps]: "length (string_bytes v) = 4 + length v"
  by (simp add: string_bytes_def)

lemma length_tag_bytes [size_simps]:
  "length (tag_bytes t) = 8 + length (tag_key t) + length (tag_value t)"
  by (simp add: tag_bytes_def)

lemma length_concat_tag_bytes: "8 * length ts \<le> length (concat (map tag_bytes ts))"
  by (induction ts) (auto simp: length_tag_bytes)

lemma series_fits_if_small:
  assumes "length (series_bytes k) \<le> 0xFFFFFFFF"
  shows "series_fits k"
proof -
  have "length (tag_bytes t) \<le> length (concat (map tag_bytes ts))" if "t \<in> set ts" for t ts
    using that by (induction ts) auto
  with assms length_concat_tag_bytes[of "tags k"] show ?thesis
    by (fastforce simp: series_bytes_def series_fits_def string_fits_def tag_fits_def list_all_iff
        length_tag_bytes)
qed

lemma char_byte_inverse [simp]: "char_of (unat (of_char c :: byte)) = (c :: char)"
proof -
  have "unat (of_char c :: byte) = unat (of_nat (of_char c) :: byte)"
    by (simp only: of_nat_of_char)
  also have "\<dots> = of_char c"
    using nat_of_char_less_256[of c] by (simp only: unat_of_nat) simp
  finally show ?thesis by simp
qed

lemma byte_char_inverse [simp]: "of_char (char_of (unat (b :: byte)) :: char) = b"
proof -
  have "(of_char (char_of (unat b) :: char) :: byte) = of_nat (of_char (char_of (unat b) :: char))"
    by (simp only: of_nat_of_char)
  also have "\<dots> = of_nat (unat b)"
    using unat_byte_less[of b] by (simp only: of_char_of mod_less)
  finally show ?thesis by simp
qed

lemma u8_bytes_byte: "u8_bytes b = [b]"
  using le_bytes_le_value[of "[b]"] by (simp add: u8_bytes_def)

section \<open>The writers append byte images\<close>

lemma write_chars_appended: "fold (\<lambda>c. write_u8 (of_char c)) v w = appended w (map of_char v)"
  by (induction v arbitrary: w) (simp_all add: codec_simps u8_bytes_byte)

lemma put_string_appended [codec_simps]:
  "put_string msg v w =
     (if string_fits v then Inr (appended w (string_bytes v)) else Inl (LengthError msg))"
  by (simp add: put_string_def string_fits_def string_bytes_def write_chars_appended codec_simps not_le)

lemma put_tag_appended [codec_simps]:
  "put_tag msg t w =
     (if tag_fits t then Inr (appended w (tag_bytes t)) else Inl (LengthError msg))"
  by (simp add: put_tag_def tag_fits_def tag_bytes_def codec_simps)

lemma put_tags_appended:
  "efold (put_tag msg) ts w =
     (if list_all tag_fits ts then Inr (appended w (concat (map tag_bytes ts)))
      else Inl (LengthError msg))"
  by (induction ts arbitrary: w) (simp_all add: codec_simps)

lemma put_series_key_appended [codec_simps]:
  "series_fits k \<Longrightarrow> put_series_key msg msg' k w = Inr (appended w (series_bytes k))"
  by (simp add: put_series_key_def series_fits_def series_bytes_def put_tags_appended codec_simps)

lemma put_series_key_error:
  "\<not> series_fits k \<Longrightarrow> \<exists>m\<in>{msg, msg'}. put_series_key msg msg' k w = Inl (LengthError m)"
  by (auto simp: put_series_key_def series_fits_def put_tags_appended codec_simps)

section \<open>The readers consume byte images\<close>

lemma get_chars_at:
  "get_chars n (reader_at pre xs) =
     (if n \<le> length xs
      then Some (map (\<lambda>b. char_of (unat b)) (take n xs), reader_at (pre @ take n xs) (drop n xs))
      else None)"
proof (induction n arbitrary: pre xs)
  case (Suc n)
  show ?case
  proof (cases xs)
    case Nil
    then show ?thesis using read_int_None(1)[of pre "[]"] by simp
  next
    case (Cons b ys)
    have "read_u8 (reader_at pre xs) = Some (b, reader_at (pre @ [b]) ys)"
      using read_int_at(1)[of pre b ys] by (simp add: Cons u8_bytes_byte)
    with Suc show ?thesis by (simp add: Cons)
  qed
qed simp

lemma get_string_at [codec_simps]:
  "string_fits v \<Longrightarrow>
     get_string (reader_at pre (string_bytes v @ xs)) = Some (v, reader_at (pre @ string_bytes v) xs)"
  by (simp add: get_string_def string_bytes_def string_fits_def codec_simps unat_of_nat_u32
      get_chars_at comp_def)

lemma get_string_SomeD:
  assumes "get_string (reader_at pre xs) = Some (v, r)"
  shows "string_fits v \<and> (\<exists>ys. xs = string_bytes v @ ys \<and> r = reader_at (pre @ string_bytes v) ys)"
proof -
  obtain n r1 where n: "read_u32 (reader_at pre xs) = Some (n, r1)"
    using assms by (auto simp: get_string_def split: option.splits)
  then obtain ys where ys: "xs = u32_bytes n @ ys" "r1 = reader_at (pre @ u32_bytes n) ys"
    using read_int_SomeD(3) by blast
  with assms n have len: "unat n \<le> length ys"
    and v: "v = map (\<lambda>b. char_of (unat b)) (take (unat n) ys)"
    and r: "r = reader_at ((pre @ u32_bytes n) @ take (unat n) ys) (drop (unat n) ys)"
    by (auto simp: get_string_def get_chars_at split: if_splits)
  have "length v = unat n" using len v by simp
  then have "string_bytes v = u32_bytes n @ take (unat n) ys" "string_fits v"
    using unat_u32_le[of n] by (simp_all add: string_bytes_def string_fits_def v comp_def)
  with ys r show ?thesis by (auto intro: exI[of _ "drop (unat n) ys"])
qed

lemma get_tags_at:
  assumes "list_all tag_fits ts" "list_all tag_wf ts"
    and "strict \<Longrightarrow> sorted_wrt (<) (map tag_key (acc @ ts))"
  shows "get_tags strict (length ts) acc (reader_at pre (concat (map tag_bytes ts) @ xs)) =
     Some (acc @ ts, reader_at (pre @ concat (map tag_bytes ts)) xs)"
  using assms
proof (induction ts arbitrary: acc pre)
  case (Cons t ts)
  have "strict \<and> acc \<noteq> [] \<longrightarrow> tag_key (last acc) < tag_key t"
    using Cons.prems(3) by (auto simp: sorted_wrt_append)
  moreover have "get_tags strict (length ts) (acc @ [t])
      (reader_at (pre @ tag_bytes t) (concat (map tag_bytes ts) @ xs)) =
     Some ((acc @ [t]) @ ts, reader_at ((pre @ tag_bytes t) @ concat (map tag_bytes ts)) xs)"
    using Cons.prems by (intro Cons.IH) auto
  ultimately show ?case
    using Cons.prems(1,2) by (auto simp: tag_bytes_def[of t] tag_fits_def[of t] codec_simps)
qed simp

lemma get_tags_SomeD:
  assumes "get_tags strict n acc (reader_at pre xs) = Some (ts', r)"
  shows "\<exists>ts ys. ts' = acc @ ts \<and> length ts = n \<and> list_all tag_fits ts \<and> list_all tag_wf ts \<and>
     xs = concat (map tag_bytes ts) @ ys \<and>
     r = reader_at (pre @ concat (map tag_bytes ts)) ys \<and>
     (strict \<and> sorted_wrt (<) (map tag_key acc) \<longrightarrow> sorted_wrt (<) (map tag_key ts'))"
  using assms
proof (induction n arbitrary: acc pre xs)
  case (Suc n)
  obtain key r1 val r2 where k: "get_string (reader_at pre xs) = Some (key, r1)"
    and v: "get_string r1 = Some (val, r2)"
    and ord: "\<not> (strict \<and> acc \<noteq> [] \<and> key \<le> tag_key (last acc))"
    and key: "key \<noteq> []"
    and rest: "get_tags strict n (acc @ [Tag key val]) r2 = Some (ts', r)"
    using Suc.prems by (auto simp: make_Tag_def split: option.splits if_splits)
  obtain y1 where y1: "string_fits key" "xs = string_bytes key @ y1"
      "r1 = reader_at (pre @ string_bytes key) y1"
    using get_string_SomeD[OF k] by auto
  obtain y2 where y2: "string_fits val" "y1 = string_bytes val @ y2"
      "r2 = reader_at ((pre @ string_bytes key) @ string_bytes val) y2"
    using get_string_SomeD[OF v[unfolded y1(3)]] by auto
  let ?t = "Tag key val"
  obtain ts ys where IH: "ts' = (acc @ [?t]) @ ts" "length ts = n" "list_all tag_fits ts"
      "list_all tag_wf ts" "y2 = concat (map tag_bytes ts) @ ys"
      "r = reader_at (((pre @ string_bytes key) @ string_bytes val) @ concat (map tag_bytes ts)) ys"
      "strict \<and> sorted_wrt (<) (map tag_key (acc @ [?t])) \<longrightarrow> sorted_wrt (<) (map tag_key ts')"
    using Suc.IH[OF rest[unfolded y2(3)]] by blast
  have srt: "sorted_wrt (<) (map tag_key (acc @ [?t]))"
    if "strict" "sorted_wrt (<) (map tag_key acc)"
  proof -
    have "x < key" if "x \<in> set (map tag_key acc)" for x
    proof -
      have "x \<le> tag_key (last acc)"
        using that \<open>sorted_wrt (<) (map tag_key acc)\<close>
        by (induction acc rule: rev_induct) (auto simp: sorted_wrt_append intro: less_imp_le)
      with ord \<open>strict\<close> that show ?thesis by auto
    qed
    with that show ?thesis by (simp add: sorted_wrt_append)
  qed
  show ?case
    by (rule exI[of _ "?t # ts"], rule exI[of _ ys])
      (use IH srt y1(1,2) y2(1,2) key in \<open>simp add: tag_fits_def[of ?t] tag_wf_def[of ?t] tag_bytes_def[of ?t]\<close>)
qed simp

end
