(* ===== verification/Crc32c.thy ===== *)
theory Crc32c
  imports Prelude
begin

unbundle bit_operations_syntax

text \<open>
  The bitwise CRC32C (Castagnoli) of \<^verbatim>\<open>src/crc32c.cpp\<close>.  The eight shift steps per byte are
  a bijection on the 32-bit state, because the reflected polynomial has its top bit set; from
  that follow the error-detection facts: the checksum of a message determines any four
  consecutive bytes of it once the others are known, so every corruption confined to four
  consecutive bytes changes the checksum.
\<close>

section \<open>Definitions\<close>

definition reflected_polynomial :: u32 where
  "reflected_polynomial = 0x82F63B78"

definition crc32c_bit :: "u32 \<Rightarrow> u32" where
  "crc32c_bit checksum =
     (let lowest_bit_is_set = (checksum AND 1 \<noteq> 0);
          checksum = drop_bit 1 checksum
      in if lowest_bit_is_set then checksum XOR reflected_polynomial else checksum)"

definition crc32c_byte :: "u32 \<Rightarrow> byte \<Rightarrow> u32" where
  "crc32c_byte checksum b = (crc32c_bit ^^ 8) (checksum XOR ucast b)"

definition crc32c :: "byte list \<Rightarrow> u32" where
  "crc32c bytes = foldl crc32c_byte 0xFFFFFFFF bytes XOR 0xFFFFFFFF"

section \<open>The shift step is linear and injective\<close>

lemma and_one_xor: "((a XOR b) AND 1 \<noteq> 0) \<longleftrightarrow> ((a AND 1 \<noteq> 0) \<noteq> (b AND 1 \<noteq> (0 :: u32)))"
  by (simp add: and_one_eq odd_iff_mod_2_eq_one[symmetric]) (simp add: even_xor_iff)

lemma crc32c_bit_xor: "crc32c_bit (a XOR b) = crc32c_bit a XOR crc32c_bit b"
  unfolding crc32c_bit_def Let_def and_one_xor
  by (auto simp: drop_bit_xor xor.assoc xor.commute xor.left_commute)

lemma crc32c_bits_xor: "(crc32c_bit ^^ n) (a XOR b) = (crc32c_bit ^^ n) a XOR (crc32c_bit ^^ n) b"
  by (induction n) (simp_all add: crc32c_bit_xor)

lemma crc32c_bit_zero: "crc32c_bit a = 0 \<longleftrightarrow> a = 0"
proof
  assume z: "crc32c_bit a = 0"
  show "a = 0"
  proof (cases "a AND 1 \<noteq> 0")
    case True
    then have "drop_bit 1 a XOR reflected_polynomial = 0"
      using z by (simp add: crc32c_bit_def)
    then have "bit (drop_bit 1 a XOR reflected_polynomial) 31 = bit (0 :: u32) 31" by simp
    moreover have "\<not> bit (drop_bit 1 a) 31"
      using bit_imp_le_length[of a 32] by (auto simp: bit_drop_bit_eq)
    moreover have "bit reflected_polynomial 31"
      unfolding reflected_polynomial_def by code_simp
    ultimately show ?thesis by (simp add: bit_xor_iff)
  next
    case False
    then have low: "\<not> bit a 0" and d: "drop_bit 1 a = 0"
      using z by (simp_all add: crc32c_bit_def and_one_eq bit_0 mod_2_eq_odd split: if_splits)
    show ?thesis
    proof (rule bit_word_eqI)
      fix i assume "i < LENGTH(32)"
      have "bit (drop_bit 1 a) j = bit a (Suc j)" for j by (simp add: bit_drop_bit_eq)
      with d low show "bit a i = bit (0 :: u32) i" by (cases i) auto
    qed
  qed
qed (simp add: crc32c_bit_def)

lemma crc32c_bits_zero: "(crc32c_bit ^^ n) a = 0 \<longleftrightarrow> a = 0"
  by (induction n) (simp_all add: crc32c_bit_zero)

lemma xor_cancel: "(a :: u32) XOR c = b XOR c \<longleftrightarrow> a = b"
proof
  assume "a XOR c = b XOR c"
  then have "(a XOR c) XOR c = (b XOR c) XOR c" by (rule arg_cong)
  then show "a = b" by (simp only: xor.assoc xor_self_eq xor.right_neutral)
qed simp

lemma xor_eq_zero: "(a :: u32) XOR b = 0 \<longleftrightarrow> a = b"
  using xor_cancel[of a b b] by (simp only: xor_self_eq)

lemma crc32c_bits_inj: "(crc32c_bit ^^ n) a = (crc32c_bit ^^ n) b \<longleftrightarrow> a = b"
  by (metis crc32c_bits_xor crc32c_bits_zero xor_eq_zero)

lemma crc32c_byte_inj_state: "crc32c_byte s b = crc32c_byte t b \<longleftrightarrow> s = t"
  by (simp add: crc32c_byte_def crc32c_bits_inj xor_cancel)

lemma foldl_crc_inj_state: "foldl crc32c_byte s bs = foldl crc32c_byte t bs \<longleftrightarrow> s = t"
  by (induction bs arbitrary: s t) (simp_all add: crc32c_byte_inj_state)

section \<open>Runs of up to four bytes\<close>

text \<open>The little-endian value of a run of bytes, as a polynomial over the state.\<close>

fun run_word :: "byte list \<Rightarrow> u32" where
  "run_word [] = 0"
| "run_word (b # bs) = ucast b XOR push_bit 8 (run_word bs)"

lemma bit_run_word:
  "bit (run_word bs) i \<longleftrightarrow> i < 32 \<and> i div 8 < length bs \<and> bit (bs ! (i div 8)) (i mod 8)"
proof (induction bs arbitrary: i)
  case (Cons b bs)
  show ?case
  proof (cases "i < 8")
    case True
    then show ?thesis by (auto simp: bit_xor_iff bit_push_bit_iff bit_ucast_iff)
  next
    case False
    then obtain j where j: "i = j + 8" by (metis add.commute le_Suc_ex not_less)
    have "\<not> bit b i" using False bit_imp_le_length[of b i] by auto
    moreover have "i div 8 = Suc (j div 8)" "i mod 8 = j mod 8" using j by simp_all
    ultimately show ?thesis
      using Cons.IH[of j] by (auto simp: j bit_xor_iff bit_push_bit_iff bit_ucast_iff)
  qed
qed simp

lemma run_word_inj:
  assumes "length bs = length cs" "length bs \<le> 4" "run_word bs = run_word cs"
  shows "bs = cs"
proof (rule nth_equalityI)
  fix k assume k: "k < length bs"
  show "bs ! k = cs ! k"
  proof (rule bit_word_eqI)
    fix j assume "j < LENGTH(8)"
    then have j: "j < 8" by simp
    have "bit (run_word bs) (8 * k + j) = bit (run_word cs) (8 * k + j)" using assms(3) by simp
    with j k assms(1,2) show "bit (bs ! k) j = bit (cs ! k) j"
      by (auto simp: bit_run_word)
  qed
qed (rule assms(1))

text \<open>Shifting a value with zero low bits does not involve the polynomial.\<close>

lemma crc32c_bits_push:
  assumes "\<And>i. bit z i \<Longrightarrow> i + n < 32"
  shows "(crc32c_bit ^^ n) (push_bit n z) = z"
  using assms
proof (induction n)
  case (Suc n)
  have "\<not> bit (push_bit (Suc n) z) 0" by (simp add: bit_push_bit_iff del: push_bit_Suc)
  then have low: "push_bit (Suc n) z AND 1 = 0"
    by (simp add: and_one_eq bit_0 mod_2_eq_odd del: push_bit_Suc)
  have "drop_bit 1 (push_bit (Suc n) z) = push_bit n z"
  proof (rule bit_word_eqI)
    fix i assume "i < LENGTH(32)"
    then show "bit (drop_bit 1 (push_bit (Suc n) z)) i = bit (push_bit n z) i"
      using Suc.prems[of "i - n"] by (auto simp: bit_drop_bit_eq bit_push_bit_iff simp del: push_bit_Suc)
  qed
  with low have "crc32c_bit (push_bit (Suc n) z) = push_bit n z" by (simp add: crc32c_bit_def)
  moreover have "(crc32c_bit ^^ n) (push_bit n z) = z"
    using Suc.prems by (intro Suc.IH) fastforce
  ultimately show ?case by (simp add: funpow_swap1 del: push_bit_Suc)
qed simp

lemma foldl_crc_run:
  "length bs \<le> 4 \<Longrightarrow>
     foldl crc32c_byte s bs = (crc32c_bit ^^ (8 * length bs)) (s XOR run_word bs)"
proof (induction bs arbitrary: s)
  case (Cons b bs)
  have "(crc32c_bit ^^ 8) (push_bit 8 (run_word bs)) = run_word bs"
    using Cons.prems by (intro crc32c_bits_push) (auto simp: bit_run_word)
  then have "(crc32c_bit ^^ 8) (s XOR ucast b) XOR run_word bs =
      (crc32c_bit ^^ 8) ((s XOR ucast b) XOR push_bit 8 (run_word bs))"
    by (simp only: crc32c_bits_xor)
  also have "(s XOR ucast b) XOR push_bit 8 (run_word bs) = s XOR run_word (b # bs)"
    by (simp only: run_word.simps xor.assoc)
  finally have "(crc32c_bit ^^ 8) (s XOR ucast b) XOR run_word bs =
      (crc32c_bit ^^ 8) (s XOR run_word (b # bs))" .
  moreover have "foldl crc32c_byte s (b # bs) =
      (crc32c_bit ^^ (8 * length bs)) ((crc32c_bit ^^ 8) (s XOR ucast b) XOR run_word bs)"
    using Cons.prems by (simp only: foldl_Cons crc32c_byte_def length_Cons Cons.IH)
  moreover have "8 * length (b # bs) = 8 * length bs + 8" by simp
  ultimately show ?case by (simp only: funpow_add comp_apply)
qed simp

lemma crc32c_run_inj:
  assumes "length p = length q" "length p \<le> 4"
  shows "crc32c (a @ p @ c) = crc32c (a @ q @ c) \<longleftrightarrow> p = q"
proof -
  have q: "length q \<le> 4" using assms by simp
  have "crc32c (a @ p @ c) = crc32c (a @ q @ c) \<longleftrightarrow>
      foldl crc32c_byte (foldl crc32c_byte 0xFFFFFFFF a) p =
      foldl crc32c_byte (foldl crc32c_byte 0xFFFFFFFF a) q"
    by (simp add: crc32c_def xor_cancel foldl_crc_inj_state)
  also have "\<dots> \<longleftrightarrow> run_word p = run_word q"
    by (simp add: foldl_crc_run[OF assms(2)] foldl_crc_run[OF q] assms(1) crc32c_bits_inj)
      (metis xor.commute xor_cancel)
  finally show ?thesis using run_word_inj[OF assms] by blast
qed

end
