(* ===== verification/Checksum.thy ===== *)
theory Checksum
  imports ByteCodec Crc32c
begin

unbundle bit_operations_syntax

text \<open>
  Checksummed byte strings: every persistent structure of the program ends in the CRC32C of
  the bytes before it.  Running the CRC over message and checksum leaves a constant residue,
  so two checksummed strings of one length never differ in a burst of at most four bytes.
  A length field stored together with its complement four bytes later is protected against
  such bursts as well, which is what lets a reader trust the length before it can check the
  checksum.
\<close>

definition checksummed :: "byte list \<Rightarrow> byte list" where
  "checksummed bs = bs @ u32_bytes (crc32c bs)"

text \<open>Two strings of one length that agree outside a window of four bytes, and differ in it.\<close>

definition burst :: "byte list \<Rightarrow> byte list \<Rightarrow> bool" where
  "burst xs ys \<longleftrightarrow>
     length xs = length ys \<and> xs \<noteq> ys \<and>
     (\<exists>j. \<forall>i<length xs. i < j \<or> j + 4 \<le> i \<longrightarrow> xs ! i = ys ! i)"

lemma burst_split:
  assumes "burst xs ys"
  shows "\<exists>a p q c. xs = a @ p @ c \<and> ys = a @ q @ c \<and> length p = length q \<and> length p \<le> 4 \<and> p \<noteq> q"
proof -
  obtain j where len: "length xs = length ys" and ne: "xs \<noteq> ys"
    and eq: "\<And>i. i < length xs \<Longrightarrow> i < j \<or> j + 4 \<le> i \<Longrightarrow> xs ! i = ys ! i"
    using assms unfolding burst_def by blast
  have a: "take j xs = take j ys"
    using eq len by (intro nth_equalityI) auto
  have c: "drop (j + 4) xs = drop (j + 4) ys"
    using eq len by (intro nth_equalityI) auto
  have split: "zs = take j zs @ take 4 (drop j zs) @ drop (j + 4) zs" for zs :: "byte list"
    by (metis add.commute append_take_drop_id drop_drop)
  have "take 4 (drop j xs) \<noteq> take 4 (drop j ys)"
    using ne split[of xs] split[of ys] a c by metis
  then show ?thesis
    using split[of xs] split[of ys] a c len
    by (intro exI[of _ "take j xs"] exI[of _ "take 4 (drop j xs)"] exI[of _ "take 4 (drop j ys)"]
        exI[of _ "drop (j + 4) xs"]) simp
qed

lemma burst_far_apart:
  assumes "burst xs ys" "i + 4 < length xs"
  shows "xs ! i = ys ! i \<or> xs ! (i + 4) = ys ! (i + 4)"
proof -
  obtain j where "\<And>i. i < length xs \<Longrightarrow> i < j \<or> j + 4 \<le> i \<Longrightarrow> xs ! i = ys ! i"
    using assms(1) unfolding burst_def by blast
  with assms(2) show ?thesis by (cases "i < j") auto
qed

section \<open>The residue\<close>

lemma run_word_u32_bytes: "run_word (u32_bytes c) = c"
proof (rule bit_word_eqI)
  fix i assume i: "i < LENGTH(32)"
  then have "i div 8 < 4" "i mod 8 < 8" by auto
  then have "bit (u32_bytes c ! (i div 8)) (i mod 8) = bit (ucast c :: u64) (8 * (i div 8) + i mod 8)"
    unfolding u32_bytes_def by (rule bit_le_bytes)
  with i show "bit (run_word (u32_bytes c)) i = bit c i"
    by (auto simp: bit_run_word bit_ucast_iff)
qed

lemma crc_residue: "foldl crc32c_byte 0xFFFFFFFF (checksummed bs) = (crc32c_bit ^^ 32) 0xFFFFFFFF"
proof -
  let ?s = "foldl crc32c_byte 0xFFFFFFFF bs"
  have "foldl crc32c_byte ?s (u32_bytes (crc32c bs)) = (crc32c_bit ^^ 32) (?s XOR crc32c bs)"
    by (subst foldl_crc_run) (simp_all add: run_word_u32_bytes)
  also have "?s XOR crc32c bs = 0xFFFFFFFF"
    by (simp only: crc32c_def xor.assoc[symmetric] xor_self_eq xor.left_neutral)
  finally show ?thesis by (simp add: checksummed_def)
qed

lemma burst_not_checksummed: "\<not> burst (checksummed xs) (checksummed ys)"
proof
  assume "burst (checksummed xs) (checksummed ys)"
  then obtain a p q c where s: "checksummed xs = a @ p @ c" "checksummed ys = a @ q @ c"
    and pq: "length p = length q" "length p \<le> 4" "p \<noteq> q"
    using burst_split by blast
  have "crc32c (a @ p @ c) = crc32c (a @ q @ c)"
    using crc_residue[of xs] crc_residue[of ys] by (simp add: crc32c_def s)
  with crc32c_run_inj[OF pq(1,2)] pq(3) show False by blast
qed

section \<open>Complemented lengths\<close>

lemma nth_u32_bytes_compl: "i < 4 \<Longrightarrow> u32_bytes (n XOR 0xFFFFFFFF) ! i = NOT (u32_bytes n ! i)"
proof (rule bit_word_eqI)
  fix j assume i: "i < 4" and "j < LENGTH(8)"
  then have j: "j < 8" by simp
  have m: "(0xFFFFFFFF :: u32) = mask 32" by (simp add: mask_eq_exp_minus_1)
  from i j show "bit (u32_bytes (n XOR 0xFFFFFFFF) ! i) j = bit (NOT (u32_bytes n ! i)) j"
    by (auto simp: u32_bytes_def bit_le_bytes bit_ucast_iff bit_not_iff bit_xor_iff m bit_mask_iff)
qed

lemma u32_bytes_inj: "u32_bytes a = u32_bytes b \<longleftrightarrow> a = b"
  by (metis run_word_u32_bytes)

lemma burst_length_field:
  assumes "burst xs ys"
    and xs: "xs = a @ u32_bytes n @ u32_bytes (n XOR 0xFFFFFFFF) @ c"
    and ys: "ys = a' @ u32_bytes m @ u32_bytes (m XOR 0xFFFFFFFF) @ c'"
    and len: "length a = length a'"
  shows "n = m"
proof -
  have "u32_bytes n ! i = u32_bytes m ! i" if i: "i < 4" for i
  proof -
    have "length a + i + 4 < length xs" using i by (simp add: xs)
    from burst_far_apart[OF assms(1) this]
    have "u32_bytes n ! i = u32_bytes m ! i \<or>
        u32_bytes (n XOR 0xFFFFFFFF) ! i = u32_bytes (m XOR 0xFFFFFFFF) ! i"
      using i len by (auto simp: xs ys nth_append)
    then show ?thesis using i by (auto simp: nth_u32_bytes_compl)
  qed
  then have "u32_bytes n = u32_bytes m" by (intro nth_equalityI) auto
  then show ?thesis by (simp add: u32_bytes_inj)
qed

lemma burst_append: "burst xs ys \<Longrightarrow> burst (xs @ zs) (ys @ zs)"
  unfolding burst_def by (metis (no_types, lifting) append_same_eq length_append nth_append)

section \<open>Checksum fields that match\<close>

lemma checksum_field_match:
  assumes "length bs = n + 4" "read_u32 (make_reader (take 4 (drop n bs))) = Some (crc32c (take n bs), r)"
  shows "bs = checksummed (take n bs)"
proof -
  obtain ys where ys: "take 4 (drop n bs) = u32_bytes (crc32c (take n bs)) @ ys"
    using read_int_SomeD(3)[of "[]" "take 4 (drop n bs)"] assms(2) by (auto simp: codec_simps)
  from arg_cong[OF this, of length] assms(1) have "ys = []" by simp
  with ys assms(1) have "drop n bs = u32_bytes (crc32c (take n bs))" by simp
  then show ?thesis by (metis append_take_drop_id checksummed_def)
qed

lemma read_u32_exact: "read_u32 (make_reader (u32_bytes c)) = Some (c, reader_at (u32_bytes c) [])"
  using read_int_at(3)[of "[]" c "[]"] by (simp add: codec_simps)

lemma read_checksum_exists:
  "length bs = n + 4 \<Longrightarrow> \<exists>c r. read_u32 (make_reader (take 4 (drop n bs))) = Some (c, r)"
  by (auto simp: make_reader_at read_u32_def read_unsigned_at)

end
