(* ===== verification/FramedCodec.thy ===== *)
theory FramedCodec
  imports Prelude
begin

text \<open>
  What the readers of framed files rely on.  A framed codec turns a value into a
  self-delimiting run of bytes: decoding an encoding followed by anything gives the value
  back, a proper prefix of an encoding is recognised as incomplete, and a verdict that is
  not \<open>incomplete\<close> does not depend on the bytes after the frame.  The locale
  \<open>framed_codec\<close> states these laws; its lemmas give unique decodability and what a
  sequential scan sees in a log with a torn tail.  WAL records and segment blocks are its
  interpretations.
\<close>

datatype ('a, 'e) frame = Frame 'a nat | Incomplete | Corrupt 'e

datatype 'e scan_end = Clean | Torn nat | Damaged 'e

text \<open>The sequential scan of a whole file: the specification of log replay.\<close>

function scan_frames ::
  "(byte list \<Rightarrow> ('a, 'e) frame) \<Rightarrow> byte list \<Rightarrow> 'a list \<times> nat \<times> 'e scan_end" where
  "scan_frames dec bytes =
     (if bytes = [] then ([], 0, Clean)
      else case dec bytes of
             Frame x n \<Rightarrow>
               (case scan_frames dec (drop (max 1 n) bytes) of
                  (xs, m, e) \<Rightarrow> (x # xs, n + m, e))
           | Incomplete \<Rightarrow> ([], 0, Torn (length bytes))
           | Corrupt e \<Rightarrow> ([], 0, Damaged e))"
  by pat_completeness auto
termination
  by (relation "measure (\<lambda>(dec, bytes). length bytes)") auto

declare scan_frames.simps [simp del]

lemma scan_frames_Nil [simp]: "scan_frames dec [] = ([], 0, Clean)"
  by (simp add: scan_frames.simps)

locale framed_codec =
  fixes enc :: "'a \<Rightarrow> byte list"
    and dec :: "byte list \<Rightarrow> ('a, 'e) frame"
    and ok :: "'a \<Rightarrow> bool"
  assumes dec_enc: "ok x \<Longrightarrow> dec (enc x @ rest) = Frame x (length (enc x))"
    and dec_prefix: "ok x \<Longrightarrow> n < length (enc x) \<Longrightarrow> dec (take n (enc x)) = Incomplete"
    and dec_append: "dec bytes \<noteq> Incomplete \<Longrightarrow> dec (bytes @ later) = dec bytes"
    and dec_consumed: "dec bytes = Frame x n \<Longrightarrow> 0 < n \<and> n \<le> length bytes"
begin

lemma enc_nonempty: "ok x \<Longrightarrow> 0 < length (enc x)"
  using dec_consumed[OF dec_enc[of x "[]"]] by simp

lemma enc_prefix_free:
  assumes "ok x" "ok y" "enc x @ xs = enc y @ ys"
  shows "x = y \<and> xs = ys"
proof -
  have "Frame x (length (enc x)) = Frame y (length (enc y))"
    using dec_enc[OF assms(1), of xs] dec_enc[OF assms(2), of ys] assms(3) by simp
  with assms(3) show ?thesis by simp
qed

lemma log_unique:
  assumes "list_all ok xs" "list_all ok ys" "concat (map enc xs) = concat (map enc ys)"
  shows "xs = ys"
  using assms
proof (induction xs arbitrary: ys)
  case Nil
  then show ?case using enc_nonempty by (cases ys) auto
next
  case (Cons x xs)
  then obtain y ys' where ys: "ys = y # ys'" using enc_nonempty by (cases ys) force+
  with Cons.prems have "x = y \<and> concat (map enc xs) = concat (map enc ys')"
    by (intro enc_prefix_free) auto
  with Cons.IH[of ys'] Cons.prems ys show ?case by simp
qed

lemma scan_frame:
  assumes "ok x"
  shows "scan_frames dec (enc x @ rest) =
     (case scan_frames dec rest of (xs, m, e) \<Rightarrow> (x # xs, length (enc x) + m, e))"
proof -
  have "max 1 (length (enc x)) = length (enc x)" "enc x @ rest \<noteq> []"
    using enc_nonempty[OF assms] by (simp_all add: Suc_le_eq max_absorb2)
  then show ?thesis
    by (simp add: scan_frames.simps[of dec "enc x @ rest"] dec_enc[OF assms])
qed

lemma scan_log:
  assumes "list_all ok xs"
  shows "scan_frames dec (concat (map enc xs) @ rest) =
     (case scan_frames dec rest of (ys, m, e) \<Rightarrow> (xs @ ys, length (concat (map enc xs)) + m, e))"
  using assms by (induction xs) (auto simp: scan_frame split: prod.splits)

lemma scan_torn:
  assumes "list_all ok xs" "ok y" "n < length (enc y)"
  shows "scan_frames dec (concat (map enc xs) @ take n (enc y)) =
     (xs, length (concat (map enc xs)), if n = 0 then Clean else Torn n)"
proof -
  have "scan_frames dec (take n (enc y)) = ([], 0, if n = 0 then Clean else Torn n)"
    using dec_prefix[OF assms(2,3)] assms(3) by (subst scan_frames.simps) auto
  then show ?thesis using scan_log[OF assms(1)] by simp
qed

lemma scan_clean: "list_all ok xs \<Longrightarrow>
    scan_frames dec (concat (map enc xs)) = (xs, length (concat (map enc xs)), Clean)"
  using scan_log[of xs "[]"] by simp

lemma scan_damaged:
  assumes "list_all ok xs" "dec bad = Corrupt e" "bad \<noteq> []"
  shows "scan_frames dec (concat (map enc xs) @ bad @ rest) =
     (xs, length (concat (map enc xs)), Damaged e)"
proof -
  have "dec (bad @ rest) = Corrupt e"
    using dec_append[of bad rest] assms(2) by simp
  with assms(3) have "scan_frames dec (bad @ rest) = ([], 0, Damaged e)"
    by (subst scan_frames.simps) simp
  then show ?thesis using scan_log[OF assms(1)] by simp
qed

lemma scan_consumed:
  "scan_frames dec bytes = (xs, n, e) \<Longrightarrow>
     n \<le> length bytes \<and> (e = Clean \<longrightarrow> n = length bytes) \<and>
     (\<forall>t. e = Torn t \<longrightarrow> n + t = length bytes \<and> 0 < t)"
proof (induction "length bytes" arbitrary: bytes xs n e rule: less_induct)
  case less
  show ?case
  proof (cases "bytes = []")
    case True
    with less.prems show ?thesis by auto
  next
    case False
    show ?thesis
    proof (cases "dec bytes")
      case (Frame x k)
      note k = dec_consumed[OF Frame]
      obtain ys m e' where rec: "scan_frames dec (drop k bytes) = (ys, m, e')"
        by (cases "scan_frames dec (drop k bytes)") auto
      have "n = k + m" "e = e'"
        using less.prems False Frame rec k by (auto simp: scan_frames.simps[of dec bytes] max_def)
      with less.hyps[OF _ rec] k False show ?thesis by auto
    qed (use less.prems False in \<open>auto simp: scan_frames.simps[of dec bytes]\<close>)
  qed
qed

end

end
