(* ===== verification/WalRecord.thy ===== *)
theory WalRecord
  imports SeriesCodec Checksum FramedCodec
begin

unbundle bit_operations_syntax

text \<open>
  The write-ahead-log record codec of \<^verbatim>\<open>src/internal/wal_record.hpp\<close> and
  \<^verbatim>\<open>src/wal_record.cpp\<close>.  The encoder may throw on a string, tag list or payload that is too
  large; the decoder returns a result record whose error tells a prefix of a record from a
  corrupt one.
\<close>

section \<open>Data\<close>

datatype WalPutRecord = WalPutRecord (wal_series: SeriesKey) (wal_sample: Sample)

record WalDecodeResult =
  wal_record :: "WalPutRecord option"
  wal_error :: WalDecodeError
  wal_bytes_consumed :: nat

definition wal_success :: "WalDecodeResult \<Rightarrow> bool" where
  "wal_success d \<longleftrightarrow> wal_record d \<noteq> None \<and> wal_error d = wal_none"

definition wal_magic :: u32 where
  "wal_magic = 0x4C575343"

definition wal_version :: byte where
  "wal_version = 1"

definition wal_record_type_put :: byte where
  "wal_record_type_put = 1"

definition max_payload_size :: nat where
  "max_payload_size = 16 * 1024 * 1024"

definition wal_header_size :: nat where
  "wal_header_size = 14"

definition wal_checksum_size :: nat where
  "wal_checksum_size = 4"

section \<open>Encoder\<close>

definition wal_write_string :: "string \<Rightarrow> ByteWriter \<Rightarrow> ByteWriter result" where
  "wal_write_string v w = put_string ''WAL string is too large'' v w"

definition wal_encode_payload :: "WalPutRecord \<Rightarrow> byte list result" where
  "wal_encode_payload r =
     ebind (wal_write_string (measurement (wal_series r)) empty_writer) (\<lambda>w.
       let ts = tags (wal_series r)
       in if length ts > 0xFFFFFFFF then Inl (LengthError ''too many WAL tags'')
          else ebind (efold (\<lambda>t w. ebind (wal_write_string (tag_key t) w) (wal_write_string (tag_value t)))
                 ts (write_u32 (of_nat (length ts)) w)) (\<lambda>w.
                 let timestamp_bits = nanoseconds_since_epoch (timestamp (wal_sample r));
                     value_bits = sample_value (wal_sample r)
                 in Inr (bw_data (write_u64 value_bits (write_u64 timestamp_bits w)))))"

definition encode_wal_record :: "WalPutRecord \<Rightarrow> byte list result" where
  "encode_wal_record r =
     ebind (wal_encode_payload r) (\<lambda>payload.
       if length payload > max_payload_size then Inl (LengthError ''WAL payload is too large'')
       else let payload_length = of_nat (length payload) :: u32;
                inverted_length = payload_length XOR 0xFFFFFFFF;
                w = write_u32 wal_magic empty_writer;
                w = write_u8 wal_version w;
                w = write_u8 wal_record_type_put w;
                w = write_u32 payload_length w;
                w = write_u32 inverted_length w;
                w = write_bytes payload w;
                checksum = crc32c (bw_data w)
            in Inr (bw_data (write_u32 checksum w)))"

section \<open>Decoder\<close>

definition wal_decode_failure :: "WalDecodeError \<Rightarrow> WalDecodeResult" where
  "wal_decode_failure e = \<lparr>wal_record = None, wal_error = e, wal_bytes_consumed = 0\<rparr>"

definition wal_read_string :: "ByteReader \<Rightarrow> (string \<times> ByteReader) option" where
  "wal_read_string r = get_string r"

definition wal_decode_payload :: "byte list \<Rightarrow> WalPutRecord option" where
  "wal_decode_payload payload =
     do {
       (m, r) \<leftarrow> wal_read_string (make_reader payload);
       (tag_count, r) \<leftarrow> read_u32 r;
       (ts, r) \<leftarrow> get_tags False (unat tag_count) [] r;
       (timestamp_bits, r) \<leftarrow> read_u64 r;
       (value_bits, r) \<leftarrow> read_u64 r;
       if remaining r \<noteq> 0 then None
       else case make_SeriesKey m ts of
              Inl _ \<Rightarrow> None
            | Inr series \<Rightarrow>
                (case make_Sample (Timestamp timestamp_bits) value_bits of
                   Inl _ \<Rightarrow> None
                 | Inr sample \<Rightarrow> Some (WalPutRecord series sample))
     }"

text \<open>The checks after the five header fields have been read, in the order of the code.\<close>

definition decode_wal_frame ::
  "byte list \<Rightarrow> u32 \<Rightarrow> byte \<Rightarrow> byte \<Rightarrow> u32 \<Rightarrow> u32 \<Rightarrow> WalDecodeResult" where
  "decode_wal_frame bytes magic version record_type payload_length inverted_length =
     (if magic \<noteq> wal_magic then wal_decode_failure wal_invalid_magic
      else if inverted_length \<noteq> payload_length XOR 0xFFFFFFFF
        then wal_decode_failure wal_invalid_length
      else let payload_size = unat payload_length
      in if payload_size > max_payload_size then wal_decode_failure wal_invalid_length
      else let protected_size = wal_header_size + payload_size;
               total_record_size = protected_size + wal_checksum_size
      in if length bytes < total_record_size then wal_decode_failure wal_incomplete_record
      else let protected_bytes = take protected_size bytes;
               checksum_bytes = take wal_checksum_size (drop protected_size bytes)
      in case read_u32 (make_reader checksum_bytes) of
           None \<Rightarrow> wal_decode_failure wal_incomplete_record
         | Some (stored_checksum, _) \<Rightarrow>
             if stored_checksum \<noteq> crc32c protected_bytes then wal_decode_failure wal_checksum_mismatch
             else if version \<noteq> wal_version then wal_decode_failure wal_unsupported_version
             else if record_type \<noteq> wal_record_type_put
               then wal_decode_failure wal_unsupported_record_type
             else case wal_decode_payload (take payload_size (drop wal_header_size bytes)) of
                    None \<Rightarrow> wal_decode_failure wal_invalid_payload
                  | Some r \<Rightarrow> \<lparr>wal_record = Some r, wal_error = wal_none,
                                wal_bytes_consumed = total_record_size\<rparr>)"

definition decode_wal_record :: "byte list \<Rightarrow> WalDecodeResult" where
  "decode_wal_record bytes =
     (if length bytes < wal_header_size then wal_decode_failure wal_incomplete_record
      else case read_u32 (make_reader bytes) of
        None \<Rightarrow> wal_decode_failure wal_incomplete_record
      | Some (magic, r) \<Rightarrow> (case read_u8 r of
        None \<Rightarrow> wal_decode_failure wal_incomplete_record
      | Some (version, r) \<Rightarrow> (case read_u8 r of
        None \<Rightarrow> wal_decode_failure wal_incomplete_record
      | Some (record_type, r) \<Rightarrow> (case read_u32 r of
        None \<Rightarrow> wal_decode_failure wal_incomplete_record
      | Some (payload_length, r) \<Rightarrow> (case read_u32 r of
        None \<Rightarrow> wal_decode_failure wal_incomplete_record
      | Some (inverted_length, r) \<Rightarrow>
          decode_wal_frame bytes magic version record_type payload_length inverted_length)))))"

section \<open>Byte images\<close>

definition wal_payload_bytes :: "WalPutRecord \<Rightarrow> byte list" where
  "wal_payload_bytes r =
     series_bytes (wal_series r) @
     u64_bytes (nanoseconds_since_epoch (timestamp (wal_sample r))) @
     u64_bytes (sample_value (wal_sample r))"

definition wal_header_bytes :: "u32 \<Rightarrow> byte \<Rightarrow> byte \<Rightarrow> u32 \<Rightarrow> u32 \<Rightarrow> byte list" where
  "wal_header_bytes magic version record_type payload_length inverted_length =
     u32_bytes magic @ u8_bytes version @ u8_bytes record_type @ u32_bytes payload_length @ u32_bytes inverted_length"

definition wal_protected_bytes :: "byte list \<Rightarrow> byte list" where
  "wal_protected_bytes payload =
     wal_header_bytes wal_magic wal_version wal_record_type_put (of_nat (length payload))
       (of_nat (length payload) XOR 0xFFFFFFFF) @ payload"

definition wal_frame_bytes :: "byte list \<Rightarrow> byte list" where
  "wal_frame_bytes payload =
     wal_protected_bytes payload @ u32_bytes (crc32c (wal_protected_bytes payload))"

definition record_wf :: "WalPutRecord \<Rightarrow> bool" where
  "record_wf r \<longleftrightarrow> series_wf (wal_series r) \<and> sample_wf (wal_sample r)"

lemmas wal_constants = wal_header_size_def wal_checksum_size_def max_payload_size_def

lemma length_wal_header_bytes [simp, size_simps]: "length (wal_header_bytes a b c d e) = 14"
  by (simp add: wal_header_bytes_def)

lemma length_wal_frame_bytes [simp, size_simps]:
  "length (wal_frame_bytes payload) = 18 + length payload"
  by (simp add: wal_frame_bytes_def wal_protected_bytes_def)

lemma wal_encode_payload_eq:
  "wal_encode_payload r =
     ebind (put_series_key ''WAL string is too large'' ''too many WAL tags'' (wal_series r) empty_writer)
       (\<lambda>w. Inr (bw_data (write_u64 (sample_value (wal_sample r))
              (write_u64 (nanoseconds_since_epoch (timestamp (wal_sample r))) w))))"
proof -
  have "(\<lambda>t w. ebind (wal_write_string (tag_key t) w) (wal_write_string (tag_value t))) =
      put_tag ''WAL string is too large''"
    by (simp add: fun_eq_iff put_tag_def wal_write_string_def[abs_def])
  then show ?thesis
    unfolding wal_encode_payload_def put_series_key_def
    by (simp add: wal_write_string_def put_string_appended Let_def)
qed

lemma wal_encode_payload_bytes:
  "series_fits (wal_series r) \<Longrightarrow> wal_encode_payload r = Inr (wal_payload_bytes r)"
  by (simp add: wal_encode_payload_eq codec_simps wal_payload_bytes_def)

lemma wal_encode_payload_InrD:
  assumes "wal_encode_payload r = Inr payload"
  shows "series_fits (wal_series r) \<and> payload = wal_payload_bytes r"
proof -
  have "series_fits (wal_series r)"
  proof (rule ccontr)
    assume "\<not> ?thesis"
    then obtain m where
      "put_series_key ''WAL string is too large'' ''too many WAL tags'' (wal_series r) empty_writer =
         Inl (LengthError m)"
      using put_series_key_error by blast
    with assms show False by (simp add: wal_encode_payload_eq)
  qed
  with assms wal_encode_payload_bytes show ?thesis by simp
qed

text \<open>What the encoder accepts, and the bytes it then produces.\<close>

definition record_fits :: "WalPutRecord \<Rightarrow> bool" where
  "record_fits r \<longleftrightarrow> length (wal_payload_bytes r) \<le> max_payload_size"

definition wal_record_bytes :: "WalPutRecord \<Rightarrow> byte list" where
  "wal_record_bytes r = wal_frame_bytes (wal_payload_bytes r)"

lemma record_fits_series: "record_fits r \<Longrightarrow> series_fits (wal_series r)"
  by (rule series_fits_if_small) (simp add: record_fits_def wal_payload_bytes_def max_payload_size_def)

lemma encode_wal_record_Inr:
  "encode_wal_record r = Inr bytes \<longleftrightarrow> record_fits r \<and> bytes = wal_record_bytes r"
proof
  assume "encode_wal_record r = Inr bytes"
  then show "record_fits r \<and> bytes = wal_record_bytes r"
    by (auto simp: encode_wal_record_def ebind_eq_Inr record_fits_def wal_record_bytes_def
        wal_frame_bytes_def wal_protected_bytes_def wal_header_bytes_def codec_simps Let_def
        split: if_splits dest!: wal_encode_payload_InrD)
next
  assume a: "record_fits r \<and> bytes = wal_record_bytes r"
  then have "wal_encode_payload r = Inr (wal_payload_bytes r)"
    by (simp add: wal_encode_payload_bytes record_fits_series)
  with a show "encode_wal_record r = Inr bytes"
    by (simp add: encode_wal_record_def record_fits_def wal_record_bytes_def
        wal_frame_bytes_def wal_protected_bytes_def wal_header_bytes_def codec_simps Let_def)
qed

lemma encode_wal_record_error:
  "\<not> record_fits r \<Longrightarrow> \<exists>msg. encode_wal_record r = Inl (LengthError msg)"
proof -
  assume nf: "\<not> record_fits r"
  show ?thesis
  proof (cases "series_fits (wal_series r)")
    case True
    with nf show ?thesis
      by (simp add: encode_wal_record_def wal_encode_payload_bytes record_fits_def)
  next
    case False
    then obtain m where
      "put_series_key ''WAL string is too large'' ''too many WAL tags'' (wal_series r) empty_writer =
         Inl (LengthError m)"
      using put_series_key_error by blast
    then show ?thesis by (simp add: encode_wal_record_def wal_encode_payload_eq)
  qed
qed

section \<open>Decoding\<close>

lemma wal_header_exists:
  assumes "14 \<le> length bytes"
  shows "\<exists>magic version record_type size inverted body.
     bytes = wal_header_bytes magic version record_type size inverted @ body"
proof -
  obtain n where n: "length bytes = 14 + n" using assms le_Suc_ex by blast
  obtain m y1 where 1: "bytes = u32_bytes m @ y1" "length y1 = 10 + n"
    using split_int(3)[of bytes "10 + n"] n by auto
  obtain v y2 where 2: "y1 = u8_bytes v @ y2" "length y2 = 9 + n"
    using split_int(1)[of y1 "9 + n"] 1(2) by auto
  obtain t y3 where 3: "y2 = u8_bytes t @ y3" "length y3 = 8 + n"
    using split_int(1)[of y2 "8 + n"] 2(2) by auto
  obtain s y4 where 4: "y3 = u32_bytes s @ y4" "length y4 = 4 + n"
    using split_int(3)[of y3 "4 + n"] 3(2) by auto
  obtain i y5 where 5: "y4 = u32_bytes i @ y5" "length y5 = n"
    using split_int(3)[of y4 "n"] 4(2) by auto
  have "bytes = wal_header_bytes m v t s i @ y5"
    by (simp add: wal_header_bytes_def 1(1) 2(1) 3(1) 4(1) 5(1))
  then show ?thesis by blast
qed

lemma decode_wal_record_header:
  "decode_wal_record (wal_header_bytes magic version record_type len inverted @ body) =
     decode_wal_frame (wal_header_bytes magic version record_type len inverted @ body)
       magic version record_type len inverted"
  by (simp add: decode_wal_record_def wal_header_bytes_def wal_header_size_def codec_simps)

text \<open>
  The decoder looks at no byte after the record: once a result is not \<open>incomplete\<close>, appending
  bytes does not change it.
\<close>

lemma decode_wal_frame_append:
  assumes "wal_error (decode_wal_frame bytes magic version record_type len inverted) \<noteq>
    wal_incomplete_record"
  shows "decode_wal_frame (bytes @ later) magic version record_type len inverted =
         decode_wal_frame bytes magic version record_type len inverted"
proof (cases "length bytes < 14 + unat len + 4")
  case True
  have "decode_wal_frame bytes magic version record_type len inverted =
      wal_decode_failure wal_incomplete_record"
    if "magic = wal_magic" "inverted = len XOR 0xFFFFFFFF" "unat len \<le> max_payload_size"
    using that True
    by (simp add: decode_wal_frame_def Let_def wal_header_size_def wal_checksum_size_def)
  with assms have "magic \<noteq> wal_magic \<or> inverted \<noteq> len XOR 0xFFFFFFFF \<or> unat len > max_payload_size"
    by (fastforce simp: wal_decode_failure_def)
  then show ?thesis by (auto simp: decode_wal_frame_def Let_def)
next
  case False
  then have "take (14 + unat len) (bytes @ later) = take (14 + unat len) bytes"
    "take 4 (drop (14 + unat len) (bytes @ later)) = take 4 (drop (14 + unat len) bytes)"
    "take (unat len) (drop 14 (bytes @ later)) = take (unat len) (drop 14 bytes)"
    "\<not> length (bytes @ later) < 14 + unat len + 4"
    by simp_all
  with False show ?thesis
    unfolding decode_wal_frame_def Let_def wal_header_size_def wal_checksum_size_def
    by (simp only: if_False)
qed

lemma decode_wal_record_append:
  assumes "wal_error (decode_wal_record bytes) \<noteq> wal_incomplete_record"
  shows "decode_wal_record (bytes @ later) = decode_wal_record bytes"
proof -
  have "14 \<le> length bytes"
    using assms by (auto simp: decode_wal_record_def wal_decode_failure_def wal_header_size_def
        split: if_splits)
  then obtain m v t s i body where b: "bytes = wal_header_bytes m v t s i @ body"
    using wal_header_exists by blast
  have "decode_wal_record bytes = decode_wal_frame bytes m v t s i"
    using decode_wal_record_header by (simp add: b)
  moreover have "decode_wal_record (bytes @ later) = decode_wal_frame (bytes @ later) m v t s i"
    using decode_wal_record_header[of m v t s i "body @ later"] by (simp add: b)
  ultimately show ?thesis
    using decode_wal_frame_append assms by simp
qed

lemma decode_wal_record_consumed:
  assumes "wal_success (decode_wal_record bytes)"
  shows "0 < wal_bytes_consumed (decode_wal_record bytes) \<and>
         wal_bytes_consumed (decode_wal_record bytes) \<le> length bytes"
proof -
  have frame: "0 < wal_bytes_consumed (decode_wal_frame bytes m v t s i) \<and>
      wal_bytes_consumed (decode_wal_frame bytes m v t s i) \<le> length bytes"
    if "wal_success (decode_wal_frame bytes m v t s i)" for m v t s i
    using that
    by (simp add: decode_wal_frame_def Let_def wal_success_def wal_decode_failure_def wal_constants
        split: if_splits option.splits prod.splits)
  show ?thesis
    using assms frame
    by (auto simp: decode_wal_record_def wal_success_def wal_decode_failure_def split: if_splits option.splits)
qed

lemma decode_wal_record_error_None:
  "wal_error (decode_wal_record bytes) \<noteq> wal_none \<longleftrightarrow> \<not> wal_success (decode_wal_record bytes)"
  by (auto simp: decode_wal_record_def decode_wal_frame_def Let_def wal_success_def
      wal_decode_failure_def split: if_splits option.splits)

section \<open>Round trip\<close>

lemma wal_decode_payload_bytes:
  assumes "record_wf r" "series_fits (wal_series r)"
  shows "wal_decode_payload (wal_payload_bytes r) = Some r"
proof -
  let ?k = "wal_series r"
  have fits: "string_fits (measurement ?k)" "length (tags ?k) \<le> 0xFFFFFFFF" "list_all tag_fits (tags ?k)"
    using assms(2) by (auto simp: series_fits_def)
  have wf: "list_all tag_wf (tags ?k)" "isfinite (sample_value (wal_sample r))"
    using assms(1) by (auto simp: record_wf_def series_wf_def sample_wf_def)
  have tags: "get_tags False (length (tags ?k)) [] (reader_at pre (concat (map tag_bytes (tags ?k)) @ ys)) =
      Some (tags ?k, reader_at (pre @ concat (map tag_bytes (tags ?k))) ys)" for pre ys
    using get_tags_at[OF fits(3) wf(1), of False "[]"] by simp
  show ?thesis
    using assms(1) fits wf read_int_at(4)[of _ "sample_value (wal_sample r)" "[]"]
    by (simp add: wal_decode_payload_def wal_read_string_def wal_payload_bytes_def series_bytes_def
        codec_simps unat_of_nat_u32 tags record_wf_def)
qed

lemma decode_wal_frame_bytes:
  assumes "length payload \<le> max_payload_size"
  shows "decode_wal_record (wal_frame_bytes payload @ rest) =
     (case wal_decode_payload payload of
        None \<Rightarrow> wal_decode_failure wal_invalid_payload
      | Some r \<Rightarrow> \<lparr>wal_record = Some r, wal_error = wal_none,
                    wal_bytes_consumed = 18 + length payload\<rparr>)"
proof -
  have len: "unat (of_nat (length payload) :: u32) = length payload"
    using assms by (simp add: unat_of_nat_u32 max_payload_size_def)
  have chk: "read_u32 (make_reader (u32_bytes c)) = Some (c, reader_at (u32_bytes c) [])" for c
    using read_int_at(3)[of "[]" c "[]"] by (simp add: codec_simps)
  show ?thesis
    using assms
    unfolding wal_frame_bytes_def wal_protected_bytes_def append_assoc decode_wal_record_header
    by (simp add: decode_wal_frame_def Let_def len wal_constants chk split: option.split)
qed

lemma decode_wal_record_bytes:
  assumes "record_wf r" "record_fits r"
  shows "decode_wal_record (wal_record_bytes r @ rest) =
     \<lparr>wal_record = Some r, wal_error = wal_none,
      wal_bytes_consumed = length (wal_record_bytes r)\<rparr>"
  using assms decode_wal_frame_bytes[of "wal_payload_bytes r" rest]
  by (simp add: record_fits_def wal_record_bytes_def wal_decode_payload_bytes
      record_fits_series[unfolded record_fits_def])

lemma decode_wal_record_prefix:
  assumes "record_fits r" "n < length (wal_record_bytes r)"
  shows "decode_wal_record (take n (wal_record_bytes r)) = wal_decode_failure wal_incomplete_record"
proof (cases "n < 14")
  case True
  then show ?thesis by (simp add: decode_wal_record_def wal_header_size_def)
next
  case False
  let ?p = "wal_payload_bytes r"
  let ?h = "wal_header_bytes wal_magic wal_version wal_record_type_put (of_nat (length ?p))
       (of_nat (length ?p) XOR 0xFFFFFFFF)"
  have len: "unat (of_nat (length ?p) :: u32) = length ?p"
    using assms(1) by (simp add: unat_of_nat_u32 record_fits_def max_payload_size_def)
  have "\<exists>body. take n (wal_record_bytes r) = ?h @ body"
    using False by (simp add: wal_record_bytes_def wal_frame_bytes_def wal_protected_bytes_def)
  then obtain body where b: "take n (wal_record_bytes r) = ?h @ body" by blast
  have "length (?h @ body) < 18 + length ?p"
    using assms(2) b[symmetric] by (simp add: wal_record_bytes_def)
  then show ?thesis
    using assms(1) unfolding b decode_wal_record_header
    by (simp add: decode_wal_frame_def Let_def len wal_constants record_fits_def)
qed

section \<open>The codec is framed\<close>

text \<open>The decoder's verdict as the interface \<open>framed_codec\<close> sees it.\<close>

definition wal_frame :: "byte list \<Rightarrow> (WalPutRecord, WalDecodeError) frame" where
  "wal_frame bytes =
     (let d = decode_wal_record bytes
      in if wal_success d then Frame (the (wal_record d)) (wal_bytes_consumed d)
         else if wal_error d = wal_incomplete_record then Incomplete
         else Corrupt (wal_error d))"

definition record_ok :: "WalPutRecord \<Rightarrow> bool" where
  "record_ok r \<longleftrightarrow> record_wf r \<and> record_fits r"

interpretation wal_log: framed_codec wal_record_bytes wal_frame record_ok
proof
  fix r rest assume "record_ok r"
  then show "wal_frame (wal_record_bytes r @ rest) = Frame r (length (wal_record_bytes r))"
    by (simp add: wal_frame_def record_ok_def decode_wal_record_bytes wal_success_def)
next
  fix r n assume "record_ok r" "n < length (wal_record_bytes r)"
  then show "wal_frame (take n (wal_record_bytes r)) = Incomplete"
    by (simp add: wal_frame_def record_ok_def decode_wal_record_prefix wal_success_def
        wal_decode_failure_def)
next
  fix bytes later assume a: "wal_frame bytes \<noteq> Incomplete"
  have "wal_error (decode_wal_record bytes) \<noteq> wal_incomplete_record"
  proof
    assume "wal_error (decode_wal_record bytes) = wal_incomplete_record"
    with a show False by (simp add: wal_frame_def wal_success_def Let_def)
  qed
  then show "wal_frame (bytes @ later) = wal_frame bytes"
    by (simp add: wal_frame_def decode_wal_record_append)
next
  fix bytes r n assume "wal_frame bytes = Frame r n"
  then show "0 < n \<and> n \<le> length bytes"
    using decode_wal_record_consumed[of bytes] by (auto simp: wal_frame_def Let_def split: if_splits)
qed

lemma wal_decode_payload_wf: "wal_decode_payload p = Some r \<Longrightarrow> record_wf r"
proof -
  assume "wal_decode_payload p = Some r"
  then obtain m r1 n r2 ts r3 tb r4 vb r5 k s where
      m: "get_string (make_reader p) = Some (m, r1)" and n: "read_u32 r1 = Some (n, r2)"
      and ts: "get_tags False (unat n) [] r2 = Some (ts, r3)"
      and k: "make_SeriesKey m ts = Inr k" and s: "make_Sample (Timestamp tb) vb = Inr s"
      and r: "r = WalPutRecord k s"
    by (auto simp: wal_decode_payload_def wal_read_string_def bind_eq_Some_conv
        split: if_splits sum.splits)
  obtain y1 where "r1 = reader_at (string_bytes m) y1"
    using get_string_SomeD[of "[]" p m r1] m by (auto simp: codec_simps)
  with n obtain pre y2 where "r2 = reader_at pre y2" using read_int_SomeD(3) by blast
  with ts have "list_all tag_wf ts" using get_tags_SomeD by fastforce
  with k s r show ?thesis
    by (auto simp: record_wf_def make_Sample_Inr sample_wf_def intro: make_SeriesKey_wf)
qed

lemma decode_wal_record_payload:
  "wal_record (decode_wal_record bytes) = Some r \<Longrightarrow> \<exists>p. wal_decode_payload p = Some r"
  by (auto simp: decode_wal_record_def decode_wal_frame_def Let_def wal_decode_failure_def
      split: if_splits option.splits) (rule exI, assumption)

lemma decode_wal_record_wf:
  "wal_record (decode_wal_record bytes) = Some r \<Longrightarrow> record_wf r"
  using decode_wal_record_payload wal_decode_payload_wf by blast

section \<open>Corruption\<close>

text \<open>
  Damage confined to four consecutive bytes of a record is seen as damage: it can turn the
  record neither into another record nor into something that looks like a torn tail.
\<close>

lemma wal_record_bytes_checksummed:
  "wal_record_bytes r = checksummed (wal_protected_bytes (wal_payload_bytes r))"
  by (simp add: wal_record_bytes_def wal_frame_bytes_def checksummed_def)

lemma burst_wal_length:
  assumes fits: "record_fits r" and b: "burst (wal_record_bytes r) bad"
    and bad: "bad = wal_header_bytes m v t s (s XOR 0xFFFFFFFF) @ body"
  shows "unat s = length (wal_payload_bytes r)"
proof -
  let ?n = "of_nat (length (wal_payload_bytes r)) :: u32"
  have "wal_record_bytes r = (u32_bytes wal_magic @ u8_bytes wal_version @ u8_bytes wal_record_type_put) @
      u32_bytes ?n @ u32_bytes (?n XOR 0xFFFFFFFF) @
      wal_payload_bytes r @ u32_bytes (crc32c (wal_protected_bytes (wal_payload_bytes r)))"
    by (simp add: wal_record_bytes_def wal_frame_bytes_def wal_protected_bytes_def wal_header_bytes_def)
  moreover have "bad = (u32_bytes m @ u8_bytes v @ u8_bytes t) @
      u32_bytes s @ u32_bytes (s XOR 0xFFFFFFFF) @ body"
    by (simp add: bad wal_header_bytes_def)
  ultimately have "?n = s" by (rule burst_length_field[OF b]) simp
  with fits show ?thesis
    by (auto simp: unat_of_nat_u32 record_fits_def max_payload_size_def)
qed

lemma wal_burst_corrupt:
  assumes fits: "record_fits r" and b: "burst (wal_record_bytes r) bad"
  shows "\<exists>e. wal_frame bad = Corrupt e"
proof -
  have lb: "length bad = 18 + length (wal_payload_bytes r)"
    using b by (simp add: burst_def wal_record_bytes_def)
  then obtain m v t s i body where bad: "bad = wal_header_bytes m v t s i @ body"
    using wal_header_exists[of bad] by auto
  have dec: "decode_wal_record bad = decode_wal_frame bad m v t s i"
    by (simp add: bad decode_wal_record_header)
  show ?thesis
  proof (cases "m = wal_magic \<and> i = s XOR 0xFFFFFFFF")
    case False
    then show ?thesis
      by (auto simp: wal_frame_def dec decode_wal_frame_def wal_decode_failure_def wal_success_def Let_def)
  next
    case True
    let ?n = "14 + length (wal_payload_bytes r)"
    have size: "unat s = length (wal_payload_bytes r)"
      using burst_wal_length[OF fits b] bad True by simp
    obtain c cr where c: "read_u32 (make_reader (take 4 (drop ?n bad))) = Some (c, cr)"
      using lb by (auto simp: make_reader_at read_u32_def read_unsigned_at)
    have "c \<noteq> crc32c (take ?n bad)"
    proof
      assume "c = crc32c (take ?n bad)"
      then have "bad = checksummed (take ?n bad)"
        using c lb by (intro checksum_field_match) auto
      with b burst_not_checksummed show False by (metis wal_record_bytes_checksummed)
    qed
    then have "decode_wal_record bad = wal_decode_failure wal_checksum_mismatch"
      using True size c lb fits
      by (simp add: dec decode_wal_frame_def Let_def wal_constants record_fits_def)
    then show ?thesis
      by (simp add: wal_frame_def wal_decode_failure_def wal_success_def)
  qed
qed

end
