(* ===== verification/WalReplay.thy ===== *)
theory WalReplay
  imports WalRecord
begin

text \<open>
  The streaming replay of \<^verbatim>\<open>src/wal_recovery.cpp\<close>: the file is read in 64 KiB chunks into a
  buffer, complete records are handed to the callback in file order, and the loop ends at
  the end of the file, at an incomplete tail or at a corrupt record.  The main result is
  that chunking is invisible: \<open>replay_wal\<close> computes what a scan of the whole file computes.
\<close>

section \<open>The streaming loop\<close>

record WalReplayResult =
  records_replayed :: u64
  valid_bytes :: u64
  incomplete_tail_bytes :: u64

definition had_incomplete_tail :: "WalReplayResult \<Rightarrow> bool" where
  "had_incomplete_tail res \<longleftrightarrow> incomplete_tail_bytes res \<noteq> 0"

definition read_chunk_size :: nat where
  "read_chunk_size = 64 * 1024"

text \<open>
  An open \<^verbatim>\<open>std::ifstream\<close>: the bytes not read yet and, when the device fails, the number of
  reads that still succeed.
\<close>

record ifstream =
  is_rest :: "byte list"
  is_good_reads :: "nat option"

text \<open>
  \<^verbatim>\<open>read_next_chunk\<close>: the new buffer, the stream after the read and whether the read hit the
  end of the file, which \<^verbatim>\<open>istream::read\<close> reports when it gets fewer bytes than asked.
\<close>

definition read_next_chunk ::
  "ifstream \<Rightarrow> byte list \<Rightarrow> (byte list \<times> ifstream \<times> bool) result" where
  "read_next_chunk input buffer =
     (if is_good_reads input = Some 0 then Inl (SystemError ''failed to read WAL'')
      else let chunk = take read_chunk_size (is_rest input)
           in Inr (buffer @ chunk,
                   \<lparr>is_rest = drop read_chunk_size (is_rest input),
                    is_good_reads = map_option (\<lambda>n. n - 1) (is_good_reads input)\<rparr>,
                   length chunk < read_chunk_size))"

definition remove_consumed_prefix :: "byte list \<Rightarrow> nat \<Rightarrow> byte list" where
  "remove_consumed_prefix buffer consumed =
     (if consumed = 0 then buffer
      else if consumed = length buffer then []
      else drop consumed buffer)"

type_synonym 's replay_callback = "WalPutRecord \<Rightarrow> 's \<Rightarrow> 's result"

function replay_loop ::
  "'s replay_callback \<Rightarrow> ifstream \<Rightarrow> byte list \<Rightarrow> nat \<Rightarrow> bool \<Rightarrow> WalReplayResult \<Rightarrow> 's \<Rightarrow>
   (WalReplayResult \<times> 's) result" where
  "replay_loop replay input buffer consumed reached_end res s =
     (let available = drop consumed buffer;
          decoded = decode_wal_record available
      in if consumed < length buffer \<and> wal_success decoded then
           (if wal_bytes_consumed decoded = 0 \<or> wal_bytes_consumed decoded > length available
            then Inl (LogicError ''WAL decoder reported an invalid size'')
            else ebind (replay (the (wal_record decoded)) s) (\<lambda>s.
              let consumed = consumed + wal_bytes_consumed decoded;
                  res = res\<lparr>valid_bytes := valid_bytes res + of_nat (wal_bytes_consumed decoded),
                            records_replayed := records_replayed res + 1\<rparr>
              in if consumed = length buffer
                 then replay_loop replay input [] 0 reached_end res s
                 else replay_loop replay input buffer consumed reached_end res s))
         else if consumed < length buffer \<and> wal_error decoded \<noteq> wal_incomplete_record then
           Inl (WalFormatError (valid_bytes res) (wal_error decoded))
         else if consumed < length buffer \<and> reached_end then
           Inr (res\<lparr>incomplete_tail_bytes := of_nat (length buffer - consumed)\<rparr>, s)
         else if reached_end then Inr (res, s)
         else ebind (read_next_chunk input (remove_consumed_prefix buffer consumed))
                (\<lambda>(buffer, input, reached_end).
                   replay_loop replay input buffer 0 reached_end res s))"
  by pat_completeness auto
termination
proof (relation "measures
    [\<lambda>(replay, input, buffer, consumed, reached_end, res, s).
        length (is_rest input) + (if reached_end then 0 else 1),
     \<lambda>(replay, input, buffer, consumed, reached_end, res, s). length buffer - consumed]")
qed (auto simp: read_next_chunk_def Let_def read_chunk_size_def split: if_splits)

declare replay_loop.simps [simp del]

text \<open>
  \<^verbatim>\<open>replay_wal\<close> on a file that could be opened; the callback is always given here, so the
  check for an empty \<^verbatim>\<open>std::function\<close> has no counterpart.
\<close>

definition replay_wal ::
  "'s replay_callback \<Rightarrow> ifstream \<Rightarrow> 's \<Rightarrow> (WalReplayResult \<times> 's) result" where
  "replay_wal replay input s =
     replay_loop replay input [] 0 False
       \<lparr>records_replayed = 0, valid_bytes = 0, incomplete_tail_bytes = 0\<rparr> s"

section \<open>Replay is a scan\<close>

text \<open>
  The specification: scan the whole file for frames, run the callback on the records found,
  then report a clean end, the torn tail or the damaged record and its offset.
\<close>

definition replay_from ::
  "'s replay_callback \<Rightarrow> WalReplayResult \<Rightarrow> byte list \<Rightarrow> 's \<Rightarrow> (WalReplayResult \<times> 's) result" where
  "replay_from replay res bytes s =
     (case scan_frames wal_frame bytes of
        (recs, n, e) \<Rightarrow>
          ebind (efold replay recs s) (\<lambda>s.
            let res = res\<lparr>records_replayed := records_replayed res + of_nat (length recs),
                          valid_bytes := valid_bytes res + of_nat n\<rparr>
            in case e of
                 Clean \<Rightarrow> Inr (res, s)
               | Torn t \<Rightarrow> Inr (res\<lparr>incomplete_tail_bytes := of_nat t\<rparr>, s)
               | Damaged err \<Rightarrow> Inl (WalFormatError (valid_bytes res) err)))"

lemma replay_from_Nil: "replay_from replay res [] s = Inr (res, s)"
  by (simp add: replay_from_def)

lemma replay_from_record:
  assumes "wal_success (decode_wal_record bytes)" "bytes \<noteq> []"
  shows "replay_from replay res bytes s =
    ebind (replay (the (wal_record (decode_wal_record bytes))) s) (\<lambda>s.
      replay_from replay
        (res\<lparr>valid_bytes := valid_bytes res + of_nat (wal_bytes_consumed (decode_wal_record bytes)),
             records_replayed := records_replayed res + 1\<rparr>)
        (drop (wal_bytes_consumed (decode_wal_record bytes)) bytes) s)"
proof -
  let ?d = "decode_wal_record bytes" and ?n = "wal_bytes_consumed (decode_wal_record bytes)"
  obtain recs m e where rec: "scan_frames wal_frame (drop ?n bytes) = (recs, m, e)"
    by (cases "scan_frames wal_frame (drop ?n bytes)") auto
  have "max 1 ?n = ?n"
    using decode_wal_record_consumed[OF assms(1)] by simp
  then have "scan_frames wal_frame bytes = (the (wal_record ?d) # recs, ?n + m, e)"
    using assms rec by (subst scan_frames.simps) (simp add: wal_frame_def Let_def)
  then show ?thesis
    using rec by (cases "replay (the (wal_record ?d)) s"; cases e)
      (simp_all add: replay_from_def add_ac Let_def)
qed

lemma replay_from_stop:
  assumes "\<not> wal_success (decode_wal_record bytes)" "bytes \<noteq> []"
  shows "replay_from replay res bytes s =
    (if wal_error (decode_wal_record bytes) = wal_incomplete_record
     then Inr (res\<lparr>incomplete_tail_bytes := of_nat (length bytes)\<rparr>, s)
     else Inl (WalFormatError (valid_bytes res) (wal_error (decode_wal_record bytes))))"
  using assms by (simp add: replay_from_def scan_frames.simps[of _ bytes] wal_frame_def)

text \<open>A verdict on the buffered bytes is the verdict on the whole rest of the file.\<close>

lemma replay_from_record_append:
  assumes "wal_success (decode_wal_record bytes)"
  shows "replay_from replay res (bytes @ rest) s =
    ebind (replay (the (wal_record (decode_wal_record bytes))) s) (\<lambda>s.
      replay_from replay
        (res\<lparr>valid_bytes := valid_bytes res + of_nat (wal_bytes_consumed (decode_wal_record bytes)),
             records_replayed := records_replayed res + 1\<rparr>)
        (drop (wal_bytes_consumed (decode_wal_record bytes)) bytes @ rest) s)"
proof -
  have same: "decode_wal_record (bytes @ rest) = decode_wal_record bytes"
    using assms by (intro decode_wal_record_append) (auto simp: wal_success_def)
  have "bytes @ rest \<noteq> []" "wal_bytes_consumed (decode_wal_record bytes) \<le> length bytes"
    using decode_wal_record_consumed[OF assms] by auto
  with replay_from_record[of "bytes @ rest" replay res s] assms show ?thesis
    by (simp add: same)
qed

text \<open>A complete record at the front of the buffer; the check of its size is never taken.\<close>

lemma replay_loop_record:
  assumes d: "d = decode_wal_record (drop consumed buffer)" and "consumed < length buffer" "wal_success d"
  shows "replay_loop replay input buffer consumed reached_end res s =
    ebind (replay (the (wal_record d)) s) (\<lambda>s.
      let res = res\<lparr>valid_bytes := valid_bytes res + of_nat (wal_bytes_consumed d), records_replayed := records_replayed res + 1\<rparr>
      in if consumed + wal_bytes_consumed d = length buffer then replay_loop replay input [] 0 reached_end res s
         else replay_loop replay input buffer (consumed + wal_bytes_consumed d) reached_end res s)"
  using assms(2,3) decode_wal_record_consumed[of "drop consumed buffer"] unfolding d
  by (subst replay_loop.simps) (simp add: Let_def)

lemma replay_loop_from:
  assumes "reached_end \<longrightarrow> is_rest input = []" "consumed \<le> length buffer" "is_good_reads input = None"
  shows "replay_loop replay input buffer consumed reached_end res s =
    replay_from replay res (drop consumed buffer @ is_rest input) s"
  using assms
proof (induction replay input buffer consumed reached_end res s rule: replay_loop.induct)
  case (1 replay input buffer consumed reached_end res s)
  let ?av = "drop consumed buffer" and ?d = "decode_wal_record (drop consumed buffer)"
  have av: "?av \<noteq> []" if "consumed < length buffer" using that by simp
  consider (complete) "consumed < length buffer" "wal_success ?d"
    | (corrupt) "consumed < length buffer" "\<not> wal_success ?d" "wal_error ?d \<noteq> wal_incomplete_record"
    | (torn) "consumed < length buffer" "wal_error ?d = wal_incomplete_record" "reached_end"
    | (eof) "consumed = length buffer" "reached_end"
    | (more) "\<not> reached_end" "consumed < length buffer \<longrightarrow> \<not> wal_success ?d \<and> wal_error ?d = wal_incomplete_record"
    using "1.prems"(2) by (cases "consumed < length buffer"; cases "wal_success ?d") auto
  then show ?case
  proof cases
    case complete
    note sz = decode_wal_record_consumed[OF complete(2)]
    have in_buffer: "consumed + wal_bytes_consumed ?d \<le> length buffer" using sz complete by auto
    show ?thesis
    proof (cases "replay (the (wal_record ?d)) s")
      case (Inl e)
      then show ?thesis
        unfolding replay_loop_record[OF refl complete] replay_from_record_append[OF complete(2)] by simp
    next
      case (Inr s')
      note IH = "1.IH"(1,2)[OF refl refl _ _ Inr refl refl]
      show ?thesis
        unfolding replay_loop_record[OF refl complete] replay_from_record_append[OF complete(2)]
        using complete sz Inr IH "1.prems" in_buffer by (simp add: Let_def add.commute)
    qed
  next
    case corrupt
    then have "decode_wal_record (?av @ is_rest input) = ?d" by (intro decode_wal_record_append)
    then show ?thesis
      using corrupt replay_from_stop[of "?av @ is_rest input" replay res s] av
      by (subst replay_loop.simps) (simp add: Let_def)
  next
    case torn
    then have "\<not> wal_success ?d" by (simp add: wal_success_def)
    then show ?thesis
      using torn "1.prems" replay_from_stop[of ?av replay res s] av
      by (subst replay_loop.simps) (simp add: Let_def)
  next
    case eof
    then show ?thesis
      using "1.prems" by (subst replay_loop.simps) (simp add: Let_def replay_from_Nil)
  next
    case more
    let ?b = "?av @ take read_chunk_size (is_rest input)"
    let ?i = "\<lparr>is_rest = drop read_chunk_size (is_rest input), is_good_reads = None\<rparr>"
    let ?eof = "length (take read_chunk_size (is_rest input)) < read_chunk_size"
    have next_chunk: "read_next_chunk input (remove_consumed_prefix buffer consumed) = Inr (?b, ?i, ?eof)"
      using "1.prems" by (simp add: read_next_chunk_def remove_consumed_prefix_def Let_def)
    have "replay_loop replay ?i ?b 0 ?eof res s = replay_from replay res (drop 0 ?b @ is_rest ?i) s"
      using more "1.prems" next_chunk
      by (intro "1.IH"(3)[OF refl refl _ _ _ _ next_chunk refl refl])
        (auto simp: wal_success_def)
    then show ?thesis
      using more next_chunk
      by (subst replay_loop.simps) (auto simp: Let_def)
  qed
qed

lemma replay_wal_scan:
  "replay_wal replay \<lparr>is_rest = file, is_good_reads = None\<rparr> s =
   replay_from replay \<lparr>records_replayed = 0, valid_bytes = 0, incomplete_tail_bytes = 0\<rparr> file s"
  by (simp add: replay_wal_def replay_loop_from)

end
