(* ===== verification/FileSystem.thy ===== *)
theory FileSystem
  imports OrderedMap
begin

text \<open>
  The operating system as the program sees it: one database directory of named byte
  strings, and the POSIX calls the code makes.  Every call that changes the directory takes
  its outcome from a finite script, after which calls succeed; so a theorem about all
  scripts covers every placement of errors, interrupted calls, short writes and process
  deaths.  Failures of calls that only read are a function of the file name, and for the
  iteration over the directory the number of the entry at which it stops.  Beside the
  visible contents the model keeps, as ghost state, the contents that the last completed
  synchronisation made durable.

  Operations are functions from a state to a result and the state after it: an exception
  leaves the effects that happened before it in place.
\<close>

section \<open>Operations with effects\<close>

type_synonym ('s, 'a) act = "'s \<Rightarrow> 'a result \<times> 's"

definition act_return :: "'a \<Rightarrow> ('s, 'a) act" where
  "act_return x s = (Inr x, s)"

definition act_throw :: "exn \<Rightarrow> ('s, 'a) act" where
  "act_throw e s = (Inl e, s)"

definition act_bind :: "('s, 'a) act \<Rightarrow> ('a \<Rightarrow> ('s, 'b) act) \<Rightarrow> ('s, 'b) act" where
  "act_bind m k s = (case m s of (Inl e, s) \<Rightarrow> (Inl e, s) | (Inr x, s) \<Rightarrow> k x s)"

text \<open>An operation that reads the state only.\<close>

definition act_get :: "('s \<Rightarrow> 'a result) \<Rightarrow> ('s, 'a) act" where
  "act_get f s = (f s, s)"

text \<open>\<^verbatim>\<open>try { m } catch (...) { h; throw; }\<close>; a process that died runs no handler.\<close>

definition act_on_error :: "('s, 'a) act \<Rightarrow> ('s \<Rightarrow> 's) \<Rightarrow> ('s, 'a) act" where
  "act_on_error m h s =
     (case m s of
        (Inl e, s) \<Rightarrow> (Inl e, if e = Crashed then s else h s)
      | (Inr x, s) \<Rightarrow> (Inr x, s))"

text \<open>The same with a handler that itself makes calls.\<close>

definition act_cleanup :: "('s, 'a) act \<Rightarrow> ('s, unit) act \<Rightarrow> ('s, 'a) act" where
  "act_cleanup m h s =
     (case m s of
        (Inl e, s) \<Rightarrow>
          if e = Crashed then (Inl e, s)
          else (case h s of (r, s) \<Rightarrow> (Inl (if r = Inl Crashed then Crashed else e), s))
      | (Inr x, s) \<Rightarrow> (Inr x, s))"

lemma act_simps [simp]:
  "act_return x s = (Inr x, s)" "act_throw e s = (Inl e, s)" "act_get f s = (f s, s)"
  by (simp_all add: act_return_def act_throw_def act_get_def)

lemma act_bind_cases:
  "m s = (Inl e, s') \<Longrightarrow> act_bind m k s = (Inl e, s')"
  "m s = (Inr x, s') \<Longrightarrow> act_bind m k s = k x s'"
  by (simp_all add: act_bind_def)

lemma act_bind_Inr:
  "act_bind m k s = (Inr y, s') \<longleftrightarrow> (\<exists>x s1. m s = (Inr x, s1) \<and> k x s1 = (Inr y, s'))"
  by (auto simp: act_bind_def split: prod.splits sum.splits)

lemma act_bind_return [simp]: "act_bind (act_return x) k = k x" "act_bind (act_throw e) k = act_throw e"
  by (simp_all add: act_bind_def fun_eq_iff)

lemma act_on_error_Inr [simp]: "act_on_error m h s = (Inr x, s') \<longleftrightarrow> m s = (Inr x, s')"
  by (auto simp: act_on_error_def split: prod.splits sum.splits)

section \<open>The directory\<close>

definition om_del :: "'k \<Rightarrow> ('k, 'v) omap \<Rightarrow> ('k, 'v) omap" where
  "om_del k m = filter (\<lambda>e. fst e \<noteq> k) m"

lemma map_of_om_del: "map_of (om_del k m) = (map_of m)(k := None)"
  by (induction m) (auto simp: om_del_def fun_eq_iff)

lemma om_del_inv: "om_inv m \<Longrightarrow> om_inv (om_del k m)"
  by (simp add: om_del_def sorted_filter_map_lt)

text \<open>
  Outcomes of a call: it succeeds, is interrupted by a signal, fails, transfers only some
  bytes, or the process dies in it.  The number of \<open>Dies\<close> is how far the call got: the bytes
  written for a write, and for other calls whether the effect took place.
\<close>

datatype os_outcome = Succeeds | Interrupted | Fails | Short nat | Dies nat

datatype read_fault = StatFails | OpenFails | SeekFails | ReadFails nat

text \<open>
  A change of the directory that a crash of the machine may still undo: the name, and the
  durable contents it will have once the directory is synchronised.
\<close>

type_synonym dir_change = "string \<times> byte list option"

text \<open>
  \<open>fs_dir_fault\<close> is \<^term>\<open>Some n\<close> when a directory iterator sets its error code on the way to the
  entry number \<open>n\<close>: for 0 when it is constructed, otherwise in \<^verbatim>\<open>increment\<close>.
\<close>

record fs =
  fs_files :: "(string, byte list) omap"
  fs_durable :: "string \<Rightarrow> byte list option"
  fs_pending :: "dir_change list"
  fs_script :: "os_outcome list"
  fs_fault :: "string \<Rightarrow> read_fault option"
  fs_dir_fault :: "nat option"

definition fs_file :: "fs \<Rightarrow> string \<Rightarrow> byte list option" where
  "fs_file f name = map_of (fs_files f) name"

definition fs_write :: "string \<Rightarrow> byte list \<Rightarrow> fs \<Rightarrow> fs" where
  "fs_write name bytes f = f\<lparr>fs_files := om_put name bytes (fs_files f)\<rparr>"

definition fs_delete :: "string \<Rightarrow> fs \<Rightarrow> fs" where
  "fs_delete name f = f\<lparr>fs_files := om_del name (fs_files f)\<rparr>"

definition fs_wf :: "fs \<Rightarrow> bool" where
  "fs_wf f \<longleftrightarrow> om_inv (fs_files f)"

section \<open>System calls\<close>

text \<open>What a call returns: a value, \<open>-1\<close> with \<^verbatim>\<open>EINTR\<close>, \<open>-1\<close> with another error, or never.\<close>

datatype sysret = Ret nat | Eintr | Errno | Died

definition next_outcome :: "fs \<Rightarrow> os_outcome \<times> fs" where
  "next_outcome f =
     (case fs_script f of [] \<Rightarrow> (Succeeds, f) | o1 # os \<Rightarrow> (o1, f\<lparr>fs_script := os\<rparr>))"

text \<open>A call with one atomic effect.\<close>

definition sys_atomic :: "(fs \<Rightarrow> fs) \<Rightarrow> fs \<Rightarrow> sysret \<times> fs" where
  "sys_atomic effect f =
     (case next_outcome f of
        (Succeeds, f) \<Rightarrow> (Ret 0, effect f)
      | (Interrupted, f) \<Rightarrow> (Eintr, f)
      | (Fails, f) \<Rightarrow> (Errno, f)
      | (Short n, f) \<Rightarrow> (Errno, f)
      | (Dies n, f) \<Rightarrow> (Died, if n = 0 then f else effect f))"

text \<open>\<^verbatim>\<open>open(O_WRONLY | O_CREAT | O_APPEND)\<close>: an absent file is created empty.\<close>

definition sys_open_append :: "string \<Rightarrow> fs \<Rightarrow> sysret \<times> fs" where
  "sys_open_append name f =
     sys_atomic (\<lambda>f. if fs_file f name = None then fs_write name [] f else f) f"

text \<open>\<^verbatim>\<open>open\<close> of an existing file or directory, which changes nothing.\<close>

definition sys_open_existing :: "bool \<Rightarrow> fs \<Rightarrow> sysret \<times> fs" where
  "sys_open_existing present f =
     (case sys_atomic (\<lambda>f. f) f of
        (Ret n, f) \<Rightarrow> (if present then Ret n else Errno, f)
      | r \<Rightarrow> r)"

definition sys_write :: "string \<Rightarrow> byte list \<Rightarrow> fs \<Rightarrow> sysret \<times> fs" where
  "sys_write name bytes f =
     (let append = (\<lambda>n f. fs_write name (the (fs_file f name) @ take n bytes) f)
      in case next_outcome f of
           (Succeeds, f) \<Rightarrow> (Ret (length bytes), append (length bytes) f)
         | (Interrupted, f) \<Rightarrow> (Eintr, f)
         | (Fails, f) \<Rightarrow> (Errno, f)
         | (Short n, f) \<Rightarrow> (Ret (min n (length bytes)), append n f)
         | (Dies n, f) \<Rightarrow> (Died, append n f))"

definition sys_fsync :: "string \<Rightarrow> fs \<Rightarrow> sysret \<times> fs" where
  "sys_fsync name f =
     sys_atomic (\<lambda>f. f\<lparr>fs_durable := (fs_durable f)(name := fs_file f name)\<rparr>) f"

definition sys_ftruncate :: "string \<Rightarrow> nat \<Rightarrow> fs \<Rightarrow> sysret \<times> fs" where
  "sys_ftruncate name n f = sys_atomic (\<lambda>f. fs_write name (take n (the (fs_file f name))) f) f"

definition sys_rename :: "string \<Rightarrow> string \<Rightarrow> fs \<Rightarrow> sysret \<times> fs" where
  "sys_rename from to f =
     sys_atomic (\<lambda>f. (fs_delete from (fs_write to (the (fs_file f from)) f))
       \<lparr>fs_pending := fs_pending f @ [(to, fs_durable f from), (from, None)]\<rparr>) f"

definition sys_unlink :: "string \<Rightarrow> fs \<Rightarrow> sysret \<times> fs" where
  "sys_unlink name f =
     sys_atomic (\<lambda>f. (fs_delete name f)\<lparr>fs_pending := fs_pending f @ [(name, None)]\<rparr>) f"

definition apply_dir_change ::
  "dir_change \<Rightarrow> (string \<Rightarrow> byte list option) \<Rightarrow> string \<Rightarrow> byte list option" where
  "apply_dir_change c d = d(fst c := snd c)"

definition sys_fsync_dir :: "fs \<Rightarrow> sysret \<times> fs" where
  "sys_fsync_dir f =
     sys_atomic (\<lambda>f. f\<lparr>fs_durable := fold apply_dir_change (fs_pending f) (fs_durable f),
                      fs_pending := []\<rparr>) f"

definition sys_close :: "fs \<Rightarrow> sysret \<times> fs" where
  "sys_close f = sys_atomic (\<lambda>f. f) f"

section \<open>Stream and filesystem library calls\<close>

definition std_exists :: "string \<Rightarrow> fs \<Rightarrow> bool result" where
  "std_exists name f =
     (if fs_fault f name = Some StatFails then Inl (SystemError ''failed to inspect'')
      else Inr (fs_file f name \<noteq> None))"

text \<open>\<^verbatim>\<open>std::filesystem::file_size\<close> with an error code: \<^const>\<open>None\<close> when it is set.\<close>

definition std_file_size :: "string \<Rightarrow> fs \<Rightarrow> nat option" where
  "std_file_size name f =
     (if fs_fault f name = Some StatFails then None else map_option length (fs_file f name))"

text \<open>
  Opening a file stream for writing with truncation, and writing, flushing and closing it:
  the first result is whether the stream is still good.
\<close>

definition ofstream_open :: "string \<Rightarrow> fs \<Rightarrow> bool result \<times> fs" where
  "ofstream_open name f =
     (case sys_atomic (fs_write name []) f of
        (Ret _, f) \<Rightarrow> (Inr True, f)
      | (Died, f) \<Rightarrow> (Inl Crashed, f)
      | (_, f) \<Rightarrow> (Inr False, f))"

definition ofstream_write_close :: "string \<Rightarrow> byte list \<Rightarrow> fs \<Rightarrow> bool result \<times> fs" where
  "ofstream_write_close name bytes f =
     (case sys_write name bytes f of
        (Ret n, f) \<Rightarrow> (Inr (n = length bytes), f)
      | (Died, f) \<Rightarrow> (Inl Crashed, f)
      | (_, f) \<Rightarrow> (Inr False, f))"

text \<open>\<^verbatim>\<open>path::extension\<close> of a single file name.\<close>

definition path_extension :: "string \<Rightarrow> string" where
  "path_extension name =
     (let rev_stem = dropWhile (\<lambda>c. c \<noteq> CHR ''.'') (rev name);
          ext = takeWhile (\<lambda>c. c \<noteq> CHR ''.'') (rev name)
      in if name = ''..'' \<or> length rev_stem \<le> 1 then []
         else CHR ''.'' # rev ext)"

definition starts_with :: "string \<Rightarrow> string \<Rightarrow> bool" where
  "starts_with prefix name \<longleftrightarrow> take (length prefix) name = prefix"

text \<open>\<^verbatim>\<open>do { r = call; } while (r < 0 && errno == EINTR)\<close>\<close>

lemma next_outcome_fields:
  "next_outcome f = (oc, f') \<Longrightarrow>
     fs_files f' = fs_files f \<and> fs_durable f' = fs_durable f \<and> fs_pending f' = fs_pending f \<and>
     fs_fault f' = fs_fault f \<and> fs_dir_fault f' = fs_dir_fault f \<and>
     length (fs_script f') \<le> length (fs_script f) \<and>
     (oc \<noteq> Succeeds \<longrightarrow> length (fs_script f') < length (fs_script f))"
  by (auto simp: next_outcome_def split: list.splits)

lemma sys_atomic_Eintr:
  "sys_atomic effect f = (Eintr, f') \<Longrightarrow> length (fs_script f') < length (fs_script f)"
  by (auto simp: sys_atomic_def split: prod.splits os_outcome.splits dest: next_outcome_fields)

function eintr_retry :: "(fs \<Rightarrow> fs) \<Rightarrow> fs \<Rightarrow> sysret \<times> fs" where
  "eintr_retry effect f =
     (case sys_atomic effect f of
        (Eintr, f) \<Rightarrow> eintr_retry effect f
      | r \<Rightarrow> r)"
  by pat_completeness auto
termination
  by (relation "measure (\<lambda>(effect, f). length (fs_script f))") (auto dest: sys_atomic_Eintr[OF sym])

declare eintr_retry.simps [simp del]

section \<open>Facts\<close>

lemma fs_file_write [simp]: "fs_file (fs_write name bytes f) = (fs_file f)(name \<mapsto> bytes)"
  by (simp add: fs_file_def fs_write_def fun_eq_iff map_of_om_put)

lemma fs_file_delete [simp]: "fs_file (fs_delete name f) = (fs_file f)(name := None)"
  by (simp add: fs_file_def fs_delete_def fun_eq_iff map_of_om_del)

lemma fs_file_update [simp]:
  "fs_file (f\<lparr>fs_script := s\<rparr>) = fs_file f" "fs_file (f\<lparr>fs_durable := d\<rparr>) = fs_file f"
  "fs_file (f\<lparr>fs_pending := p\<rparr>) = fs_file f"
  by (simp_all add: fs_file_def fun_eq_iff)

lemma fs_write_fields [simp]:
  "fs_durable (fs_write name b f) = fs_durable f" "fs_pending (fs_write name b f) = fs_pending f"
  "fs_script (fs_write name b f) = fs_script f" "fs_fault (fs_write name b f) = fs_fault f"
  "fs_dir_fault (fs_write name b f) = fs_dir_fault f"
  "fs_durable (fs_delete name f) = fs_durable f" "fs_pending (fs_delete name f) = fs_pending f"
  "fs_script (fs_delete name f) = fs_script f" "fs_fault (fs_delete name f) = fs_fault f"
  "fs_dir_fault (fs_delete name f) = fs_dir_fault f"
  by (simp_all add: fs_write_def fs_delete_def)

lemma fs_wf_update [simp]:
  "fs_wf (f\<lparr>fs_script := s\<rparr>) = fs_wf f" "fs_wf (f\<lparr>fs_durable := d\<rparr>) = fs_wf f"
  "fs_wf (f\<lparr>fs_pending := p\<rparr>) = fs_wf f"
  "fs_wf f \<Longrightarrow> fs_wf (fs_write name bytes f)" "fs_wf f \<Longrightarrow> fs_wf (fs_delete name f)"
  by (simp_all add: fs_wf_def fs_write_def fs_delete_def om_put_inv om_del_inv)

lemma next_outcome_quiet: "fs_script f = [] \<Longrightarrow> next_outcome f = (Succeeds, f)"
  by (simp add: next_outcome_def)

text \<open>
  What a call leaves behind: \<open>later f f'\<close> holds when \<open>f'\<close> is \<open>f\<close> with part of the script
  used up.  An atomic call ends in such a state, with or without its effect.
\<close>

definition later :: "fs \<Rightarrow> fs \<Rightarrow> bool" where
  "later f f' \<longleftrightarrow> (\<exists>n. f' = f\<lparr>fs_script := drop n (fs_script f)\<rparr>)"

lemma later_refl [simp]: "later f f"
  unfolding later_def by (rule exI[of _ 0]) simp

lemma later_trans: "later f g \<Longrightarrow> later g h \<Longrightarrow> later f h"
  by (auto simp: later_def intro: exI[of _ "_ + _"])

lemma later_fields:
  assumes "later f f'"
  shows "fs_file f' = fs_file f" "fs_files f' = fs_files f" "fs_durable f' = fs_durable f"
    "fs_pending f' = fs_pending f" "fs_fault f' = fs_fault f" "fs_dir_fault f' = fs_dir_fault f"
    "fs_wf f' = fs_wf f" "fs_script f = [] \<Longrightarrow> fs_script f' = []" "fs_script f = [] \<Longrightarrow> f' = f"
  using assms by (auto simp: later_def)

lemma next_outcome_later: "next_outcome f = (oc, f') \<Longrightarrow> later f f'"
  by (auto simp: next_outcome_def later_def split: list.splits intro: exI[of _ 0] exI[of _ 1])

lemma sys_atomic_cases:
  assumes "sys_atomic effect f = (r, f')"
  shows "\<exists>g. later f g \<and> (f' = g \<or> f' = effect g) \<and>
    (\<forall>n. r = Ret n \<longrightarrow> f' = effect g) \<and> (r = Errno \<or> r = Eintr \<longrightarrow> f' = g) \<and>
    (fs_script f = [] \<longrightarrow> r = Ret 0)"
  using assms next_outcome_quiet[of f]
  by (auto simp: sys_atomic_def split: prod.splits os_outcome.splits if_splits
      dest: next_outcome_later)

lemma eintr_retry_cases:
  assumes "eintr_retry effect f = (r, f')"
  shows "\<exists>g. later f g \<and> (f' = g \<or> f' = effect g) \<and>
    (\<forall>n. r = Ret n \<longrightarrow> f' = effect g) \<and> (r = Errno \<longrightarrow> f' = g) \<and> r \<noteq> Eintr \<and>
    (fs_script f = [] \<longrightarrow> r = Ret 0)"
  using assms
proof (induction effect f rule: eintr_retry.induct)
  case (1 effect f)
  obtain r1 f1 where s: "sys_atomic effect f = (r1, f1)" by force
  note c = sys_atomic_cases[OF s]
  show ?case
  proof (cases "r1 = Eintr")
    case True
    then have l: "later f f1" and ne: "fs_script f \<noteq> []" using c by auto
    have "eintr_retry effect f1 = (r, f')"
      using "1.prems" s True by (simp add: eintr_retry.simps[of effect f])
    from "1.IH"[OF s[unfolded True, symmetric] refl this] l ne show ?thesis
      by (metis later_trans)
  next
    case False
    then have "r = r1" "f' = f1"
      using "1.prems" s by (cases r1; simp add: eintr_retry.simps[of effect f])+
    with c False show ?thesis by auto
  qed
qed

end
