(* ===== verification/FileIo.thy ===== *)
theory FileIo
  imports FileSystem
begin

text \<open>
  The file helpers of \<^verbatim>\<open>src/file_io.cpp\<close> in their POSIX variant: whole-range reads, and the
  atomic replacement of a file by writing a temporary file, synchronising it, renaming it
  over the target and synchronising the directory.
\<close>

section \<open>Operations\<close>

definition streamoff_max :: nat where
  "streamoff_max = 2 ^ 63 - 1"

definition file_error :: "string \<Rightarrow> string \<Rightarrow> exn" where
  "file_error action name = RuntimeError (action @ '': '' @ name)"

text \<open>\<^verbatim>\<open>open_for_sync\<close>: \<open>present\<close> tells whether the path exists.\<close>

definition open_for_sync :: "bool \<Rightarrow> fs \<Rightarrow> sysret \<times> fs" where
  "open_for_sync present f =
     (case eintr_retry (\<lambda>f. f) f of
        (Ret n, f) \<Rightarrow> (if present then Ret n else Errno, f)
      | r \<Rightarrow> r)"

definition close_descriptor :: "(fs, unit) act" where
  "close_descriptor f =
     (case sys_close f of
        (Errno, f) \<Rightarrow> (Inl (SystemError ''failed to close file''), f)
      | (Died, f) \<Rightarrow> (Inl Crashed, f)
      | (_, f) \<Rightarrow> (Inr (), f))"

text \<open>The second \<^verbatim>\<open>close\<close> of the \<^verbatim>\<open>catch\<close> blocks, whose result is ignored.\<close>

definition close_ignored :: "(fs, unit) act" where
  "close_ignored f =
     (case sys_close f of (Died, f) \<Rightarrow> (Inl Crashed, f) | (_, f) \<Rightarrow> (Inr (), f))"

text \<open>The loop around \<^verbatim>\<open>fsync\<close>, with the exception it throws for other errors than \<^verbatim>\<open>EINTR\<close>.\<close>

definition fsync_loop :: "(fs \<Rightarrow> fs) \<Rightarrow> string \<Rightarrow> (fs, unit) act" where
  "fsync_loop effect message f =
     (case eintr_retry effect f of
        (Ret _, f) \<Rightarrow> (Inr (), f)
      | (Died, f) \<Rightarrow> (Inl Crashed, f)
      | (_, f) \<Rightarrow> (Inl (SystemError message), f))"

definition sync_effect :: "string \<Rightarrow> fs \<Rightarrow> fs" where
  "sync_effect name f = f\<lparr>fs_durable := (fs_durable f)(name := fs_file f name)\<rparr>"

definition sync_dir_effect :: "fs \<Rightarrow> fs" where
  "sync_dir_effect f =
     f\<lparr>fs_durable := fold apply_dir_change (fs_pending f) (fs_durable f), fs_pending := []\<rparr>"

definition sync_descriptor :: "string \<Rightarrow> (fs, unit) act" where
  "sync_descriptor name = fsync_loop (sync_effect name) ''failed to synchronize file''"

definition sync_file :: "string \<Rightarrow> (fs, unit) act" where
  "sync_file name f =
     (case open_for_sync (fs_file f name \<noteq> None) f of
        (Died, f) \<Rightarrow> (Inl Crashed, f)
      | (Ret _, f) \<Rightarrow>
          act_cleanup (act_bind (sync_descriptor name) (\<lambda>_. close_descriptor)) close_ignored f
      | (_, f) \<Rightarrow> (Inl (SystemError ''failed to open file for synchronization''), f))"

definition replace_file :: "string \<Rightarrow> string \<Rightarrow> (fs, unit) act" where
  "replace_file temporary final_path f =
     (case sys_rename temporary final_path f of
        (Died, f) \<Rightarrow> (Inl Crashed, f)
      | (Ret _, f) \<Rightarrow>
          (case open_for_sync True f of
             (Died, f) \<Rightarrow> (Inl Crashed, f)
           | (Ret _, f) \<Rightarrow>
               act_cleanup
                 (act_bind (fsync_loop sync_dir_effect ''failed to synchronize parent directory'')
                    (\<lambda>_. close_descriptor)) close_ignored f
           | (_, f) \<Rightarrow> (Inl (SystemError ''failed to open parent directory for synchronization''), f))
      | (_, f) \<Rightarrow> (Inl (SystemError ''failed to publish atomic file''), f))"

definition file_size_bytes :: "string \<Rightarrow> fs \<Rightarrow> u64 result" where
  "file_size_bytes name f =
     (case std_file_size name f of
        None \<Rightarrow> Inl (SystemError ''failed to inspect file size'')
      | Some n \<Rightarrow>
          if n > 2 ^ 64 - 1 then Inl (file_error ''file is too large'' name) else Inr (of_nat n))"

definition read_file_bytes :: "string \<Rightarrow> u64 \<Rightarrow> nat \<Rightarrow> fs \<Rightarrow> byte list result" where
  "read_file_bytes name offset n f =
     (if unat offset > streamoff_max then Inl (file_error ''file offset is too large'' name)
      else if n > streamoff_max then Inl (file_error ''file read is too large'' name)
      else case fs_file f name of
             None \<Rightarrow> Inl (file_error ''failed to open file'' name)
           | Some content \<Rightarrow>
               if fs_fault f name = Some OpenFails then Inl (file_error ''failed to open file'' name)
               else if fs_fault f name = Some SeekFails then Inl (file_error ''failed to seek file'' name)
               else if n \<noteq> 0 then
                 let bytes = (case fs_fault f name of
                                Some (ReadFails k) \<Rightarrow> []
                              | _ \<Rightarrow> take n (drop (unat offset) content))
                 in if length bytes \<noteq> n
                    then Inl (file_error ''failed to read complete file range'' name)
                    else Inr bytes
               else Inr [])"

definition atomic_write_file :: "string \<Rightarrow> byte list \<Rightarrow> (fs, unit) act" where
  "atomic_write_file path bytes =
     (let temporary = path @ ''.tmp''
      in act_bind (ofstream_open temporary) (\<lambda>opened.
         if \<not> opened then act_throw (file_error ''failed to open temporary file'' temporary)
         else if bytes \<noteq> [] \<and> length bytes > streamoff_max
           then act_throw (file_error ''atomic write is too large'' temporary)
         else act_bind (ofstream_write_close temporary bytes) (\<lambda>good.
           if \<not> good then act_throw (file_error ''failed to write temporary file'' temporary)
           else act_bind (sync_file temporary) (\<lambda>_. replace_file temporary path))))"

section \<open>Reads\<close>

text \<open>A file without injected read faults.\<close>

definition readable :: "fs \<Rightarrow> string \<Rightarrow> bool" where
  "readable f name \<longleftrightarrow> fs_fault f name = None"

lemma read_file_bytes_Inr:
  assumes "readable f name" "fs_file f name = Some content"
    and "unat offset + n \<le> length content" "length content \<le> streamoff_max"
  shows "read_file_bytes name offset n f = Inr (take n (drop (unat offset) content))"
  using assms by (auto simp: read_file_bytes_def readable_def)

lemma read_file_bytes_InrD:
  assumes "read_file_bytes name offset n f = Inr bytes"
  shows "\<exists>content. fs_file f name = Some content \<and> bytes = take n (drop (unat offset) content) \<and>
    length bytes = n"
  using assms
  by (auto simp: read_file_bytes_def Let_def split: if_splits option.splits read_fault.splits)

lemma file_size_bytes_Inr:
  assumes "readable f name" "fs_file f name = Some content" "length content \<le> streamoff_max"
  shows "file_size_bytes name f = Inr (of_nat (length content))"
  using assms by (simp add: file_size_bytes_def std_file_size_def readable_def streamoff_max_def)

section \<open>Atomic replacement\<close>

text \<open>
  The effect of a call on the visible files, for every script: \<open>only\<close> is the set of names it
  may change.
\<close>

definition touches :: "string set \<Rightarrow> fs \<Rightarrow> fs \<Rightarrow> bool" where
  "touches only f f' \<longleftrightarrow>
     (\<forall>n. n \<notin> only \<longrightarrow> fs_file f' n = fs_file f n) \<and> fs_fault f' = fs_fault f \<and>
     fs_dir_fault f' = fs_dir_fault f \<and> (fs_wf f \<longrightarrow> fs_wf f') \<and>
     (fs_script f = [] \<longrightarrow> fs_script f' = [])"

lemma touches_refl [simp]: "touches only f f"
  by (simp add: touches_def)

lemma touches_trans: "touches A f g \<Longrightarrow> touches B g h \<Longrightarrow> touches (A \<union> B) f h"
  by (auto simp: touches_def)

lemma touches_mono: "touches A f g \<Longrightarrow> A \<subseteq> B \<Longrightarrow> touches B f g"
  by (auto simp: touches_def)

lemma touches_later: "later f g \<Longrightarrow> touches only f g"
  by (simp add: touches_def later_fields)

lemma touches_write: "touches {name} f (fs_write name b f)"
  by (simp add: touches_def)

lemma touches_effects [simp]: "touches only f (sync_effect name f)" "touches only f (sync_dir_effect f)"
  "touches only f (f\<lparr>fs_pending := p\<rparr>)"
  by (simp_all add: touches_def sync_effect_def sync_dir_effect_def)

lemma fs_file_effects [simp]: "fs_file (sync_effect name f) = fs_file f" "fs_file (sync_dir_effect f) = fs_file f"
  by (simp_all add: sync_effect_def sync_dir_effect_def)

text \<open>
  Calls that leave every file as it is: their result and the script are all that matters.
\<close>

definition keeps_files :: "fs \<Rightarrow> fs \<Rightarrow> bool" where
  "keeps_files f f' \<longleftrightarrow> touches {} f f'"

lemma keeps_filesD: "keeps_files f f' \<Longrightarrow> fs_file f' = fs_file f"
  by (auto simp: keeps_files_def touches_def)

lemma keeps_files_trans: "keeps_files f g \<Longrightarrow> keeps_files g h \<Longrightarrow> keeps_files f h"
  unfolding keeps_files_def using touches_trans[of "{}" f g "{}" h] by simp

lemma keeps_files_touches: "keeps_files f g \<Longrightarrow> touches only f g"
  unfolding keeps_files_def by (rule touches_mono) auto

lemma keeps_files_later: "later f g \<Longrightarrow> keeps_files f g"
  by (simp add: keeps_files_def touches_later)

lemma sys_close_keeps: "sys_close f = (r, f') \<Longrightarrow> keeps_files f f' \<and> (fs_script f = [] \<longrightarrow> r = Ret 0)"
  unfolding sys_close_def by (auto dest!: sys_atomic_cases intro: keeps_files_later)

lemma close_descriptor_keeps:
  "close_descriptor f = (r, f') \<Longrightarrow> keeps_files f f' \<and> (fs_script f = [] \<longrightarrow> r = Inr ())"
  by (auto simp: close_descriptor_def split: prod.splits sysret.splits dest: sys_close_keeps)

lemma close_ignored_keeps: "close_ignored f = (r, f') \<Longrightarrow> keeps_files f f'"
  by (auto simp: close_ignored_def split: prod.splits sysret.splits dest: sys_close_keeps)

lemma open_for_sync_keeps:
  "open_for_sync present f = (r, f') \<Longrightarrow>
     keeps_files f f' \<and> fs_durable f' = fs_durable f \<and> fs_pending f' = fs_pending f \<and>
     (fs_script f = [] \<and> present \<longrightarrow> r = Ret 0)"
  by (auto simp: open_for_sync_def split: prod.splits sysret.splits if_splits
      dest!: eintr_retry_cases intro: keeps_files_later simp: later_fields)

lemma fsync_loop_keeps:
  assumes "fsync_loop effect msg f = (r, f')" "\<And>g. keeps_files g (effect g)"
  shows "keeps_files f f' \<and> (fs_script f = [] \<longrightarrow> r = Inr ()) \<and>
    (r = Inr () \<longrightarrow> (\<exists>g. later f g \<and> f' = effect g))"
  using assms(1) keeps_files_trans[OF keeps_files_later assms(2)]
  by (auto simp: fsync_loop_def split: prod.splits sysret.splits dest!: eintr_retry_cases
      intro: keeps_files_later)

lemma sync_then_close_keeps:
  assumes "act_cleanup (act_bind (fsync_loop effect msg) (\<lambda>_. close_descriptor)) close_ignored f = (r, f')"
    and "\<And>g. keeps_files g (effect g)"
  shows "keeps_files f f' \<and> (fs_script f = [] \<longrightarrow> r = Inr ())"
proof -
  obtain r1 f1 where 1: "fsync_loop effect msg f = (r1, f1)" by force
  obtain r2 f2 where 2: "close_descriptor f1 = (r2, f2)" by force
  obtain r3 f3 where 3: "close_ignored f1 = (r3, f3)" by force
  obtain r4 f4 where 4: "close_ignored f2 = (r4, f4)" by force
  note k1 = fsync_loop_keeps[OF 1 assms(2)] and k2 = close_descriptor_keeps[OF 2]
    and k3 = close_ignored_keeps[OF 3] and k4 = close_ignored_keeps[OF 4]
  have q: "fs_script f = [] \<Longrightarrow> fs_script f1 = []" using k1 by (simp add: keeps_files_def touches_def)
  show ?thesis
    using assms(1) k1 k2 k3 k4 q 1 2 3 4
    by (cases r1; cases r2) (auto simp: act_cleanup_def act_bind_def split: if_splits
        intro: keeps_files_trans)
qed

lemma sync_effects_keep: "keeps_files g (sync_effect name g)" "keeps_files g (sync_dir_effect g)"
  by (simp_all add: keeps_files_def)

lemma sync_file_keeps:
  assumes "sync_file name f = (r, f')"
  shows "keeps_files f f' \<and> (fs_script f = [] \<and> fs_file f name \<noteq> None \<longrightarrow> r = Inr ())"
proof -
  obtain r1 f1 where 1: "open_for_sync (fs_file f name \<noteq> None) f = (r1, f1)" by force
  note k1 = open_for_sync_keeps[OF 1]
  have q: "fs_script f = [] \<Longrightarrow> fs_script f1 = []" using k1 by (simp add: keeps_files_def touches_def)
  show ?thesis
  proof (cases r1)
    case (Ret n)
    have "act_cleanup (act_bind (sync_descriptor name) (\<lambda>_. close_descriptor)) close_ignored f1 = (r, f')"
      using assms 1 Ret by (simp add: sync_file_def)
    from sync_then_close_keeps[OF this[unfolded sync_descriptor_def] sync_effects_keep(1)] k1 q
    show ?thesis by (auto intro: keeps_files_trans)
  qed (use assms 1 k1 in \<open>auto simp: sync_file_def\<close>)
qed

text \<open>Success of the synchronising calls makes the contents durable.\<close>

lemma close_descriptor_later: "close_descriptor f = (r, f') \<Longrightarrow> later f f'"
  by (auto simp: close_descriptor_def sys_close_def split: prod.splits sysret.splits
      dest!: sys_atomic_cases)

lemma sync_then_close_done:
  assumes "act_cleanup (act_bind (fsync_loop effect msg) (\<lambda>_. close_descriptor)) close_ignored f = (Inr (), f')"
  shows "\<exists>g. later f g \<and> later (effect g) f'"
proof -
  obtain f1 where 1: "fsync_loop effect msg f = (Inr (), f1)" "close_descriptor f1 = (Inr (), f')"
    using assms by (auto simp: act_cleanup_def act_bind_Inr split: prod.splits sum.splits if_splits)
  from 1(1) obtain g where "later f g" "f1 = effect g"
    by (auto simp: fsync_loop_def split: prod.splits sysret.splits dest!: eintr_retry_cases)
  with close_descriptor_later[OF 1(2)] show ?thesis by auto
qed

lemma sync_file_durable:
  assumes "sync_file name f = (Inr (), f')"
  shows "fs_durable f' name = fs_file f name"
proof -
  obtain n f1 where 1: "open_for_sync (fs_file f name \<noteq> None) f = (Ret n, f1)"
    "act_cleanup (act_bind (sync_descriptor name) (\<lambda>_. close_descriptor)) close_ignored f1 = (Inr (), f')"
    using assms by (auto simp: sync_file_def split: prod.splits sysret.splits)
  then obtain g where "later f1 g" "later (sync_effect name g) f'"
    using sync_then_close_done[OF 1(2)[unfolded sync_descriptor_def]] by blast
  with open_for_sync_keeps[OF 1(1)] show ?thesis
    by (auto simp: later_fields sync_effect_def dest: keeps_filesD)
qed

definition rename_effect :: "string \<Rightarrow> string \<Rightarrow> fs \<Rightarrow> fs" where
  "rename_effect from to f =
     (fs_delete from (fs_write to (the (fs_file f from)) f))
       \<lparr>fs_pending := fs_pending f @ [(to, fs_durable f from), (from, None)]\<rparr>"

lemma touches_rename: "touches {from, to} f (rename_effect from to f)"
  by (simp add: touches_def rename_effect_def)

lemma fs_file_rename:
  "from \<noteq> to \<Longrightarrow> fs_file (rename_effect from to f) to = Some (the (fs_file f from))"
  by (simp add: rename_effect_def)

lemma replace_file_effect:
  assumes "replace_file from to f = (r, f')" "from \<noteq> to" "fs_file f from = Some b"
  shows "touches {from, to} f f' \<and> (fs_file f' to = fs_file f to \<or> fs_file f' to = Some b) \<and>
    (r = Inr () \<longrightarrow> fs_file f' to = Some b \<and> fs_durable f' to = fs_durable f from) \<and>
    (fs_script f = [] \<longrightarrow> r = Inr ())"
proof -
  obtain r1 f1 where 1: "sys_rename from to f = (r1, f1)" by force
  obtain g where g: "later f g" "f1 = g \<or> f1 = rename_effect from to g"
      "\<And>n. r1 = Ret n \<Longrightarrow> f1 = rename_effect from to g" "fs_script f = [] \<Longrightarrow> r1 = Ret 0"
    using sys_atomic_cases[OF 1[unfolded sys_rename_def]] unfolding rename_effect_def by blast
  have t1: "touches {from, to} f f1"
    using g(1,2) touches_trans[OF touches_later[of f g "{}"] touches_rename[of "from" to g]]
    by (auto simp: touches_later)
  have c1: "fs_file f1 to = fs_file f to \<or> fs_file f1 to = Some b"
    using g(1,2) fs_file_rename[OF assms(2), of g] assms(3) by (auto simp: later_fields)
  show ?thesis
  proof (cases r1)
    case (Ret n)
    note f1 = g(3)[OF Ret]
    have done1: "fs_file f1 to = Some b" and q1: "fs_script f = [] \<Longrightarrow> fs_script f1 = []"
      using f1 fs_file_rename[OF assms(2), of g] g(1) assms(3) t1 by (auto simp: later_fields touches_def)
    obtain r2 f2 where 2: "open_for_sync True f1 = (r2, f2)" by force
    note k2 = open_for_sync_keeps[OF 2]
    have t2: "touches {from, to} f f2" "fs_file f2 to = Some b"
      using touches_trans[OF t1 keeps_files_touches[of f1 f2 "{}"]] k2 done1 by (auto simp: keeps_filesD)
    show ?thesis
    proof (cases r2)
      case (Ret n2)
      have 3: "act_cleanup (act_bind (fsync_loop sync_dir_effect ''failed to synchronize parent directory'')
          (\<lambda>_. close_descriptor)) close_ignored f2 = (r, f')"
        using assms(1) 1 2 \<open>r1 = Ret n\<close> Ret by (simp add: replace_file_def)
      note k3 = sync_then_close_keeps[OF 3 sync_effects_keep(2)]
      have dur: "fs_durable f' to = fs_durable f from" if "r = Inr ()"
        using sync_then_close_done[OF 3[unfolded that]] k2 f1 g(1) assms(2)
        by (auto simp: later_fields sync_dir_effect_def rename_effect_def apply_dir_change_def)
      show ?thesis
        using touches_trans[OF t2(1) keeps_files_touches[of f2 f' "{}"]] k2 k3 t2(2) dur q1
        by (auto simp: keeps_filesD) (simp add: keeps_files_def touches_def)
    qed (use assms(1) 1 2 \<open>r1 = Ret n\<close> k2 t2 q1 in \<open>auto simp: replace_file_def\<close>)
  qed (use assms(1) 1 t1 c1 g(4) in \<open>auto simp: replace_file_def\<close>)
qed

lemma ofstream_open_effect:
  assumes "ofstream_open name f = (r, f')"
  shows "touches {name} f f' \<and> (r = Inr True \<longrightarrow> fs_file f' name = Some []) \<and>
    (fs_script f = [] \<longrightarrow> r = Inr True)"
proof -
  obtain r1 f1 where 1: "sys_atomic (fs_write name []) f = (r1, f1)" by force
  from sys_atomic_cases[OF this] obtain g where g: "later f g" "f1 = g \<or> f1 = fs_write name [] g"
      "\<forall>n. r1 = Ret n \<longrightarrow> f1 = fs_write name [] g" "fs_script f = [] \<longrightarrow> r1 = Ret 0"
    by blast
  have "touches {name} f f1"
    using g(1,2) touches_trans[OF touches_later[of f g "{}"] touches_write[of name g "[]"]]
    by (auto simp: touches_later)
  with g assms 1 show ?thesis
    by (cases r1) (auto simp: ofstream_open_def)
qed

lemma sys_write_effect:
  assumes "sys_write name bytes f = (r, f')"
  shows "touches {name} f f' \<and> fs_durable f' = fs_durable f \<and>
    (\<exists>n. fs_file f' name = Some (the (fs_file f name) @ take n bytes) \<or> fs_file f' name = fs_file f name) \<and>
    (\<forall>n. r = Ret n \<longrightarrow> n \<le> length bytes \<and> fs_file f' name = Some (the (fs_file f name) @ take n bytes)) \<and>
    (fs_script f = [] \<longrightarrow> r = Ret (length bytes))"
proof -
  obtain oc g where o: "next_outcome f = (oc, g)" by force
  note l = next_outcome_later[OF o]
  have t: "touches {name} f (fs_write name b g)" for b
    using touches_trans[OF touches_later[OF l, of "{}"] touches_write] by simp
  show ?thesis
    using assms o t touches_later[OF l] next_outcome_quiet[of f] later_fields[OF l]
    by (cases oc) (auto simp: sys_write_def Let_def min_def intro: exI[of _ "length bytes"])
qed

text \<open>The temporary file is synchronised and takes the place of the target.\<close>

lemma publish_temporary:
  assumes run: "act_bind (sync_file tmp) (\<lambda>_. replace_file tmp name) f = (r, f')" and ne: "tmp \<noteq> name"
    and tmp: "fs_file f tmp = Some bytes"
  shows "touches {name, tmp} f f' \<and> (fs_file f' name = fs_file f name \<or> fs_file f' name = Some bytes) \<and>
    (r = Inr () \<longrightarrow> fs_file f' name = Some bytes \<and> fs_durable f' name = Some bytes) \<and> (fs_script f = [] \<longrightarrow> r = Inr ())"
proof -
  obtain r1 f1 where 1: "sync_file tmp f = (r1, f1)" by force
  note s = sync_file_keeps[OF 1]
  have t1: "touches {name, tmp} f f1" "fs_file f1 = fs_file f" "fs_script f = [] \<Longrightarrow> fs_script f1 = []"
    using s keeps_files_touches[of f f1 "{name, tmp}"] by (auto simp: keeps_files_def touches_def dest: keeps_filesD[unfolded keeps_files_def])
  show ?thesis
  proof (cases r1)
    case (Inl e)
    then show ?thesis using run 1 s t1 tmp by (auto simp: act_bind_cases)
  next
    case (Inr u)
    then have 2: "replace_file tmp name f1 = (r, f')" using run 1 by (simp add: act_bind_cases)
    have dur: "fs_durable f1 tmp = Some bytes" using sync_file_durable[of tmp f f1] 1 Inr tmp by simp
    have b: "fs_file f1 tmp = Some bytes" using t1(2) tmp by simp
    note e = replace_file_effect[OF 2 ne b]
    have "touches {name, tmp} f f'"
      using touches_trans[of "{name, tmp}" f f1 "{tmp, name}" f'] t1(1) e by (simp add: insert_commute)
    with e t1 dur show ?thesis by auto
  qed
qed

lemma atomic_write_file_effect:
  assumes "atomic_write_file name bytes f = (r, f')"
  shows "touches {name, name @ ''.tmp''} f f' \<and>
    (fs_file f' name = fs_file f name \<or> fs_file f' name = Some bytes) \<and>
    (r = Inr () \<longrightarrow> fs_file f' name = Some bytes \<and> fs_durable f' name = Some bytes) \<and>
    (fs_script f = [] \<and> length bytes \<le> streamoff_max \<longrightarrow> r = Inr ())"
proof -
  let ?tmp = "name @ ''.tmp''"
  have ne: "?tmp \<noteq> name" by simp
  obtain r1 f1 where 1: "ofstream_open ?tmp f = (r1, f1)" by force
  note o = ofstream_open_effect[OF 1]
  have keep: "touches {name, ?tmp} f g \<and> fs_file g name = fs_file f name"
    if "touches {?tmp} f g" for g
    using that ne by (auto simp: touches_def)
  show ?thesis
  proof (cases "r1 = Inr True \<and> length bytes \<le> streamoff_max")
    case False
    then show ?thesis
      using assms 1 o keep[of f1]
      by (cases r1) (auto simp: atomic_write_file_def Let_def act_bind_cases split: if_splits)
  next
    case True
    obtain r2 f2 where 2: "ofstream_write_close ?tmp bytes f1 = (r2, f2)" by force
    obtain w g where w: "sys_write ?tmp bytes f1 = (w, g)" by force
    have f2: "f2 = g" and r2: "r2 = Inr True \<Longrightarrow> w = Ret (length bytes)"
        "w = Ret (length bytes) \<Longrightarrow> r2 = Inr True"
      using 2 w by (cases w; auto simp: ofstream_write_close_def)+
    note e = sys_write_effect[OF w]
    have q1: "fs_script f = [] \<Longrightarrow> fs_script f1 = []" and q2: "fs_script f = [] \<Longrightarrow> fs_script f2 = []"
      using o e by (auto simp: touches_def f2)
    have t2: "touches {?tmp} f f2"
      using touches_trans[of "{?tmp}" f f1 "{?tmp}" f2] o e by (simp add: f2)
    note k2 = keep[OF t2]
    show ?thesis
    proof (cases "r2 = Inr True")
      case False
      then show ?thesis
        using assms 1 2 True k2 e q1 r2(2)
        by (cases r2) (auto simp: atomic_write_file_def Let_def act_bind_cases not_less[symmetric] split: if_splits)
    next
      case good: True
      have tmp: "fs_file f2 ?tmp = Some bytes" using e o True r2(1)[OF good] by (simp add: f2)
      have "act_bind (sync_file ?tmp) (\<lambda>_. replace_file ?tmp name) f2 = (r, f')"
        using assms 1 2 True good
        by (auto simp: atomic_write_file_def Let_def act_bind_cases split: if_splits)
      note p = publish_temporary[OF this ne tmp]
      then have "touches {name, ?tmp} f f'" using touches_trans[of "{name, ?tmp}" f f2 "{name, ?tmp}" f'] k2 by simp
      then show ?thesis using p k2 q2 by auto
    qed
  qed
qed

end
