(* ===== verification/WalFile.thy ===== *)
theory WalFile
  imports WalReplay FileIo
begin

text \<open>
  The append-only log writer of \<^verbatim>\<open>src/internal/wal_file.hpp\<close> and \<^verbatim>\<open>src/wal_file.cpp\<close>, in its
  POSIX variant, and the repair of a torn tail of \<^verbatim>\<open>src/wal_recovery.cpp\<close>.  The state of an
  operation is the writer together with the file system.
\<close>

section \<open>The writer\<close>

datatype WalDurability = buffered | sync_on_append

record WalWriter =
  ww_path :: string
  ww_open :: bool
  ww_durability :: WalDurability
  ww_size_bytes :: u64
  ww_failed :: bool

text \<open>\<^verbatim>\<open>write_all\<close>: short writes and interrupted calls are continued, other errors thrown.\<close>

lemma sys_write_Eintr: "sys_write name bytes f = (Eintr, f') \<Longrightarrow> length (fs_script f') < length (fs_script f)"
  by (auto simp: sys_write_def Let_def split: prod.splits os_outcome.splits dest: next_outcome_fields)

lemma sys_write_Ret:
  "sys_write name bytes f = (Ret n, f') \<Longrightarrow>
     n \<le> length bytes \<and> length (fs_script f') \<le> length (fs_script f)"
  by (auto simp: sys_write_def Let_def split: prod.splits os_outcome.splits dest: next_outcome_fields)

function write_all :: "string \<Rightarrow> byte list \<Rightarrow> (fs, unit) act" where
  "write_all path bytes f =
     (if bytes = [] then (Inr (), f)
      else case sys_write path bytes f of
             (Eintr, f) \<Rightarrow> write_all path bytes f
           | (Errno, f) \<Rightarrow> (Inl (SystemError ''failed to append WAL''), f)
           | (Died, f) \<Rightarrow> (Inl Crashed, f)
           | (Ret written, f) \<Rightarrow>
               if written = 0 then (Inl (RuntimeError ''zero-byte write while appending WAL''), f)
               else write_all path (drop written bytes) f)"
  by pat_completeness auto
termination
  by (relation "measure (\<lambda>(path, bytes, f). length bytes + length (fs_script f))")
    (auto dest: sys_write_Eintr[OF sym] sys_write_Ret[OF sym])

declare write_all.simps [simp del]

definition synchronize_file :: "string \<Rightarrow> fs \<Rightarrow> sysret \<times> fs" where
  "synchronize_file path f = eintr_retry (sync_effect path) f"

definition truncate_file :: "string \<Rightarrow> fs \<Rightarrow> sysret \<times> fs" where
  "truncate_file path f = eintr_retry (\<lambda>f. fs_write path [] f) f"

text \<open>\<^verbatim>\<open>lseek\<close> to the end of the file.\<close>

definition find_file_end :: "string \<Rightarrow> (fs, u64) act" where
  "find_file_end path f =
     (case sys_atomic (\<lambda>f. f) f of
        (Ret _, f) \<Rightarrow> (Inr (of_nat (length (the (fs_file f path)))), f)
      | (Died, f) \<Rightarrow> (Inl Crashed, f)
      | (_, f) \<Rightarrow> (Inl (SystemError ''failed to inspect WAL''), f))"

definition open_wal :: "string \<Rightarrow> WalDurability \<Rightarrow> (fs, WalWriter) act" where
  "open_wal path durability f =
     (case sys_open_append path f of
        (Died, f) \<Rightarrow> (Inl Crashed, f)
      | (Ret _, f) \<Rightarrow>
          act_bind (find_file_end path) (\<lambda>n. act_return
            \<lparr>ww_path = path, ww_open = True, ww_durability = durability, ww_size_bytes = n,
             ww_failed = False\<rparr>) f
      | (_, f) \<Rightarrow> (Inl (SystemError ''failed to open WAL''), f))"

definition wal_ensure_usable :: "WalWriter \<Rightarrow> unit result" where
  "wal_ensure_usable w =
     (if \<not> ww_open w then Inl (LogicError ''WAL writer is closed'')
      else if ww_failed w then Inl (RuntimeError ''WAL writer is in a failed state'')
      else Inr ())"

definition wal_fail :: "WalWriter \<times> fs \<Rightarrow> WalWriter \<times> fs" where
  "wal_fail s = ((fst s)\<lparr>ww_failed := True\<rparr>, snd s)"

definition wal_sync :: "(WalWriter \<times> fs, unit) act" where
  "wal_sync s =
     (case wal_ensure_usable (fst s) of
        Inl e \<Rightarrow> (Inl e, s)
      | Inr _ \<Rightarrow>
          (case synchronize_file (ww_path (fst s)) (snd s) of
             (Ret _, f) \<Rightarrow> (Inr (), (fst s, f))
           | (Died, f) \<Rightarrow> (Inl Crashed, (fst s, f))
           | (_, f) \<Rightarrow> (Inl (SystemError ''failed to synchronize WAL''), wal_fail (fst s, f))))"

definition wal_append :: "WalPutRecord \<Rightarrow> (WalWriter \<times> fs, unit) act" where
  "wal_append r s =
     (case wal_ensure_usable (fst s) of
        Inl e \<Rightarrow> (Inl e, s)
      | Inr _ \<Rightarrow>
          (case encode_wal_record r of
             Inl e \<Rightarrow> (Inl e, s)
           | Inr encoded \<Rightarrow>
               let encoded_size = of_nat (length encoded) :: u64
               in if encoded_size > 0xFFFFFFFFFFFFFFFF - ww_size_bytes (fst s)
                  then (Inl (LengthError ''WAL size would overflow''), s)
                  else act_on_error
                    (\<lambda>s. case write_all (ww_path (fst s)) encoded (snd s) of
                           (Inl e, f) \<Rightarrow> (Inl e, (fst s, f))
                         | (Inr _, f) \<Rightarrow>
                             let w = (fst s)\<lparr>ww_size_bytes := ww_size_bytes (fst s) + encoded_size\<rparr>
                             in if ww_durability w = sync_on_append then wal_sync (w, f)
                                else (Inr (), (w, f)))
                    wal_fail s))"

definition wal_reset :: "(WalWriter \<times> fs, unit) act" where
  "wal_reset s =
     (case wal_ensure_usable (fst s) of
        Inl e \<Rightarrow> (Inl e, s)
      | Inr _ \<Rightarrow>
          (case truncate_file (ww_path (fst s)) (snd s) of
             (Died, f) \<Rightarrow> (Inl Crashed, (fst s, f))
           | (Ret _, f) \<Rightarrow>
               (case synchronize_file (ww_path (fst s)) f of
                  (Ret _, f) \<Rightarrow> (Inr (), ((fst s)\<lparr>ww_size_bytes := 0\<rparr>, f))
                | (Died, f) \<Rightarrow> (Inl Crashed, (fst s, f))
                | (_, f) \<Rightarrow> (Inl (SystemError ''failed to reset WAL''), wal_fail (fst s, f)))
           | (_, f) \<Rightarrow> (Inl (SystemError ''failed to reset WAL''), wal_fail (fst s, f))))"

section \<open>Replay and repair of a log file\<close>

text \<open>\<^verbatim>\<open>replay_wal\<close> with the opening of the stream.\<close>

definition replay_wal_file ::
  "string \<Rightarrow> 's replay_callback \<Rightarrow> fs \<Rightarrow> 's \<Rightarrow> (WalReplayResult \<times> 's) result" where
  "replay_wal_file path replay f s =
     (case fs_file f path of
        None \<Rightarrow> Inl (SystemError ''failed to read WAL'')
      | Some content \<Rightarrow>
          if fs_fault f path = Some OpenFails then Inl (SystemError ''failed to read WAL'')
          else replay_wal replay
                 \<lparr>is_rest = content,
                  is_good_reads = (case fs_fault f path of Some (ReadFails n) \<Rightarrow> Some n | _ \<Rightarrow> None)\<rparr> s)"

definition repair_wal_tail :: "string \<Rightarrow> WalReplayResult \<Rightarrow> (fs, unit) act" where
  "repair_wal_tail path res f =
     (if \<not> had_incomplete_tail res then (Inr (), f)
      else if incomplete_tail_bytes res > 0xFFFFFFFFFFFFFFFF - valid_bytes res
      then (Inl (OverflowError ''recovered WAL size would overflow''), f)
      else let expected_file_size = valid_bytes res + incomplete_tail_bytes res
      in case std_file_size path f of
           None \<Rightarrow> (Inl (SystemError ''failed to inspect WAL before repair''), f)
         | Some current_file_size \<Rightarrow>
             if current_file_size \<noteq> unat expected_file_size
             then (Inl (RuntimeError ''WAL changed after recovery''), f)
             else (case sys_ftruncate path (unat (valid_bytes res)) f of
                     (Died, f) \<Rightarrow> (Inl Crashed, f)
                   | (Ret _, f) \<Rightarrow>
                       act_bind (open_wal path buffered) (\<lambda>w f.
                         if ww_size_bytes w \<noteq> valid_bytes res
                         then (Inl (RuntimeError ''WAL size mismatch after repair''), f)
                         else (case wal_sync (w, f) of (r, s) \<Rightarrow> (r, snd s))) f
                   | (_, f) \<Rightarrow> (Inl (SystemError ''failed to truncate WAL''), f)))"

section \<open>Appending\<close>

lemma sys_write_Eintr_file: "sys_write name bytes f = (Eintr, f') \<Longrightarrow> fs_file f' = fs_file f"
  by (auto simp: sys_write_def Let_def later_fields(1) split: prod.splits os_outcome.splits
      dest!: next_outcome_later)

lemma write_all_effect:
  assumes "write_all path bytes f = (r, f')" "fs_file f path = Some c"
  shows "touches {path} f f' \<and> fs_durable f' = fs_durable f \<and>
    (\<exists>n\<le>length bytes. fs_file f' path = Some (c @ take n bytes) \<and> (r = Inr () \<longrightarrow> n = length bytes)) \<and>
    (fs_script f = [] \<longrightarrow> r = Inr ())"
  using assms
proof (induction path bytes f arbitrary: c rule: write_all.induct)
  case (1 path bytes f)
  show ?case
  proof (cases "bytes = []")
    case True
    then show ?thesis using "1.prems" by (auto simp: write_all.simps)
  next
    case ne: False
    obtain w g where w: "sys_write path bytes f = (w, g)" by force
    note e = sys_write_effect[OF w]
    obtain n0 where n0: "fs_file g path = Some (c @ take n0 bytes)"
      using e "1.prems"(2) by (metis append_Nil2 option.sel take_0)
    then have part: "\<exists>n\<le>length bytes. fs_file g path = Some (c @ take n bytes)"
      by (intro exI[of _ "min n0 (length bytes)"]) (auto simp: min_def)
    show ?thesis
    proof (cases w)
      case (Ret n)
      then have g: "n \<le> length bytes" "fs_file g path = Some (c @ take n bytes)" using e "1.prems"(2) by auto
      show ?thesis
      proof (cases "n = 0")
        case True
        then show ?thesis
          using "1.prems" ne w Ret e part by (auto simp: write_all.simps[of path bytes f])
      next
        case False
        have rec: "write_all path (drop n bytes) g = (r, f')"
          using "1.prems"(1) ne w Ret False by (simp add: write_all.simps[of path bytes f])
        from "1.IH"(1)[OF ne w[unfolded Ret, symmetric] refl False rec g(2)] obtain m where
          m: "m \<le> length bytes - n" "fs_file f' path = Some ((c @ take n bytes) @ take m (drop n bytes))"
            "r = Inr () \<longrightarrow> m = length bytes - n" and t: "touches {path} g f'" "fs_durable f' = fs_durable g"
            "fs_script g = [] \<longrightarrow> r = Inr ()"
          by auto
        have "touches {path} f f'" using touches_trans[of "{path}" f g "{path}" f'] e t by simp
        moreover have "fs_script f = [] \<Longrightarrow> fs_script g = []" using e by (simp add: touches_def)
        moreover have "fs_file f' path = Some (c @ take (n + m) bytes)" using m(2) by (simp add: take_add)
        ultimately show ?thesis
          using m(1,3) g(1) t e by (intro conjI exI[of _ "n + m"]) auto
      qed
    next
      case Eintr
      have rec: "write_all path bytes g = (r, f')"
        using "1.prems"(1) ne w Eintr by (simp add: write_all.simps[of path bytes f])
      have file_g: "fs_file g path = Some c"
        using sys_write_Eintr_file[OF w[unfolded Eintr]] "1.prems"(2) by simp
      have "fs_script f \<noteq> []" using e Eintr by auto
      with "1.IH"(2)[OF ne w[unfolded Eintr, symmetric] refl rec file_g] e show ?thesis
        using touches_trans[of "{path}" f g "{path}" f'] by auto
    qed (use "1.prems" ne w e part in \<open>auto simp: write_all.simps[of path bytes f]\<close>)
  qed
qed

section \<open>The log\<close>

definition log_bytes :: "WalPutRecord list \<Rightarrow> byte list" where
  "log_bytes recs = concat (map wal_record_bytes recs)"

lemma log_bytes_simps [simp]:
  "log_bytes [] = []" "log_bytes (r # rs) = wal_record_bytes r @ log_bytes rs"
  "log_bytes (rs @ qs) = log_bytes rs @ log_bytes qs"
  by (simp_all add: log_bytes_def)

text \<open>A usable writer on a file that holds exactly the records \<open>recs\<close>.\<close>

definition log_holds :: "WalWriter \<times> fs \<Rightarrow> WalPutRecord list \<Rightarrow> bool" where
  "log_holds s recs \<longleftrightarrow>
     ww_open (fst s) \<and> \<not> ww_failed (fst s) \<and> list_all record_ok recs \<and>
     fs_file (snd s) (ww_path (fst s)) = Some (log_bytes recs) \<and>
     ww_size_bytes (fst s) = of_nat (length (log_bytes recs)) \<and> length (log_bytes recs) < 2 ^ 64"

text \<open>What no operation of the writer changes.\<close>

definition same_writer :: "WalWriter \<Rightarrow> WalWriter \<Rightarrow> bool" where
  "same_writer w w' \<longleftrightarrow> ww_path w' = ww_path w \<and> ww_durability w' = ww_durability w \<and> ww_open w' = ww_open w"

lemma synchronize_file_effect:
  assumes "synchronize_file path f = (r, f')"
  shows "keeps_files f f' \<and> r \<noteq> Eintr \<and> (\<forall>n. r = Ret n \<longrightarrow> fs_durable f' path = fs_file f path) \<and>
    (fs_script f = [] \<longrightarrow> r = Ret 0)"
proof -
  obtain g where g: "later f g" "f' = g \<or> f' = sync_effect path g" "\<forall>n. r = Ret n \<longrightarrow> f' = sync_effect path g"
      "r \<noteq> Eintr" "fs_script f = [] \<longrightarrow> r = Ret 0"
    using eintr_retry_cases[OF assms[unfolded synchronize_file_def]] by blast
  have "keeps_files f f'"
    using g(1,2) keeps_files_later[of f g] keeps_files_trans[OF _ sync_effects_keep(1)] by blast
  with g show ?thesis by (auto simp: sync_effect_def later_fields)
qed

lemma truncate_file_effect:
  assumes "truncate_file path f = (r, f')"
  shows "touches {path} f f' \<and> r \<noteq> Eintr \<and> (fs_file f' path = fs_file f path \<or> fs_file f' path = Some []) \<and>
    (\<forall>n. r = Ret n \<longrightarrow> fs_file f' path = Some []) \<and> (fs_script f = [] \<longrightarrow> r = Ret 0)"
proof -
  obtain g where g: "later f g" "f' = g \<or> f' = fs_write path [] g" "\<forall>n. r = Ret n \<longrightarrow> f' = fs_write path [] g"
      "r \<noteq> Eintr" "fs_script f = [] \<longrightarrow> r = Ret 0"
    using eintr_retry_cases[OF assms[unfolded truncate_file_def]] by blast
  have "touches {path} f f'"
    using g(1,2) touches_later[of f g] touches_trans[OF touches_later[of f g "{}"] touches_write[of path g "[]"]]
    by auto
  with g show ?thesis by (auto simp: later_fields)
qed

lemma wal_sync_effect:
  assumes "wal_sync (w, f) = (r, (w', f'))"
  shows "keeps_files f f' \<and> same_writer w w' \<and>
    (r = Inr () \<longrightarrow> w' = w \<and> fs_durable f' (ww_path w) = fs_file f (ww_path w)) \<and>
    (fs_script f = [] \<and> ww_open w \<and> \<not> ww_failed w \<longrightarrow> r = Inr ())"
proof -
  obtain r1 f1 where 1: "synchronize_file (ww_path w) f = (r1, f1)" by force
  show ?thesis
    using assms 1 synchronize_file_effect[OF 1]
    by (cases r1) (auto simp: wal_sync_def wal_ensure_usable_def wal_fail_def same_writer_def keeps_files_def
        split: if_splits)
qed

lemma unat_max_minus: "unat (0xFFFFFFFFFFFFFFFF - b :: u64) = 2 ^ 64 - 1 - unat b"
proof -
  have m: "unat (0xFFFFFFFFFFFFFFFF :: u64) = 2 ^ 64 - 1" by simp
  have "b \<le> 0xFFFFFFFFFFFFFFFF" unfolding word_le_nat_alt m using unat_u64_less[of b] by linarith
  from unat_sub[OF this] show ?thesis unfolding m .
qed

lemma unat_u64_room: "(a :: u64) \<le> 0xFFFFFFFFFFFFFFFF - b \<longleftrightarrow> unat a + unat b < 2 ^ 64"
  unfolding word_le_nat_alt unat_max_minus using unat_u64_less[of b] by linarith

lemma append_outcome:
  assumes log: "log_holds (w, f) recs" and r: "record_ok r"
    and size: "length (log_bytes recs) + length (wal_record_bytes r) < 2 ^ 64"
    and run: "(case write_all (ww_path w) (wal_record_bytes r) f of
         (Inl e, f) \<Rightarrow> (Inl e, (w, f))
       | (Inr _, f) \<Rightarrow>
           let w = w\<lparr>ww_size_bytes := ww_size_bytes w + of_nat (length (wal_record_bytes r))\<rparr>
           in if ww_durability w = sync_on_append then wal_sync (w, f) else (Inr (), (w, f))) = (res, (w', f'))"
  shows "touches {ww_path w} f f' \<and> same_writer w w' \<and>
    (\<exists>n\<le>length (wal_record_bytes r). fs_file f' (ww_path w) = Some (log_bytes recs @ take n (wal_record_bytes r))) \<and>
    (res = Inr () \<longrightarrow> log_holds (w', f') (recs @ [r]) \<and>
       (ww_durability w = sync_on_append \<longrightarrow> fs_durable f' (ww_path w) = Some (log_bytes (recs @ [r])))) \<and>
    (fs_script f = [] \<longrightarrow> res = Inr ())"
proof -
  have c: "fs_file f (ww_path w) = Some (log_bytes recs)" using log by (simp add: log_holds_def)
  obtain r1 f1 where 1: "write_all (ww_path w) (wal_record_bytes r) f = (r1, f1)" by force
  note e = write_all_effect[OF 1 c]
  show ?thesis
  proof (cases r1)
    case (Inl x)
    then show ?thesis using run 1 e by (auto simp: same_writer_def)
  next
    case (Inr u)
    let ?w = "w\<lparr>ww_size_bytes := ww_size_bytes w + of_nat (length (wal_record_bytes r))\<rparr>"
    have f1: "fs_file f1 (ww_path w) = Some (log_bytes (recs @ [r]))" using e Inr by auto
    have holds: "log_holds (?w, f1) (recs @ [r])"
      using log r size f1 by (simp add: log_holds_def)
    have q: "fs_script f = [] \<Longrightarrow> fs_script f1 = []" using e by (simp add: touches_def)
    show ?thesis
    proof (cases "ww_durability w = sync_on_append")
      case True
      then have s: "wal_sync (?w, f1) = (res, (w', f'))" using run 1 Inr by (simp add: Let_def)
      note k = wal_sync_effect[OF s]
      have "fs_file f' = fs_file f1" using k keeps_filesD by blast
      moreover have "touches {ww_path w} f f'"
        using touches_trans[of "{ww_path w}" f f1 "{}" f'] e k by (simp add: keeps_files_def)
      ultimately show ?thesis
        using k f1 holds q log by (auto simp: same_writer_def log_holds_def intro: exI[of _ "length (wal_record_bytes r)"])
    next
      case False
      then have "res = Inr ()" "w' = ?w" "f' = f1" using run 1 Inr by (auto simp: Let_def)
      with e f1 holds False show ?thesis
        by (auto simp: same_writer_def intro: exI[of _ "length (wal_record_bytes r)"])
    qed
  qed
qed

lemma wal_append_effect:
  assumes log: "log_holds (w, f) recs" and r: "record_wf r" and run: "wal_append r (w, f) = (res, (w', f'))"
  shows "touches {ww_path w} f f' \<and> same_writer w w' \<and>
    (\<exists>n\<le>length (wal_record_bytes r). fs_file f' (ww_path w) = Some (log_bytes recs @ take n (wal_record_bytes r)) \<and>
       (n = 0 \<or> record_ok r \<and> length (log_bytes recs) + length (wal_record_bytes r) < 2 ^ 64)) \<and>
    (res = Inr () \<longrightarrow> log_holds (w', f') (recs @ [r]) \<and>
       (ww_durability w = sync_on_append \<longrightarrow> fs_durable f' (ww_path w) = Some (log_bytes (recs @ [r])))) \<and>
    (fs_script f = [] \<and> record_fits r \<and> length (log_bytes (recs @ [r])) < 2 ^ 64 \<longrightarrow> res = Inr ())"
proof -
  have c: "fs_file f (ww_path w) = Some (log_bytes recs)" and u: "wal_ensure_usable w = Inr ()"
    and sz: "ww_size_bytes w = of_nat (length (log_bytes recs))" "length (log_bytes recs) < 2 ^ 64"
    using log by (auto simp: log_holds_def wal_ensure_usable_def)
  let ?n = "length (wal_record_bytes r)"
  show ?thesis
  proof (cases "record_fits r \<and> \<not> (of_nat ?n :: u64) > 0xFFFFFFFFFFFFFFFF - ww_size_bytes w")
    case False
    then obtain e where e: "res = Inl e" "w' = w" "f' = f"
      using run u encode_wal_record_Inr[of r "wal_record_bytes r"] encode_wal_record_error[of r]
      by (cases "record_fits r") (auto simp: wal_append_def Let_def)
    have "\<not> length (log_bytes (recs @ [r])) < 2 ^ 64" if fit: "record_fits r"
    proof
      assume lt: "length (log_bytes (recs @ [r])) < 2 ^ 64"
      have un: "unat (ww_size_bytes w) = length (log_bytes recs)" "unat (of_nat ?n :: u64) = ?n"
        using lt by (simp_all add: sz(1) unat_of_nat_u64)
      have "of_nat ?n \<le> 0xFFFFFFFFFFFFFFFF - ww_size_bytes w"
        unfolding unat_u64_room un using lt by simp
      with False fit show False by simp
    qed
    with e c show ?thesis by (auto simp: same_writer_def intro: exI[of _ 0])
  next
    case True
    have ok: "record_ok r" using True r by (simp add: record_ok_def)
    have n: "unat (of_nat ?n :: u64) = ?n"
      using True by (intro unat_of_nat_u64) (simp add: wal_record_bytes_def record_fits_def max_payload_size_def)
    have room: "length (log_bytes recs) + ?n < 2 ^ 64"
    proof -
      have "(of_nat ?n :: u64) \<le> 0xFFFFFFFFFFFFFFFF - ww_size_bytes w" using True by (simp only: not_less)
      then have "?n + length (log_bytes recs) < 2 ^ 64"
        unfolding unat_u64_room n sz(1) unat_of_nat_u64[OF sz(2)] .
      then show ?thesis by linarith
    qed
    have enc: "encode_wal_record r = Inr (wal_record_bytes r)" using True by (simp add: encode_wal_record_Inr)
    let ?body = "\<lambda>s. case write_all (ww_path (fst s)) (wal_record_bytes r) (snd s) of
         (Inl e, f) \<Rightarrow> (Inl e, (fst s, f))
       | (Inr _, f) \<Rightarrow>
           let w = (fst s)\<lparr>ww_size_bytes := ww_size_bytes (fst s) + of_nat ?n\<rparr>
           in if ww_durability w = sync_on_append then wal_sync (w, f) else (Inr (), (w, f))"
    obtain res1 w1 f1 where b: "?body (w, f) = (res1, (w1, f1))"
      by (rule prod_cases3[of "?body (w, f)"])
    note o = append_outcome[OF log ok room b[unfolded fst_conv snd_conv]]
    have "wal_append r (w, f) = act_on_error ?body wal_fail (w, f)"
      using True unfolding wal_append_def fst_conv u enc Let_def by (simp only: sum.case if_False)
    then have "act_on_error ?body wal_fail (w, f) = (res, (w', f'))" using run by simp
    then have "res = res1 \<and> f' = f1 \<and> same_writer w1 w' \<and> (res = Inr () \<longrightarrow> w' = w1)"
      unfolding act_on_error_def b by (cases res1) (auto simp: wal_fail_def same_writer_def split: if_splits)
    with o ok room show ?thesis by (auto simp: same_writer_def)
  qed
qed

lemma wal_reset_effect:
  assumes log: "log_holds (w, f) recs" and run: "wal_reset (w, f) = (res, (w', f'))"
  shows "touches {ww_path w} f f' \<and> same_writer w w' \<and>
    (fs_file f' (ww_path w) = Some (log_bytes recs) \<or> fs_file f' (ww_path w) = Some []) \<and>
    (res = Inr () \<longrightarrow> log_holds (w', f') [] \<and> fs_durable f' (ww_path w) = Some []) \<and>
    (fs_script f = [] \<longrightarrow> res = Inr ())"
proof -
  have u: "wal_ensure_usable w = Inr ()" and c: "fs_file f (ww_path w) = Some (log_bytes recs)"
    using log by (auto simp: log_holds_def wal_ensure_usable_def)
  obtain r1 f1 where 1: "truncate_file (ww_path w) f = (r1, f1)" by force
  note e1 = truncate_file_effect[OF 1]
  show ?thesis
  proof (cases r1)
    case (Ret n)
    obtain r2 f2 where 2: "synchronize_file (ww_path w) f1 = (r2, f2)" by force
    note e2 = synchronize_file_effect[OF 2]
    have f2: "fs_file f2 (ww_path w) = Some []" using e1 e2 Ret keeps_filesD[of f1 f2] by auto
    have t: "touches {ww_path w} f f2"
      using touches_trans[of "{ww_path w}" f f1 "{}" f2] e1 e2 by (simp add: keeps_files_def)
    have q: "fs_script f = [] \<Longrightarrow> fs_script f1 = []" using e1 by (simp add: touches_def)
    show ?thesis
      using run u 1 2 Ret e1 e2 f2 t q log
      by (cases r2) (auto simp: wal_reset_def wal_fail_def same_writer_def log_holds_def)
  qed (use run u 1 e1 c in \<open>auto simp: wal_reset_def wal_fail_def same_writer_def\<close>)
qed

lemma find_file_end_effect:
  assumes "find_file_end path f = (r, f')"
  shows "later f f' \<and> (\<forall>n. r = Inr n \<longrightarrow> n = of_nat (length (the (fs_file f path)))) \<and>
    (fs_script f = [] \<longrightarrow> (\<exists>n. r = Inr n))"
proof -
  obtain r1 f1 where 1: "sys_atomic (\<lambda>f. f) f = (r1, f1)" by force
  from sys_atomic_cases[OF 1] have "later f f1" "fs_script f = [] \<longrightarrow> r1 = Ret 0" by auto
  then show ?thesis
    using assms 1 by (cases r1) (auto simp: find_file_end_def later_fields)
qed

text \<open>The contents of a log file that opening it leaves: an absent file is created.\<close>

definition opened_content :: "byte list option \<Rightarrow> byte list" where
  "opened_content c = (case c of None \<Rightarrow> [] | Some b \<Rightarrow> b)"

lemma open_wal_effect:
  assumes "open_wal path d f = (r, f')"
  shows "touches {path} f f' \<and>
    (fs_file f' path = fs_file f path \<or> fs_file f' path = Some (opened_content (fs_file f path))) \<and>
    (\<forall>w. r = Inr w \<longrightarrow> fs_file f' path = Some (opened_content (fs_file f path)) \<and>
       w = \<lparr>ww_path = path, ww_open = True, ww_durability = d,
            ww_size_bytes = of_nat (length (opened_content (fs_file f path))), ww_failed = False\<rparr>) \<and>
    (fs_script f = [] \<longrightarrow> (\<exists>w. r = Inr w))"
proof -
  let ?eff = "\<lambda>f. if fs_file f path = None then fs_write path [] f else f"
  obtain r1 f1 where 1: "sys_open_append path f = (r1, f1)" by force
  obtain g where g: "later f g" "f1 = g \<or> f1 = ?eff g" "\<forall>n. r1 = Ret n \<longrightarrow> f1 = ?eff g"
      "fs_script f = [] \<longrightarrow> r1 = Ret 0"
    using sys_atomic_cases[OF 1[unfolded sys_open_append_def]] by blast
  have t: "touches {path} f f1"
    using g(1,2) touches_later[of f g] touches_trans[OF touches_later[of f g "{}"] touches_write[of path g "[]"]]
    by (auto split: if_splits)
  have c: "fs_file f1 path = fs_file f path \<or> fs_file f1 path = Some (opened_content (fs_file f path))"
    using g(1,2) by (auto simp: later_fields opened_content_def split: option.splits if_splits)
  show ?thesis
  proof (cases r1)
    case (Ret n)
    have c1: "fs_file f1 path = Some (opened_content (fs_file f path))"
      using g(1,3) Ret by (auto simp: later_fields opened_content_def split: option.splits)
    obtain r2 f2 where 2: "find_file_end path f1 = (r2, f2)" by force
    note e2 = find_file_end_effect[OF 2]
    have t2: "touches {path} f f2" "fs_file f2 = fs_file f1"
      using touches_trans[OF t touches_later[of f1 f2 "{}"]] e2 by (auto simp: later_fields)
    have q: "fs_script f = [] \<Longrightarrow> fs_script f1 = []" using t by (simp add: touches_def)
    show ?thesis
      using assms 1 Ret 2 e2 t2 c1 q
      by (cases r2) (auto simp: open_wal_def act_bind_cases)
  qed (use assms 1 t c g(4) in \<open>auto simp: open_wal_def\<close>)
qed

text \<open>The last steps of a repair: the truncated log is opened and synchronised.\<close>

lemma reopen_repaired:
  assumes c: "fs_file f path = Some good"
    and run: "act_bind (open_wal path buffered) (\<lambda>w f.
        if ww_size_bytes w \<noteq> of_nat (length good) then (Inl (RuntimeError ''WAL size mismatch after repair''), f)
        else (case wal_sync (w, f) of (r, s) \<Rightarrow> (r, snd s))) f = (r, f')"
  shows "touches {path} f f' \<and> fs_file f' path = Some good \<and> (fs_script f = [] \<and> readable f path \<longrightarrow> r = Inr ())"
proof -
  obtain r2 f2 where 2: "open_wal path buffered f = (r2, f2)" by force
  note e2 = open_wal_effect[OF 2]
  have f2: "fs_file f2 path = Some good" and t2: "touches {path} f f2" using e2 c by (auto simp: opened_content_def)
  have q: "fs_script f = [] \<Longrightarrow> fs_script f2 = []" using t2 by (simp add: touches_def)
  show ?thesis
  proof (cases r2)
    case (Inl e)
    then show ?thesis using run 2 t2 f2 e2 by (auto simp: act_bind_cases)
  next
    case (Inr w)
    have w: "ww_size_bytes w = of_nat (length good)" "ww_path w = path" "ww_open w" "\<not> ww_failed w"
      using e2 Inr c by (auto simp: opened_content_def)
    obtain r3 w3 f3 where 3: "wal_sync (w, f2) = (r3, (w3, f3))" by (metis surj_pair)
    note e3 = wal_sync_effect[OF 3]
    have "r = r3" "f' = f3" using run 2 Inr 3 w(1) by (simp_all add: act_bind_cases)
    moreover have "touches {path} f f3"
      using touches_trans[OF t2, of "{}" f3] e3 by (simp add: keeps_files_def)
    moreover have "fs_file f3 path = Some good" using e3 f2 keeps_filesD[of f2 f3] by simp
    ultimately show ?thesis using e3 w q by auto
  qed
qed

text \<open>The repair of a log whose good part is \<open>good\<close> and whose torn tail is \<open>torn\<close>.\<close>

lemma repair_wal_tail_effect:
  assumes run: "repair_wal_tail path \<lparr>records_replayed = k, valid_bytes = of_nat (length good),
      incomplete_tail_bytes = of_nat (length torn)\<rparr> f = (r, f')"
    and c: "fs_file f path = Some (good @ torn)" and len: "length (good @ torn) < 2 ^ 64"
  shows "touches {path} f f' \<and> (fs_file f' path = Some (good @ torn) \<or> fs_file f' path = Some good) \<and>
    (r = Inr () \<longrightarrow> fs_file f' path = Some good) \<and>
    (fs_script f = [] \<and> readable f path \<longrightarrow> r = Inr ())"
proof (cases "torn = []")
  case True
  then show ?thesis using run c by (auto simp: repair_wal_tail_def had_incomplete_tail_def)
next
  case ne: False
  let ?res = "\<lparr>records_replayed = k, valid_bytes = of_nat (length good),
      incomplete_tail_bytes = of_nat (length torn)\<rparr> :: WalReplayResult"
  have un: "unat (of_nat (length good) :: u64) = length good" "unat (of_nat (length torn) :: u64) = length torn"
    "unat (of_nat (length good) + of_nat (length torn) :: u64) = length (good @ torn)"
    using len unat_of_nat_u64[of "length (good @ torn)"] by (simp_all add: unat_of_nat_u64)
  have tail: "had_incomplete_tail ?res"
    using ne un(2) by (auto simp: had_incomplete_tail_def)
  have room: "\<not> (of_nat (length torn) :: u64) > 0xFFFFFFFFFFFFFFFF - of_nat (length good)"
    unfolding not_less unat_u64_room un using len by simp
  show ?thesis
  proof (cases "std_file_size path f")
    case None
    then show ?thesis
      using run c tail room by (auto simp: repair_wal_tail_def std_file_size_def readable_def split: if_splits)
  next
    case (Some n)
    then have n: "n = length (good @ torn)" using c by (auto simp: std_file_size_def split: if_splits)
    let ?eff = "\<lambda>f. fs_write path (take (length good) (the (fs_file f path))) f"
    obtain r1 f1 where 1: "sys_ftruncate path (length good) f = (r1, f1)" by force
    obtain g where g: "later f g" "f1 = g \<or> f1 = ?eff g" "\<forall>m. r1 = Ret m \<longrightarrow> f1 = ?eff g"
        "fs_script f = [] \<longrightarrow> r1 = Ret 0"
      using sys_atomic_cases[OF 1[unfolded sys_ftruncate_def]] by blast
    have t: "touches {path} f f1"
      using g(1,2) touches_later[of f g] touches_trans[OF touches_later[of f g "{}"] touches_write[of path g]]
      by auto
    have c1: "fs_file f1 path = Some (good @ torn) \<or> fs_file f1 path = Some good"
      using g(1,2) c by (auto simp: later_fields)
    have body: "(r, f') = (case (r1, f1) of
          (Died, f) \<Rightarrow> (Inl Crashed, f)
        | (Ret _, f) \<Rightarrow>
            act_bind (open_wal path buffered) (\<lambda>w f.
              if ww_size_bytes w \<noteq> valid_bytes ?res
              then (Inl (RuntimeError ''WAL size mismatch after repair''), f)
              else (case wal_sync (w, f) of (r, s) \<Rightarrow> (r, snd s))) f
        | (_, f) \<Rightarrow> (Inl (SystemError ''failed to truncate WAL''), f))"
      using run tail room Some n un(1,3) 1 by (simp add: repair_wal_tail_def Let_def)
    show ?thesis
    proof (cases r1)
      case (Ret m)
      have good: "fs_file f1 path = Some good" using g(1,3) c Ret by (auto simp: later_fields)
      have "touches {path} f1 f' \<and> fs_file f' path = Some good \<and> (fs_script f1 = [] \<and> readable f1 path \<longrightarrow> r = Inr ())"
        by (rule reopen_repaired[OF good]) (use body Ret in simp)
      moreover have "fs_script f = [] \<Longrightarrow> fs_script f1 = []" "readable f path \<Longrightarrow> readable f1 path"
        using t by (simp_all add: touches_def readable_def)
      ultimately show ?thesis using touches_trans[OF t, of "{path}" f'] by auto
    qed (use body t c1 g(4) in auto)
  qed
qed

lemma replay_wal_file_readable:
  assumes "fs_file f path = Some c" "readable f path"
  shows "replay_wal_file path replay f s =
    replay_from replay \<lparr>records_replayed = 0, valid_bytes = 0, incomplete_tail_bytes = 0\<rparr> c s"
  using assms by (simp add: replay_wal_file_def readable_def replay_wal_scan)

end
