(* ===== verification/Manifest.thy ===== *)
theory Manifest
  imports SeriesCodec Checksum FileIo
begin

unbundle bit_operations_syntax

text \<open>
  The manifest of \<^verbatim>\<open>src/internal/manifest.hpp\<close> and \<^verbatim>\<open>src/manifest.cpp\<close>: the list of live
  segment files with a generation number and the logical sample count, its validation, its
  checksummed encoding, and loading and atomically replacing it.  The encoding is a
  bijection between valid states and the files the decoder accepts.
\<close>

section \<open>State and validation\<close>

record ManifestState =
  mf_generation :: u64
  mf_logical_sample_count :: u64
  mf_segment_files :: "string list"

definition empty_manifest :: ManifestState where
  "empty_manifest = \<lparr>mf_generation = 0, mf_logical_sample_count = 0, mf_segment_files = []\<rparr>"

definition manifest_magic :: u32 where "manifest_magic = 0x464D5343"
definition manifest_version :: u16 where "manifest_version = 1"
definition manifest_flags :: u16 where "manifest_flags = 0"
definition manifest_header_size :: nat where "manifest_header_size = 36"
definition manifest_checksum_size :: nat where "manifest_checksum_size = 4"
definition max_manifest_payload_size :: nat where "max_manifest_payload_size = 16 * 1024 * 1024"
definition max_manifest_segments :: nat where "max_manifest_segments = 100000"

text \<open>
  A name without separators has no parent path and is its own file name, so the two path
  tests of the code hold whenever the extension is examined.
\<close>

definition valid_segment_filename :: "string \<Rightarrow> bool" where
  "valid_segment_filename filename \<longleftrightarrow>
     filename \<noteq> [] \<and> CHR ''/'' \<notin> set filename \<and> char_of (92 :: nat) \<notin> set filename \<and>
     path_extension filename = ''.cst''"

fun check_filenames :: "string list \<Rightarrow> string list \<Rightarrow> unit result" where
  "check_filenames unique_names [] = Inr ()"
| "check_filenames unique_names (filename # rest) =
     (if \<not> valid_segment_filename filename \<or> filename \<in> set unique_names
      then Inl (InvalidArgument ''manifest contains an invalid segment filename'')
      else check_filenames (os_insert filename unique_names) rest)"

definition validate_state :: "ManifestState \<Rightarrow> unit result" where
  "validate_state state =
     (if length (mf_segment_files state) > max_manifest_segments
      then Inl (LengthError ''manifest contains too many segments'')
      else check_filenames [] (mf_segment_files state))"

section \<open>Encoding\<close>

definition manifest_write_string :: "string \<Rightarrow> ByteWriter \<Rightarrow> ByteWriter result" where
  "manifest_write_string v w = put_string ''manifest filename is too long'' v w"

definition manifest_read_string :: "ByteReader \<Rightarrow> (string \<times> ByteReader) option" where
  "manifest_read_string r = get_string r"

definition encode_manifest :: "ManifestState \<Rightarrow> byte list result" where
  "encode_manifest state =
     ebind (validate_state state) (\<lambda>_.
     ebind (efold manifest_write_string (mf_segment_files state) empty_writer) (\<lambda>payload.
       if length (bw_data payload) > max_manifest_payload_size
       then Inl (LengthError ''manifest payload is too large'')
       else let payload_size = of_nat (length (bw_data payload)) :: u32;
                inverted_size = payload_size XOR 0xFFFFFFFF;
                w = write_u32 manifest_magic empty_writer;
                w = write_u16 manifest_version w;
                w = write_u16 manifest_flags w;
                w = write_u64 (mf_generation state) w;
                w = write_u64 (mf_logical_sample_count state) w;
                w = write_u32 (of_nat (length (mf_segment_files state))) w;
                w = write_u32 payload_size w;
                w = write_u32 inverted_size w;
                w = write_bytes (bw_data payload) w
            in Inr (bw_data (write_u32 (crc32c (bw_data w)) w))))"

fun get_filenames :: "nat \<Rightarrow> string list \<Rightarrow> ByteReader \<Rightarrow> (string list \<times> ByteReader) result" where
  "get_filenames 0 names r = Inr (names, r)"
| "get_filenames (Suc n) names r =
     (case manifest_read_string r of
        None \<Rightarrow> Inl (ManifestFormatError ''manifest filename is incomplete'')
      | Some (filename, r) \<Rightarrow> get_filenames n (names @ [filename]) r)"

text \<open>The \<^verbatim>\<open>try\<close> block at the end of \<^verbatim>\<open>decode_manifest\<close>.\<close>

definition validate_decoded :: "ManifestState \<Rightarrow> ManifestState result" where
  "validate_decoded state =
     (case validate_state state of
        Inl (LengthError msg) \<Rightarrow> Inl (ManifestFormatError msg)
      | Inl (InvalidArgument msg) \<Rightarrow> Inl (ManifestFormatError msg)
      | Inl e \<Rightarrow> Inl e
      | Inr _ \<Rightarrow> Inr state)"

text \<open>The part of \<^verbatim>\<open>decode_manifest\<close> after the header fields have been read.\<close>

definition decode_manifest_body ::
  "byte list \<Rightarrow> u32 \<Rightarrow> u16 \<Rightarrow> u16 \<Rightarrow> u64 \<Rightarrow> u64 \<Rightarrow> u32 \<Rightarrow> u32 \<Rightarrow> u32 \<Rightarrow> ManifestState result" where
  "decode_manifest_body bytes magic version flags generation logical_sample_count segment_count
     payload_size inverted_size =
     (if magic \<noteq> manifest_magic then Inl (ManifestFormatError ''manifest magic is invalid'')
      else if version \<noteq> manifest_version \<or> flags \<noteq> manifest_flags
        then Inl (ManifestFormatError ''manifest version or flags are unsupported'')
      else if unat segment_count > max_manifest_segments \<or> unat payload_size > max_manifest_payload_size \<or>
              inverted_size \<noteq> payload_size XOR 0xFFFFFFFF
        then Inl (ManifestFormatError ''manifest metadata is invalid'')
      else if length bytes \<noteq> manifest_header_size + unat payload_size + manifest_checksum_size
        then Inl (ManifestFormatError ''manifest size is inconsistent'')
      else let protected_size = length bytes - manifest_checksum_size
      in case read_u32 (make_reader (drop protected_size bytes)) of
           None \<Rightarrow> Inl (ManifestFormatError ''manifest checksum mismatch'')
         | Some (stored_checksum, _) \<Rightarrow>
             if stored_checksum \<noteq> crc32c (take protected_size bytes)
             then Inl (ManifestFormatError ''manifest checksum mismatch'')
             else ebind (get_filenames (unat segment_count) []
                    (make_reader (take (unat payload_size) (drop manifest_header_size bytes))))
                    (\<lambda>(names, r).
                       if remaining r \<noteq> 0
                       then Inl (ManifestFormatError ''manifest contains trailing payload bytes'')
                       else validate_decoded
                              \<lparr>mf_generation = generation,
                               mf_logical_sample_count = logical_sample_count,
                               mf_segment_files = names\<rparr>))"

definition decode_manifest :: "byte list \<Rightarrow> ManifestState result" where
  "decode_manifest bytes =
     (if length bytes < manifest_header_size + manifest_checksum_size
      then Inl (ManifestFormatError ''manifest is incomplete'')
      else case (do {
             (magic, r) \<leftarrow> read_u32 (make_reader bytes);
             (version, r) \<leftarrow> read_u16 r;
             (flags, r) \<leftarrow> read_u16 r;
             (generation, r) \<leftarrow> read_u64 r;
             (logical_sample_count, r) \<leftarrow> read_u64 r;
             (segment_count, r) \<leftarrow> read_u32 r;
             (payload_size, r) \<leftarrow> read_u32 r;
             (inverted_size, r) \<leftarrow> read_u32 r;
             Some (decode_manifest_body bytes magic version flags generation logical_sample_count
                     segment_count payload_size inverted_size)
           }) of
             None \<Rightarrow> Inl (ManifestFormatError ''manifest header is incomplete'')
           | Some result \<Rightarrow> result)"

section \<open>Files\<close>

definition manifest_path :: string where
  "manifest_path = ''MANIFEST''"

definition load_manifest :: "fs \<Rightarrow> ManifestState result" where
  "load_manifest f =
     (case std_exists manifest_path f of
        Inl _ \<Rightarrow> Inl (SystemError ''failed to inspect manifest'')
      | Inr present \<Rightarrow>
          if \<not> present then Inr empty_manifest
          else ebind (file_size_bytes manifest_path f) (\<lambda>n.
            if unat n > max_manifest_payload_size + manifest_header_size + manifest_checksum_size
            then Inl (ManifestFormatError ''manifest file is too large'')
            else ebind (read_file_bytes manifest_path 0 (unat n) f) decode_manifest))"

definition store_manifest :: "ManifestState \<Rightarrow> (fs, unit) act" where
  "store_manifest state f =
     (case encode_manifest state of
        Inl e \<Rightarrow> (Inl e, f)
      | Inr encoded \<Rightarrow> atomic_write_file manifest_path encoded f)"

section \<open>Byte images\<close>

definition manifest_header_bytes ::
  "u32 \<Rightarrow> u16 \<Rightarrow> u16 \<Rightarrow> u64 \<Rightarrow> u64 \<Rightarrow> u32 \<Rightarrow> u32 \<Rightarrow> u32 \<Rightarrow> byte list" where
  "manifest_header_bytes magic version flags generation logical_sample_count segment_count
     payload_size inverted_size =
     u32_bytes magic @ u16_bytes version @ u16_bytes flags @ u64_bytes generation @
     u64_bytes logical_sample_count @ u32_bytes segment_count @ u32_bytes payload_size @
     u32_bytes inverted_size"

definition manifest_payload_bytes :: "string list \<Rightarrow> byte list" where
  "manifest_payload_bytes names = concat (map string_bytes names)"

definition manifest_protected_bytes :: "ManifestState \<Rightarrow> byte list" where
  "manifest_protected_bytes state =
     (let payload = manifest_payload_bytes (mf_segment_files state);
          payload_size = of_nat (length payload) :: u32
      in manifest_header_bytes manifest_magic manifest_version manifest_flags (mf_generation state)
           (mf_logical_sample_count state) (of_nat (length (mf_segment_files state))) payload_size
           (payload_size XOR 0xFFFFFFFF) @ payload)"

definition manifest_bytes :: "ManifestState \<Rightarrow> byte list" where
  "manifest_bytes state = checksummed (manifest_protected_bytes state)"

definition manifest_wf :: "ManifestState \<Rightarrow> bool" where
  "manifest_wf state \<longleftrightarrow>
     length (mf_segment_files state) \<le> max_manifest_segments \<and>
     list_all valid_segment_filename (mf_segment_files state) \<and> distinct (mf_segment_files state)"

definition manifest_ok :: "ManifestState \<Rightarrow> bool" where
  "manifest_ok state \<longleftrightarrow> manifest_wf state \<and>
     length (manifest_payload_bytes (mf_segment_files state)) \<le> max_manifest_payload_size"

lemmas manifest_constants = manifest_header_size_def manifest_checksum_size_def
  max_manifest_payload_size_def max_manifest_segments_def

lemma length_manifest_header_bytes [simp, size_simps]:
  "length (manifest_header_bytes a b c d e f g h) = 36"
  by (simp add: manifest_header_bytes_def)

lemma length_manifest_bytes:
  "length (manifest_bytes st) = 40 + length (manifest_payload_bytes (mf_segment_files st))"
  by (simp add: manifest_bytes_def checksummed_def manifest_protected_bytes_def Let_def)

lemma check_filenames_iff:
  "check_filenames seen names = Inr () \<longleftrightarrow>
     list_all valid_segment_filename names \<and> distinct names \<and> set names \<inter> set seen = {}"
  by (induction names arbitrary: seen) auto

lemma check_filenames_error:
  "check_filenames seen names = Inl e \<Longrightarrow> e = InvalidArgument ''manifest contains an invalid segment filename''"
  by (induction names arbitrary: seen) (auto split: if_splits)

lemma validate_state_iff: "validate_state st = Inr () \<longleftrightarrow> manifest_wf st"
  by (auto simp: validate_state_def manifest_wf_def check_filenames_iff)

lemma validate_state_cases:
  "validate_state st = Inr () \<or> (\<exists>msg. validate_state st = Inl (LengthError msg)) \<or>
   (\<exists>msg. validate_state st = Inl (InvalidArgument msg))"
  by (cases "validate_state st") (auto simp: validate_state_def split: if_splits dest: check_filenames_error)

lemma length_member_payload: "n \<in> set names \<Longrightarrow> length n \<le> length (manifest_payload_bytes names)"
  by (induction names) (auto simp: manifest_payload_bytes_def)

lemma write_filenames:
  "efold manifest_write_string names w =
     (if list_all string_fits names then Inr (appended w (manifest_payload_bytes names))
      else Inl (LengthError ''manifest filename is too long''))"
  by (induction names arbitrary: w)
    (auto simp: manifest_write_string_def put_string_appended manifest_payload_bytes_def)

lemma manifest_ok_fits: "manifest_ok st \<Longrightarrow> list_all string_fits (mf_segment_files st)"
  using length_member_payload[of _ "mf_segment_files st"]
  by (fastforce simp: manifest_ok_def list_all_iff string_fits_def max_manifest_payload_size_def)

lemma encode_manifest_Inr:
  "encode_manifest st = Inr bytes \<longleftrightarrow> manifest_ok st \<and> bytes = manifest_bytes st"
proof (cases "manifest_ok st")
  case True
  then show ?thesis
    using manifest_ok_fits[OF True] validate_state_iff[of st]
    by (auto simp: encode_manifest_def write_filenames manifest_ok_def manifest_bytes_def checksummed_def
        manifest_protected_bytes_def manifest_header_bytes_def codec_simps Let_def)
next
  case False
  then show ?thesis
    using validate_state_iff[of st] validate_state_cases[of st]
    by (auto simp: encode_manifest_def write_filenames manifest_ok_def split: if_splits)
qed

lemma encode_manifest_error:
  "encode_manifest st = Inl e \<Longrightarrow> (\<exists>msg. e = LengthError msg) \<or> (\<exists>msg. e = InvalidArgument msg)"
  using validate_state_cases[of st]
  by (auto simp: encode_manifest_def write_filenames Let_def split: if_splits)

section \<open>Decoding\<close>

lemma manifest_header_exists:
  assumes "36 \<le> length bytes"
  shows "\<exists>a b c d e f g h body. bytes = manifest_header_bytes a b c d e f g h @ body"
proof -
  obtain n where n: "length bytes = 36 + n" using assms le_Suc_ex by blast
  obtain a y1 where 1: "bytes = u32_bytes a @ y1" "length y1 = 32 + n"
    using split_int(3)[of bytes "32 + n"] n by auto
  obtain b y2 where 2: "y1 = u16_bytes b @ y2" "length y2 = 30 + n"
    using split_int(2)[of y1 "30 + n"] 1(2) by auto
  obtain c y3 where 3: "y2 = u16_bytes c @ y3" "length y3 = 28 + n"
    using split_int(2)[of y2 "28 + n"] 2(2) by auto
  obtain d y4 where 4: "y3 = u64_bytes d @ y4" "length y4 = 20 + n"
    using split_int(4)[of y3 "20 + n"] 3(2) by auto
  obtain e y5 where 5: "y4 = u64_bytes e @ y5" "length y5 = 12 + n"
    using split_int(4)[of y4 "12 + n"] 4(2) by auto
  obtain f y6 where 6: "y5 = u32_bytes f @ y6" "length y6 = 8 + n"
    using split_int(3)[of y5 "8 + n"] 5(2) by auto
  obtain g y7 where 7: "y6 = u32_bytes g @ y7" "length y7 = 4 + n"
    using split_int(3)[of y6 "4 + n"] 6(2) by auto
  obtain h y8 where 8: "y7 = u32_bytes h @ y8" "length y8 = n"
    using split_int(3)[of y7 "n"] 7(2) by auto
  have "bytes = manifest_header_bytes a b c d e f g h @ y8"
    by (simp add: manifest_header_bytes_def 1(1) 2(1) 3(1) 4(1) 5(1) 6(1) 7(1) 8(1))
  then show ?thesis by blast
qed

lemma decode_manifest_header:
  "decode_manifest (manifest_header_bytes a b c d e f g h @ body) =
     (if length body < 4 then Inl (ManifestFormatError ''manifest is incomplete'')
      else decode_manifest_body (manifest_header_bytes a b c d e f g h @ body) a b c d e f g h)"
  by (simp add: decode_manifest_def manifest_header_bytes_def manifest_header_size_def
      manifest_checksum_size_def codec_simps)

lemma get_filenames_at:
  "list_all string_fits names \<Longrightarrow>
     get_filenames (length names) acc (reader_at pre (manifest_payload_bytes names @ ys)) =
     Inr (acc @ names, reader_at (pre @ manifest_payload_bytes names) ys)"
  by (induction names arbitrary: acc pre)
    (simp_all add: manifest_read_string_def manifest_payload_bytes_def codec_simps)

lemma get_filenames_InrD:
  assumes "get_filenames n acc (reader_at pre xs) = Inr (names, r)"
  shows "\<exists>new ys. names = acc @ new \<and> length new = n \<and> xs = manifest_payload_bytes new @ ys \<and>
     r = reader_at (pre @ manifest_payload_bytes new) ys"
  using assms
proof (induction n arbitrary: acc pre xs)
  case 0
  then show ?case by (auto simp: manifest_payload_bytes_def)
next
  case (Suc n)
  obtain v r1 where v: "get_string (reader_at pre xs) = Some (v, r1)"
    and rest: "get_filenames n (acc @ [v]) r1 = Inr (names, r)"
    using Suc.prems by (auto simp: manifest_read_string_def split: option.splits)
  obtain y1 where y1: "xs = string_bytes v @ y1" "r1 = reader_at (pre @ string_bytes v) y1"
    using get_string_SomeD[OF v] by auto
  obtain new ys where "names = (acc @ [v]) @ new" "length new = n" "y1 = manifest_payload_bytes new @ ys"
      "r = reader_at ((pre @ string_bytes v) @ manifest_payload_bytes new) ys"
    using Suc.IH[OF rest[unfolded y1(2)]] by blast
  with y1 show ?case
    by (intro exI[of _ "v # new"] exI[of _ ys]) (simp add: manifest_payload_bytes_def)
qed

lemma get_filenames_error:
  "get_filenames n acc r = Inl e \<Longrightarrow> \<exists>msg. e = ManifestFormatError msg"
  by (induction n arbitrary: acc r) (auto split: option.splits)

lemma manifest_unats:
  assumes "manifest_ok st"
  shows "unat (of_nat (length (manifest_payload_bytes (mf_segment_files st))) :: u32) =
      length (manifest_payload_bytes (mf_segment_files st))"
    "unat (of_nat (length (mf_segment_files st)) :: u32) = length (mf_segment_files st)"
  using assms by (simp_all add: unat_of_nat_u32 manifest_ok_def manifest_wf_def
      max_manifest_payload_size_def max_manifest_segments_def)

lemma decode_manifest_bytes:
  assumes "manifest_ok st"
  shows "decode_manifest (manifest_bytes st) = Inr st"
proof -
  let ?p = "manifest_payload_bytes (mf_segment_files st)"
  let ?h = "manifest_header_bytes manifest_magic manifest_version manifest_flags (mf_generation st)
     (mf_logical_sample_count st) (of_nat (length (mf_segment_files st))) (of_nat (length ?p))
     (of_nat (length ?p) XOR 0xFFFFFFFF)"
  have b: "manifest_bytes st = ?h @ ?p @ u32_bytes (crc32c (?h @ ?p))"
    by (simp add: manifest_bytes_def checksummed_def manifest_protected_bytes_def Let_def)
  have names: "get_filenames (length (mf_segment_files st)) [] (make_reader ?p) =
      Inr (mf_segment_files st, reader_at ?p [])"
    using get_filenames_at[OF manifest_ok_fits[OF assms], of "[]" "[]" "[]"] by (simp add: codec_simps)
  have "validate_state \<lparr>mf_generation = mf_generation st, mf_logical_sample_count = mf_logical_sample_count st,
      mf_segment_files = mf_segment_files st\<rparr> = Inr ()"
    using assms validate_state_iff[of st] by (cases st) (simp add: manifest_ok_def)
  moreover have "length ?p \<le> max_manifest_payload_size" "length (mf_segment_files st) \<le> max_manifest_segments"
    using assms by (simp_all add: manifest_ok_def manifest_wf_def)
  ultimately show ?thesis
    unfolding b decode_manifest_header
    by (simp add: decode_manifest_body_def Let_def manifest_unats[OF assms] manifest_header_size_def
        manifest_checksum_size_def read_u32_exact names validate_decoded_def)
qed

lemma validate_decoded_cases:
  "validate_decoded st = r \<Longrightarrow>
   (r = Inr st \<and> manifest_wf st) \<or> (\<exists>msg. r = Inl (ManifestFormatError msg))"
  using validate_state_cases[of st] validate_state_iff[of st] by (auto simp: validate_decoded_def)

lemma decode_payload_cases:
  assumes "ebind (get_filenames n [] (make_reader p)) (\<lambda>(names, r).
      if remaining r \<noteq> 0 then Inl (ManifestFormatError ''manifest contains trailing payload bytes'')
      else validate_decoded (st names)) = r"
  shows "(\<exists>msg. r = Inl (ManifestFormatError msg)) \<or>
    (\<exists>names. r = Inr (st names) \<and> manifest_wf (st names) \<and> n = length names \<and> p = manifest_payload_bytes names)"
proof (cases "get_filenames n [] (make_reader p)")
  case (Inl e)
  with assms get_filenames_error[OF Inl] show ?thesis by auto
next
  case (Inr nr)
  obtain names rd where nr: "nr = (names, rd)" by force
  have g: "get_filenames n [] (reader_at [] p) = Inr (names, rd)" using Inr by (simp add: nr make_reader_at)
  obtain ys where ys: "length names = n" "p = manifest_payload_bytes names @ ys" "rd = reader_at (manifest_payload_bytes names) ys"
    using get_filenames_InrD[OF g] by auto
  show ?thesis
  proof (cases "ys = []")
    case False
    then show ?thesis using assms Inr ys(3) by (auto simp: nr)
  next
    case True
    have "(r = Inr (st names) \<and> manifest_wf (st names)) \<or> (\<exists>msg. r = Inl (ManifestFormatError msg))"
      by (rule validate_decoded_cases) (use assms Inr ys(3) True in \<open>simp add: nr\<close>)
    then show ?thesis using ys True by auto
  qed
qed

lemma decode_manifest_body_cases:
  assumes "decode_manifest_body bytes magic version flags gen cnt segs len inverted = r"
  shows "(\<exists>msg. r = Inl (ManifestFormatError msg)) \<or>
    (\<exists>names. r = Inr \<lparr>mf_generation = gen, mf_logical_sample_count = cnt, mf_segment_files = names\<rparr> \<and>
       manifest_wf \<lparr>mf_generation = gen, mf_logical_sample_count = cnt, mf_segment_files = names\<rparr> \<and>
       magic = manifest_magic \<and> version = manifest_version \<and> flags = manifest_flags \<and>
       inverted = len XOR 0xFFFFFFFF \<and> unat len \<le> max_manifest_payload_size \<and>
       length bytes = 40 + unat len \<and> unat segs = length names \<and>
       take (unat len) (drop 36 bytes) = manifest_payload_bytes names \<and>
       bytes = checksummed (take (36 + unat len) bytes))"
proof (cases "magic = manifest_magic \<and> version = manifest_version \<and> flags = manifest_flags \<and>
    unat segs \<le> max_manifest_segments \<and> unat len \<le> max_manifest_payload_size \<and>
    inverted = len XOR 0xFFFFFFFF \<and> length bytes = 40 + unat len")
  case False
  then show ?thesis
    using assms by (auto simp: decode_manifest_body_def manifest_header_size_def manifest_checksum_size_def
        split: if_splits)
next
  case True
  let ?n = "36 + unat len" and ?p = "take (unat len) (drop 36 bytes)"
  have "length bytes = ?n + 4" using True by simp
  from read_checksum_exists[OF this] obtain c cr where
    c: "read_u32 (make_reader (take 4 (drop ?n bytes))) = Some (c, cr)" by blast
  have c': "read_u32 (make_reader (drop ?n bytes)) = Some (c, cr)" using c True by simp
  show ?thesis
  proof (cases "c = crc32c (take ?n bytes)")
    case False
    then show ?thesis
      using assms True c'
      by (auto simp: decode_manifest_body_def manifest_header_size_def manifest_checksum_size_def Let_def)
  next
    case crc: True
    then have chk: "bytes = checksummed (take ?n bytes)"
      using checksum_field_match[of bytes ?n] c True by simp
    let ?st = "\<lambda>names. \<lparr>mf_generation = gen, mf_logical_sample_count = cnt, mf_segment_files = names\<rparr>"
    have "ebind (get_filenames (unat segs) [] (make_reader ?p)) (\<lambda>(names, r).
        if remaining r \<noteq> 0 then Inl (ManifestFormatError ''manifest contains trailing payload bytes'')
        else validate_decoded (?st names)) = r"
      using assms True c' crc
      by (auto simp: decode_manifest_body_def manifest_header_size_def manifest_checksum_size_def Let_def)
    from decode_payload_cases[OF this] show ?thesis using True chk by auto
  qed
qed

lemma decode_manifest_body_error:
  "decode_manifest_body bytes a b c d e f g h = Inl x \<Longrightarrow> \<exists>msg. x = ManifestFormatError msg"
  using decode_manifest_body_cases[of bytes a b c d e f g h "Inl x"] by auto

lemma decode_manifest_error:
  "decode_manifest bytes = Inl e \<Longrightarrow> \<exists>msg. e = ManifestFormatError msg"
  by (auto simp: decode_manifest_def split: if_splits option.splits bind_splits)
    (rule decode_manifest_body_error)

text \<open>The decoder accepts the encoder's output and nothing else.\<close>

lemma decode_manifest_canonical:
  assumes "decode_manifest bytes = Inr st"
  shows "manifest_ok st \<and> bytes = manifest_bytes st"
proof -
  have "36 \<le> length bytes"
    using assms by (auto simp: decode_manifest_def manifest_header_size_def split: if_splits)
  then obtain a b c d e f g h body where bytes: "bytes = manifest_header_bytes a b c d e f g h @ body"
    using manifest_header_exists by blast
  have dec: "decode_manifest_body bytes a b c d e f g h = Inr st"
    using assms unfolding bytes decode_manifest_header by (simp split: if_splits)
  from decode_manifest_body_cases[OF dec] obtain names where
      st: "st = \<lparr>mf_generation = d, mf_logical_sample_count = e, mf_segment_files = names\<rparr>"
      and wf: "manifest_wf st" and fields: "a = manifest_magic" "b = manifest_version" "c = manifest_flags"
        "h = g XOR 0xFFFFFFFF" "unat g \<le> max_manifest_payload_size" "length bytes = 40 + unat g"
        "unat f = length names"
      and p: "take (unat g) (drop 36 bytes) = manifest_payload_bytes names"
      and chk: "bytes = checksummed (take (36 + unat g) bytes)"
    by auto
  have len: "length (manifest_payload_bytes names) = unat g"
    using p[symmetric] fields(6) by simp
  have "of_nat (length (manifest_payload_bytes names)) = g" "of_nat (length names) = f"
    by (simp_all add: len fields(7)[symmetric])
  moreover have "take 36 bytes = manifest_header_bytes a b c d e f g h" by (simp add: bytes)
  ultimately have "take (36 + unat g) bytes = manifest_protected_bytes st"
    using p by (simp add: take_add st manifest_protected_bytes_def Let_def fields(1-4))
  with chk wf fields(5) len show ?thesis
    by (simp add: manifest_bytes_def manifest_ok_def st)
qed

lemma decode_manifest_Inr: "decode_manifest bytes = Inr st \<longleftrightarrow> manifest_ok st \<and> bytes = manifest_bytes st"
  using decode_manifest_canonical decode_manifest_bytes by blast

section \<open>Loading and storing\<close>

lemma load_manifest_stored:
  assumes "manifest_ok st" "fs_file f manifest_path = Some (manifest_bytes st)" "readable f manifest_path"
  shows "load_manifest f = Inr st"
proof -
  have len: "length (manifest_bytes st) \<le> max_manifest_payload_size + manifest_header_size + manifest_checksum_size"
    using assms(1) by (simp add: length_manifest_bytes manifest_ok_def manifest_constants)
  then have small: "length (manifest_bytes st) \<le> streamoff_max"
    by (simp add: manifest_constants streamoff_max_def)
  have n: "unat (of_nat (length (manifest_bytes st)) :: u64) = length (manifest_bytes st)"
    using small by (intro unat_of_nat_u64) (simp add: streamoff_max_def)
  show ?thesis
    using assms len file_size_bytes_Inr[OF assms(3,2) small]
      read_file_bytes_Inr[OF assms(3,2) _ small, of 0 "length (manifest_bytes st)"]
    by (simp add: load_manifest_def std_exists_def readable_def n decode_manifest_bytes not_less)
qed

lemma load_manifest_absent:
  "fs_file f manifest_path = None \<Longrightarrow> readable f manifest_path \<Longrightarrow> load_manifest f = Inr empty_manifest"
  by (simp add: load_manifest_def std_exists_def readable_def)

lemma store_manifest_effect:
  assumes "store_manifest st f = (r, f')"
  shows "touches {manifest_path, manifest_path @ ''.tmp''} f f' \<and>
    (fs_file f' manifest_path = fs_file f manifest_path \<or>
     manifest_ok st \<and> fs_file f' manifest_path = Some (manifest_bytes st)) \<and>
    (r = Inr () \<longrightarrow> manifest_ok st \<and> fs_file f' manifest_path = Some (manifest_bytes st) \<and>
       fs_durable f' manifest_path = Some (manifest_bytes st)) \<and>
    (fs_script f = [] \<and> manifest_ok st \<longrightarrow> r = Inr ())"
proof (cases "manifest_ok st")
  case True
  then have "encode_manifest st = Inr (manifest_bytes st)" by (simp add: encode_manifest_Inr)
  then have w: "atomic_write_file manifest_path (manifest_bytes st) f = (r, f')"
    using assms by (simp add: store_manifest_def)
  have "length (manifest_bytes st) \<le> streamoff_max"
    using True by (simp add: length_manifest_bytes manifest_ok_def manifest_constants streamoff_max_def)
  with atomic_write_file_effect[OF w] True show ?thesis by auto
next
  case False
  then obtain e where "encode_manifest st = Inl e"
    using encode_manifest_Inr[of st] by (cases "encode_manifest st") auto
  with assms False show ?thesis by (auto simp: store_manifest_def)
qed

end
