(* ===== verification/SegmentBlock.thy ===== *)
theory SegmentBlock
  imports SampleStore
begin

text \<open>
  The in-memory segment block of \<^verbatim>\<open>src/internal/segment_block.hpp\<close> and
  \<^verbatim>\<open>src/segment_block.cpp\<close>: up to 256 samples of one series with strictly increasing
  timestamps, and the store a list of blocks denotes.
\<close>

definition max_samples_per_segment_block :: nat where
  "max_samples_per_segment_block = 256"

datatype SegmentBlock = SegmentBlock (block_series: SeriesKey) (block_samples: "Sample list")

text \<open>The loop over adjacent samples of the constructor.\<close>

fun check_increasing :: "Sample list \<Rightarrow> unit result" where
  "check_increasing (previous # current # rest) =
     (if timestamp current \<le> timestamp previous
      then Inl (InvalidArgument ''segment block timestamps must be strictly increasing'')
      else check_increasing (current # rest))"
| "check_increasing _ = Inr ()"

definition make_SegmentBlock :: "SeriesKey \<Rightarrow> Sample list \<Rightarrow> SegmentBlock result" where
  "make_SegmentBlock series samples =
     (if samples = [] then Inl (InvalidArgument ''segment block cannot be empty'')
      else if length samples > max_samples_per_segment_block
        then Inl (LengthError ''segment block contains too many samples'')
      else ebind (check_increasing samples) (\<lambda>_. Inr (SegmentBlock series samples)))"

definition block_sample_count :: "SegmentBlock \<Rightarrow> nat" where
  "block_sample_count b = length (block_samples b)"

definition first_timestamp :: "SegmentBlock \<Rightarrow> Timestamp" where
  "first_timestamp b = timestamp (hd (block_samples b))"

definition last_timestamp :: "SegmentBlock \<Rightarrow> Timestamp" where
  "last_timestamp b = timestamp (last (block_samples b))"

section \<open>Invariant and content\<close>

definition block_wf :: "SegmentBlock \<Rightarrow> bool" where
  "block_wf b \<longleftrightarrow>
     series_wf (block_series b) \<and> block_samples b \<noteq> [] \<and>
     length (block_samples b) \<le> max_samples_per_segment_block \<and>
     list_all sample_wf (block_samples b) \<and>
     sorted_wrt (<) (map timestamp (block_samples b))"

lemma check_increasing_iff:
  "check_increasing xs = Inr () \<longleftrightarrow> sorted_wrt (<) (map timestamp xs)"
proof (induction xs rule: check_increasing.induct)
  case (1 p c r)
  have "sorted_wrt (<) (map timestamp (p # c # r)) \<longleftrightarrow>
      timestamp p < timestamp c \<and> sorted_wrt (<) (map timestamp (c # r))"
    by auto
  with 1 show ?case by (auto simp: not_le)
qed simp_all

lemma check_increasing_error:
  "check_increasing xs = Inl e \<Longrightarrow> \<exists>msg. e = InvalidArgument msg"
  by (induction xs rule: check_increasing.induct) (auto split: if_splits)

lemma make_SegmentBlock_Inr:
  "make_SegmentBlock k xs = Inr b \<longleftrightarrow>
     xs \<noteq> [] \<and> length xs \<le> max_samples_per_segment_block \<and>
     sorted_wrt (<) (map timestamp xs) \<and> b = SegmentBlock k xs"
  using check_increasing_iff[of xs]
  by (auto simp: make_SegmentBlock_def ebind_eq_Inr not_less)

lemma make_SegmentBlock_wf:
  "block_wf b \<Longrightarrow> make_SegmentBlock (block_series b) (block_samples b) = Inr b"
  by (simp add: make_SegmentBlock_Inr block_wf_def)

lemma block_wf_make:
  "make_SegmentBlock k xs = Inr b \<Longrightarrow> series_wf k \<Longrightarrow> list_all sample_wf xs \<Longrightarrow> block_wf b"
  by (auto simp: make_SegmentBlock_Inr block_wf_def)

definition samples_map :: "Sample list \<Rightarrow> Timestamp \<rightharpoonup> double" where
  "samples_map xs = map_of (map (\<lambda>s. (timestamp s, sample_value s)) xs)"

lemma samples_map_Some:
  assumes "sorted_wrt (<) (map timestamp xs)"
  shows "samples_map xs t = Some v \<longleftrightarrow> Sample t v \<in> set xs"
proof -
  have "distinct (map fst (map (\<lambda>s. (timestamp s, sample_value s)) xs))"
    using strict_sorted_distinct[OF assms] by (simp add: comp_def)
  then have "samples_map xs t = Some v \<longleftrightarrow> (t, v) \<in> (\<lambda>s. (timestamp s, sample_value s)) ` set xs"
    by (simp add: samples_map_def)
  then show ?thesis by (force simp: image_iff intro: Sample.expand)
qed

lemma samples_map_None: "samples_map xs t = None \<longleftrightarrow> t \<notin> timestamp ` set xs"
  by (force simp: samples_map_def map_of_eq_None_iff)

text \<open>The store denoted by a list of blocks: later blocks are written over earlier ones.\<close>

definition blocks_store :: "SegmentBlock list \<Rightarrow> store" where
  "blocks_store bs k = fold (\<lambda>b m. if block_series b = k then m ++ samples_map (block_samples b) else m) bs Map.empty"

text \<open>Blocks in file order: by series, and within a series without overlap in time.\<close>

definition block_before :: "SegmentBlock \<Rightarrow> SegmentBlock \<Rightarrow> bool" where
  "block_before a b \<longleftrightarrow> block_series a < block_series b \<or>
     (block_series a = block_series b \<and> last_timestamp a < first_timestamp b)"

lemma first_le_last: "block_wf b \<Longrightarrow> first_timestamp b \<le> last_timestamp b"
  unfolding first_timestamp_def last_timestamp_def block_wf_def
  using sorted_last_greatest[of "block_samples b" "hd (block_samples b)"] by simp

lemma first_le_sample:
  assumes "block_wf b" "x \<in> set (block_samples b)"
  shows "first_timestamp b \<le> timestamp x \<and> timestamp x \<le> last_timestamp b"
proof
  show "timestamp x \<le> last_timestamp b"
    using assms sorted_last_greatest[of "block_samples b" x] by (simp add: block_wf_def last_timestamp_def)
  show "first_timestamp b \<le> timestamp x"
    using assms by (cases "block_samples b") (auto simp: block_wf_def first_timestamp_def intro: less_imp_le)
qed

lemma fold_map_add:
  "fold (\<lambda>b m. if P b then m ++ f b else m) bs m = m ++ fold (\<lambda>b m. if P b then m ++ f b else m) bs Map.empty"
proof (induction bs arbitrary: m)
  case (Cons b bs)
  show ?case
    using Cons[of "m ++ f b"] Cons[of m] Cons[of "Map.empty ++ f b"] by simp
qed simp

lemma blocks_store_Nil [simp]: "blocks_store [] = (\<lambda>_. Map.empty)"
  by (simp add: blocks_store_def fun_eq_iff)

lemma blocks_store_append: "blocks_store (bs @ cs) = store_overlay (blocks_store bs) (blocks_store cs)"
proof
  fix k
  show "blocks_store (bs @ cs) k = store_overlay (blocks_store bs) (blocks_store cs) k"
    using fold_map_add[of "\<lambda>b. block_series b = k" "\<lambda>b. samples_map (block_samples b)" cs "blocks_store bs k"]
    by (simp add: blocks_store_def store_overlay_def)
qed

lemma blocks_store_single:
  "blocks_store [b] = (\<lambda>k. if k = block_series b then samples_map (block_samples b) else Map.empty)"
  by (auto simp: blocks_store_def fun_eq_iff)

lemma blocks_store_Cons: "blocks_store (b # bs) = store_overlay (blocks_store [b]) (blocks_store bs)"
  using blocks_store_append[of "[b]" bs] by simp

text \<open>Membership in the store is membership in a block, when blocks do not overlap.\<close>

lemma block_before_trans:
  "block_before a b \<Longrightarrow> block_before b c \<Longrightarrow> block_wf b \<Longrightarrow> block_before a c"
  using first_le_last[of b] by (auto simp: block_before_def)

lemma blocks_store_Some:
  assumes "list_all block_wf bs" "sorted_wrt block_before bs"
  shows "blocks_store bs k t = Some v \<longleftrightarrow>
    (\<exists>b\<in>set bs. block_series b = k \<and> Sample t v \<in> set (block_samples b))"
  using assms
proof (induction bs arbitrary: v)
  case (Cons b bs)
  have wf: "block_wf b" and srt: "sorted_wrt (<) (map timestamp (block_samples b))"
    using Cons.prems by (auto simp: block_wf_def)
  have IH: "blocks_store bs k t = Some v \<longleftrightarrow>
      (\<exists>b\<in>set bs. block_series b = k \<and> Sample t v \<in> set (block_samples b))" for v
    using Cons by auto
  have sep: False if "block_series b = k" "Sample t v \<in> set (block_samples b)"
      "c \<in> set bs" "block_series c = k" "Sample t u \<in> set (block_samples c)" for u v c
  proof -
    have "block_before b c" "block_wf c" using Cons.prems that by (auto simp: list_all_iff)
    then have "last_timestamp b < first_timestamp c" using that by (auto simp: block_before_def)
    with first_le_sample[OF wf that(2)] first_le_sample[OF \<open>block_wf c\<close> that(5)] show False by force
  qed
  show ?case
  proof (cases "blocks_store bs k t")
    case None
    then have "\<not> (\<exists>b\<in>set bs. block_series b = k \<and> Sample t v \<in> set (block_samples b))"
      using IH by simp
    with None show ?thesis
      by (auto simp: blocks_store_Cons[of b bs] store_overlay_def blocks_store_single samples_map_Some[OF srt] map_add_def)
  next
    case (Some u)
    then obtain c where "c \<in> set bs" "block_series c = k" "Sample t u \<in> set (block_samples c)"
      using IH by blast
    then have "\<not> (block_series b = k \<and> Sample t v \<in> set (block_samples b))" using sep by blast
    with Some IH[of v] show ?thesis
      by (auto simp: blocks_store_Cons[of b bs] store_overlay_def map_add_def)
  qed
qed simp

end
