(* ===== verification/SegmentBlockCodec.thy ===== *)
theory SegmentBlockCodec
  imports SegmentBlock SeriesCodec Checksum FramedCodec
begin

unbundle bit_operations_syntax

text \<open>
  The segment block codec of \<^verbatim>\<open>src/internal/segment_block_codec.hpp\<close> and
  \<^verbatim>\<open>src/segment_block_codec.cpp\<close>.  Unlike the WAL decoder it insists on the canonical tag
  order, so the codec is a bijection: a block decodes from exactly the bytes the encoder
  writes for it.
\<close>

section \<open>Data\<close>

datatype SegmentBlockDecodeError =
    block_none
  | block_incomplete
  | block_invalid_magic
  | block_unsupported_version
  | block_unsupported_flags
  | block_invalid_length
  | block_invalid_sample_count
  | block_checksum_mismatch
  | block_invalid_payload

record SegmentBlockDecodeResult =
  decoded_block :: "SegmentBlock option"
  block_error :: SegmentBlockDecodeError
  block_bytes_consumed :: nat

definition block_success :: "SegmentBlockDecodeResult \<Rightarrow> bool" where
  "block_success d \<longleftrightarrow> decoded_block d \<noteq> None \<and> block_error d = block_none"

definition segment_block_magic :: u32 where
  "segment_block_magic = 0x4B425343"

definition segment_block_version :: u16 where
  "segment_block_version = 1"

definition segment_block_flags :: u16 where
  "segment_block_flags = 0"

definition max_segment_block_payload_size :: nat where
  "max_segment_block_payload_size = 16 * 1024 * 1024"

definition segment_block_header_size :: nat where
  "segment_block_header_size = 20"

definition segment_block_checksum_size :: nat where
  "segment_block_checksum_size = 4"

definition encoded_sample_size :: nat where
  "encoded_sample_size = 16"

definition minimum_encoded_tag_size :: nat where
  "minimum_encoded_tag_size = 8"

section \<open>Encoder\<close>

definition block_write_string :: "string \<Rightarrow> ByteWriter \<Rightarrow> ByteWriter result" where
  "block_write_string v w = put_string ''segment block string is too large'' v w"

definition write_sample :: "Sample \<Rightarrow> ByteWriter \<Rightarrow> ByteWriter" where
  "write_sample s w =
     (let timestamp_bits = nanoseconds_since_epoch (timestamp s);
          value_bits = sample_value s
      in write_u64 value_bits (write_u64 timestamp_bits w))"

definition block_encode_payload :: "SegmentBlock \<Rightarrow> byte list result" where
  "block_encode_payload b =
     ebind (block_write_string (measurement (block_series b)) empty_writer) (\<lambda>w.
       let ts = tags (block_series b)
       in if length ts > 0xFFFFFFFF then Inl (LengthError ''segment block contains too many tags'')
          else ebind (efold (\<lambda>t w. ebind (block_write_string (tag_key t) w) (block_write_string (tag_value t)))
                 ts (write_u32 (of_nat (length ts)) w)) (\<lambda>w.
                 Inr (bw_data (fold write_sample (block_samples b) w))))"

definition encode_segment_block :: "SegmentBlock \<Rightarrow> byte list result" where
  "encode_segment_block b =
     ebind (block_encode_payload b) (\<lambda>payload.
       if length payload > max_segment_block_payload_size
       then Inl (LengthError ''segment block payload is too large'')
       else let payload_length = of_nat (length payload) :: u32;
                inverted_length = payload_length XOR 0xFFFFFFFF;
                n = of_nat (block_sample_count b) :: u32;
                w = write_u32 segment_block_magic empty_writer;
                w = write_u16 segment_block_version w;
                w = write_u16 segment_block_flags w;
                w = write_u32 payload_length w;
                w = write_u32 inverted_length w;
                w = write_u32 n w;
                w = write_bytes payload w;
                checksum = crc32c (bw_data w)
            in Inr (bw_data (write_u32 checksum w)))"

section \<open>Decoder\<close>

definition block_decode_failure :: "SegmentBlockDecodeError \<Rightarrow> SegmentBlockDecodeResult" where
  "block_decode_failure e = \<lparr>decoded_block = None, block_error = e, block_bytes_consumed = 0\<rparr>"

definition block_read_string :: "ByteReader \<Rightarrow> (string \<times> ByteReader) option" where
  "block_read_string r = get_string r"

fun get_samples :: "nat \<Rightarrow> Sample list \<Rightarrow> ByteReader \<Rightarrow> (Sample list \<times> ByteReader) option" where
  "get_samples 0 xs r = Some (xs, r)"
| "get_samples (Suc n) xs r =
     (case read_u64 r of
        None \<Rightarrow> None
      | Some (timestamp_bits, r) \<Rightarrow>
          (case read_u64 r of
             None \<Rightarrow> None
           | Some (value_bits, r) \<Rightarrow>
               (case make_Sample (Timestamp timestamp_bits) value_bits of
                  Inl _ \<Rightarrow> None
                | Inr s \<Rightarrow> get_samples n (xs @ [s]) r)))"

definition block_decode_payload :: "byte list \<Rightarrow> u32 \<Rightarrow> SegmentBlock option" where
  "block_decode_payload payload n =
     do {
       (m, r) \<leftarrow> block_read_string (make_reader payload);
       (tag_count, r) \<leftarrow> read_u32 r;
       let sample_bytes = unat n * encoded_sample_size;
       if sample_bytes > remaining r then None
       else let bytes_available_for_tags = remaining r - sample_bytes
       in if unat tag_count > bytes_available_for_tags div minimum_encoded_tag_size then None
       else do {
         (ts, r) \<leftarrow> get_tags True (unat tag_count) [] r;
         (samples, r) \<leftarrow> get_samples (unat n) [] r;
         if remaining r \<noteq> 0 then None
         else case ebind (make_SeriesKey m ts) (\<lambda>k. make_SegmentBlock k samples) of
                Inl _ \<Rightarrow> None
              | Inr b \<Rightarrow> Some b
       }
     }"

text \<open>The checks after the six header fields have been read, in the order of the code.\<close>

definition decode_block_frame ::
  "byte list \<Rightarrow> u32 \<Rightarrow> u16 \<Rightarrow> u16 \<Rightarrow> u32 \<Rightarrow> u32 \<Rightarrow> u32 \<Rightarrow> SegmentBlockDecodeResult" where
  "decode_block_frame bytes magic version flags payload_length inverted_length n =
     (if magic \<noteq> segment_block_magic then block_decode_failure block_invalid_magic
      else if inverted_length \<noteq> payload_length XOR 0xFFFFFFFF \<or>
              unat payload_length > max_segment_block_payload_size
        then block_decode_failure block_invalid_length
      else let payload_size = unat payload_length;
               protected_size = segment_block_header_size + payload_size;
               total_block_size = protected_size + segment_block_checksum_size
      in if length bytes < total_block_size then block_decode_failure block_incomplete
      else let protected_bytes = take protected_size bytes;
               checksum_bytes = take segment_block_checksum_size (drop protected_size bytes)
      in case read_u32 (make_reader checksum_bytes) of
           None \<Rightarrow> block_decode_failure block_incomplete
         | Some (stored_checksum, _) \<Rightarrow>
             if stored_checksum \<noteq> crc32c protected_bytes then block_decode_failure block_checksum_mismatch
             else if version \<noteq> segment_block_version then block_decode_failure block_unsupported_version
             else if flags \<noteq> segment_block_flags then block_decode_failure block_unsupported_flags
             else if n = 0 \<or> unat n > max_samples_per_segment_block
               then block_decode_failure block_invalid_sample_count
             else case block_decode_payload (take payload_size (drop segment_block_header_size bytes)) n of
                    None \<Rightarrow> block_decode_failure block_invalid_payload
                  | Some b \<Rightarrow> \<lparr>decoded_block = Some b, block_error = block_none,
                                block_bytes_consumed = total_block_size\<rparr>)"

definition decode_segment_block :: "byte list \<Rightarrow> SegmentBlockDecodeResult" where
  "decode_segment_block bytes =
     (if length bytes < segment_block_header_size then block_decode_failure block_incomplete
      else case read_u32 (make_reader bytes) of
        None \<Rightarrow> block_decode_failure block_incomplete
      | Some (magic, r) \<Rightarrow> (case read_u16 r of
        None \<Rightarrow> block_decode_failure block_incomplete
      | Some (version, r) \<Rightarrow> (case read_u16 r of
        None \<Rightarrow> block_decode_failure block_incomplete
      | Some (flags, r) \<Rightarrow> (case read_u32 r of
        None \<Rightarrow> block_decode_failure block_incomplete
      | Some (payload_length, r) \<Rightarrow> (case read_u32 r of
        None \<Rightarrow> block_decode_failure block_incomplete
      | Some (inverted_length, r) \<Rightarrow> (case read_u32 r of
        None \<Rightarrow> block_decode_failure block_incomplete
      | Some (n, r) \<Rightarrow>
          decode_block_frame bytes magic version flags payload_length inverted_length n))))))"

section \<open>Byte images\<close>

definition sample_bytes :: "Sample \<Rightarrow> byte list" where
  "sample_bytes s = u64_bytes (nanoseconds_since_epoch (timestamp s)) @ u64_bytes (sample_value s)"

definition block_payload_bytes :: "SegmentBlock \<Rightarrow> byte list" where
  "block_payload_bytes b = series_bytes (block_series b) @ concat (map sample_bytes (block_samples b))"

definition block_header_bytes :: "u32 \<Rightarrow> u16 \<Rightarrow> u16 \<Rightarrow> u32 \<Rightarrow> u32 \<Rightarrow> u32 \<Rightarrow> byte list" where
  "block_header_bytes magic version flags payload_length inverted_length n =
     u32_bytes magic @ u16_bytes version @ u16_bytes flags @ u32_bytes payload_length @
     u32_bytes inverted_length @ u32_bytes n"

definition block_protected_bytes :: "byte list \<Rightarrow> nat \<Rightarrow> byte list" where
  "block_protected_bytes payload n =
     block_header_bytes segment_block_magic segment_block_version segment_block_flags
       (of_nat (length payload)) (of_nat (length payload) XOR 0xFFFFFFFF) (of_nat n) @ payload"

definition segment_block_bytes :: "SegmentBlock \<Rightarrow> byte list" where
  "segment_block_bytes b =
     checksummed (block_protected_bytes (block_payload_bytes b) (length (block_samples b)))"

definition block_fits :: "SegmentBlock \<Rightarrow> bool" where
  "block_fits b \<longleftrightarrow> length (block_payload_bytes b) \<le> max_segment_block_payload_size"

definition block_ok :: "SegmentBlock \<Rightarrow> bool" where
  "block_ok b \<longleftrightarrow> block_wf b \<and> block_fits b"

lemmas block_constants = segment_block_header_size_def segment_block_checksum_size_def
  max_segment_block_payload_size_def

lemma length_block_header_bytes [simp, size_simps]: "length (block_header_bytes a b c d e f) = 20"
  by (simp add: block_header_bytes_def)

lemma length_sample_bytes [simp, size_simps]: "length (sample_bytes s) = 16"
  by (simp add: sample_bytes_def)

lemma length_concat_sample_bytes [simp]: "length (concat (map sample_bytes xs)) = 16 * length xs"
  by (induction xs) auto

lemma length_segment_block_bytes:
  "length (segment_block_bytes b) = 24 + length (block_payload_bytes b)"
  by (simp add: segment_block_bytes_def checksummed_def block_protected_bytes_def)

lemma fold_write_sample: "fold write_sample xs w = appended w (concat (map sample_bytes xs))"
  by (induction xs arbitrary: w) (simp_all add: write_sample_def sample_bytes_def codec_simps)

lemma block_encode_payload_eq:
  "block_encode_payload b =
     ebind (put_series_key ''segment block string is too large'' ''segment block contains too many tags''
              (block_series b) empty_writer)
       (\<lambda>w. Inr (bw_data (fold write_sample (block_samples b) w)))"
proof -
  have "(\<lambda>t w. ebind (block_write_string (tag_key t) w) (block_write_string (tag_value t))) =
      put_tag ''segment block string is too large''"
    by (simp add: fun_eq_iff put_tag_def block_write_string_def[abs_def])
  then show ?thesis
    unfolding block_encode_payload_def put_series_key_def
    by (simp add: block_write_string_def put_string_appended Let_def)
qed

lemma block_fits_series: "block_fits b \<Longrightarrow> series_fits (block_series b)"
  by (rule series_fits_if_small)
    (simp add: block_fits_def block_payload_bytes_def max_segment_block_payload_size_def)

lemma encode_segment_block_Inr:
  "encode_segment_block b = Inr bytes \<longleftrightarrow> block_fits b \<and> bytes = segment_block_bytes b"
proof -
  have bytes: "block_encode_payload b = Inr (block_payload_bytes b)" if "series_fits (block_series b)"
    using that by (simp add: block_encode_payload_eq codec_simps fold_write_sample block_payload_bytes_def)
  have no: "\<exists>m. block_encode_payload b = Inl (LengthError m)" if "\<not> series_fits (block_series b)"
    using put_series_key_error[OF that, of "''segment block string is too large''"
        "''segment block contains too many tags''" empty_writer]
    by (auto simp: block_encode_payload_eq)
  show ?thesis
  proof (cases "series_fits (block_series b)")
    case True
    then show ?thesis
      by (auto simp: encode_segment_block_def bytes block_fits_def segment_block_bytes_def checksummed_def
          block_protected_bytes_def block_header_bytes_def block_sample_count_def codec_simps Let_def not_less)
  next
    case False
    with no block_fits_series show ?thesis by (auto simp: encode_segment_block_def)
  qed
qed

lemma encode_segment_block_error:
  "\<not> block_fits b \<Longrightarrow> \<exists>msg. encode_segment_block b = Inl (LengthError msg)"
proof -
  assume nf: "\<not> block_fits b"
  show ?thesis
  proof (cases "series_fits (block_series b)")
    case True
    with nf show ?thesis
      by (simp add: encode_segment_block_def block_encode_payload_eq codec_simps fold_write_sample
          block_payload_bytes_def block_fits_def)
  next
    case False
    show ?thesis
      using put_series_key_error[OF False, of "''segment block string is too large''"
          "''segment block contains too many tags''" empty_writer]
      by (auto simp: encode_segment_block_def block_encode_payload_eq)
  qed
qed

section \<open>Decoding\<close>

lemma block_header_exists:
  assumes "20 \<le> length bytes"
  shows "\<exists>magic version flags len inverted n body.
     bytes = block_header_bytes magic version flags len inverted n @ body"
proof -
  obtain k where n: "length bytes = 20 + k" using assms le_Suc_ex by blast
  obtain m y1 where 1: "bytes = u32_bytes m @ y1" "length y1 = 16 + k"
    using split_int(3)[of bytes "16 + k"] n by auto
  obtain v y2 where 2: "y1 = u16_bytes v @ y2" "length y2 = 14 + k"
    using split_int(2)[of y1 "14 + k"] 1(2) by auto
  obtain f y3 where 3: "y2 = u16_bytes f @ y3" "length y3 = 12 + k"
    using split_int(2)[of y2 "12 + k"] 2(2) by auto
  obtain s y4 where 4: "y3 = u32_bytes s @ y4" "length y4 = 8 + k"
    using split_int(3)[of y3 "8 + k"] 3(2) by auto
  obtain i y5 where 5: "y4 = u32_bytes i @ y5" "length y5 = 4 + k"
    using split_int(3)[of y4 "4 + k"] 4(2) by auto
  obtain n y6 where 6: "y5 = u32_bytes n @ y6" "length y6 = k"
    using split_int(3)[of y5 "k"] 5(2) by auto
  have "bytes = block_header_bytes m v f s i n @ y6"
    by (simp add: block_header_bytes_def 1(1) 2(1) 3(1) 4(1) 5(1) 6(1))
  then show ?thesis by blast
qed

lemma decode_segment_block_header:
  "decode_segment_block (block_header_bytes magic version flags len inverted n @ body) =
     decode_block_frame (block_header_bytes magic version flags len inverted n @ body)
       magic version flags len inverted n"
  by (simp add: decode_segment_block_def block_header_bytes_def segment_block_header_size_def codec_simps)

lemma decode_block_frame_append:
  assumes "block_error (decode_block_frame bytes magic version flags len inverted n) \<noteq> block_incomplete"
  shows "decode_block_frame (bytes @ later) magic version flags len inverted n =
         decode_block_frame bytes magic version flags len inverted n"
proof (cases "length bytes < 20 + unat len + 4")
  case True
  have "decode_block_frame bytes magic version flags len inverted n = block_decode_failure block_incomplete"
    if "magic = segment_block_magic" "inverted = len XOR 0xFFFFFFFF"
       "unat len \<le> max_segment_block_payload_size"
    using that True
    by (simp add: decode_block_frame_def Let_def segment_block_header_size_def segment_block_checksum_size_def)
  with assms have "magic \<noteq> segment_block_magic \<or> inverted \<noteq> len XOR 0xFFFFFFFF \<or>
      unat len > max_segment_block_payload_size"
    by (fastforce simp: block_decode_failure_def)
  then show ?thesis by (auto simp: decode_block_frame_def Let_def)
next
  case False
  then have "take (20 + unat len) (bytes @ later) = take (20 + unat len) bytes"
    "take 4 (drop (20 + unat len) (bytes @ later)) = take 4 (drop (20 + unat len) bytes)"
    "take (unat len) (drop 20 (bytes @ later)) = take (unat len) (drop 20 bytes)"
    "\<not> length (bytes @ later) < 20 + unat len + 4"
    by simp_all
  with False show ?thesis
    unfolding decode_block_frame_def Let_def segment_block_header_size_def segment_block_checksum_size_def
    by (simp only: if_False)
qed

lemma decode_segment_block_append:
  assumes "block_error (decode_segment_block bytes) \<noteq> block_incomplete"
  shows "decode_segment_block (bytes @ later) = decode_segment_block bytes"
proof -
  have "20 \<le> length bytes"
    using assms by (auto simp: decode_segment_block_def block_decode_failure_def
        segment_block_header_size_def split: if_splits)
  then obtain m v f s i n body where b: "bytes = block_header_bytes m v f s i n @ body"
    using block_header_exists by blast
  have "decode_segment_block bytes = decode_block_frame bytes m v f s i n"
    using decode_segment_block_header by (simp add: b)
  moreover have "decode_segment_block (bytes @ later) = decode_block_frame (bytes @ later) m v f s i n"
    using decode_segment_block_header[of m v f s i n "body @ later"] by (simp add: b)
  ultimately show ?thesis
    using decode_block_frame_append assms by simp
qed

text \<open>Every accepted block came from a header, a matching checksum and an accepted payload.\<close>

lemma decode_block_frame_success:
  assumes "block_success (decode_block_frame bytes magic version flags len inverted n)"
  shows "\<exists>b. decode_block_frame bytes magic version flags len inverted n =
      \<lparr>decoded_block = Some b, block_error = block_none, block_bytes_consumed = 24 + unat len\<rparr> \<and>
    magic = segment_block_magic \<and> version = segment_block_version \<and> flags = segment_block_flags \<and>
    inverted = len XOR 0xFFFFFFFF \<and> unat len \<le> max_segment_block_payload_size \<and>
    24 + unat len \<le> length bytes \<and>
    block_decode_payload (take (unat len) (drop 20 bytes)) n = Some b \<and>
    take (24 + unat len) bytes = checksummed (take (20 + unat len) bytes)"
proof -
  let ?n = "20 + unat len"
  have long: "24 + unat len \<le> length bytes"
    using assms by (auto simp: decode_block_frame_def Let_def block_success_def block_decode_failure_def
        segment_block_header_size_def segment_block_checksum_size_def split: if_splits)
  obtain c r where c: "read_u32 (make_reader (take 4 (drop ?n bytes))) = Some (c, r)"
    using long read_checksum_exists[of "take (24 + unat len) bytes" ?n] by (auto simp: drop_take)
  have chk: "take (24 + unat len) bytes = checksummed (take ?n bytes)" if "c = crc32c (take ?n bytes)"
    using checksum_field_match[of "take (24 + unat len) bytes" ?n r] c long that
    by (simp add: drop_take min_absorb1)
  show ?thesis
    using assms long c chk
    by (auto simp: decode_block_frame_def Let_def block_success_def block_decode_failure_def
        segment_block_header_size_def segment_block_checksum_size_def split: if_splits option.splits)
qed

lemma decode_segment_block_success:
  assumes "block_success (decode_segment_block bytes)"
  shows "\<exists>b n len. decode_segment_block bytes =
      \<lparr>decoded_block = Some b, block_error = block_none, block_bytes_consumed = 24 + unat len\<rparr> \<and>
    unat len \<le> max_segment_block_payload_size \<and>
    24 + unat len \<le> length bytes \<and> block_decode_payload (take (unat len) (drop 20 bytes)) n = Some b \<and>
    take 20 bytes = block_header_bytes segment_block_magic segment_block_version segment_block_flags
      len (len XOR 0xFFFFFFFF) n \<and>
    take (24 + unat len) bytes = checksummed (take (20 + unat len) bytes)"
proof -
  have "20 \<le> length bytes"
    using assms by (auto simp: decode_segment_block_def block_decode_failure_def block_success_def
        segment_block_header_size_def split: if_splits)
  then obtain m v f s i n body where b: "bytes = block_header_bytes m v f s i n @ body"
    using block_header_exists by blast
  have dec: "decode_segment_block bytes = decode_block_frame bytes m v f s i n"
    using decode_segment_block_header by (simp add: b)
  have "take 20 bytes = block_header_bytes m v f s i n" by (simp add: b)
  with decode_block_frame_success[of bytes m v f s i n] assms show ?thesis
    unfolding dec by blast
qed

section \<open>Payload round trip\<close>

lemma get_samples_at:
  "list_all sample_wf xs \<Longrightarrow>
     get_samples (length xs) acc (reader_at pre (concat (map sample_bytes xs) @ ys)) =
     Some (acc @ xs, reader_at (pre @ concat (map sample_bytes xs)) ys)"
proof (induction xs arbitrary: acc pre)
  case (Cons x xs)
  then show ?case
    by (simp add: sample_bytes_def[of x] codec_simps sample_wf_def[of x])
qed simp

lemma get_samples_SomeD:
  assumes "get_samples n acc (reader_at pre xs) = Some (ss, r)"
  shows "\<exists>rs ys. ss = acc @ rs \<and> length rs = n \<and> list_all sample_wf rs \<and>
     xs = concat (map sample_bytes rs) @ ys \<and> r = reader_at (pre @ concat (map sample_bytes rs)) ys"
  using assms
proof (induction n arbitrary: acc pre xs)
  case (Suc n)
  obtain t r1 v r2 where t: "read_u64 (reader_at pre xs) = Some (t, r1)"
    and v: "read_u64 r1 = Some (v, r2)" and fin: "isfinite v"
    and rest: "get_samples n (acc @ [Sample (Timestamp t) v]) r2 = Some (ss, r)"
    using Suc.prems by (auto simp: make_Sample_def split: option.splits if_splits)
  obtain y1 where y1: "xs = u64_bytes t @ y1" "r1 = reader_at (pre @ u64_bytes t) y1"
    using read_int_SomeD(4)[OF t] by auto
  obtain y2 where y2: "y1 = u64_bytes v @ y2" "r2 = reader_at ((pre @ u64_bytes t) @ u64_bytes v) y2"
    using read_int_SomeD(4)[OF v[unfolded y1(2)]] by auto
  obtain rs ys where IH: "ss = (acc @ [Sample (Timestamp t) v]) @ rs" "length rs = n"
      "list_all sample_wf rs" "y2 = concat (map sample_bytes rs) @ ys"
      "r = reader_at (((pre @ u64_bytes t) @ u64_bytes v) @ concat (map sample_bytes rs)) ys"
    using Suc.IH[OF rest[unfolded y2(2)]] by blast
  show ?case
    by (rule exI[of _ "Sample (Timestamp t) v # rs"], rule exI[of _ ys])
      (use IH y1 y2 fin in \<open>simp add: sample_bytes_def[of "Sample (Timestamp t) v"]
        sample_wf_def[of "Sample (Timestamp t) v"]\<close>)
qed simp

lemma block_decode_payload_bytes:
  assumes "block_wf b" "series_fits (block_series b)"
  shows "block_decode_payload (block_payload_bytes b) (of_nat (length (block_samples b))) = Some b"
proof -
  let ?k = "block_series b" and ?n = "of_nat (length (block_samples b)) :: u32"
  have fits: "string_fits (measurement ?k)" "length (tags ?k) \<le> 0xFFFFFFFF" "list_all tag_fits (tags ?k)"
    using assms(2) by (auto simp: series_fits_def)
  have wf: "list_all tag_wf (tags ?k)" "sorted_wrt (<) (map tag_key (tags ?k))" "series_wf ?k"
    and ss: "list_all sample_wf (block_samples b)"
    using assms(1) by (auto simp: block_wf_def series_wf_def)
  have n: "unat ?n = length (block_samples b)"
    using assms(1) by (simp add: unat_of_nat_u32 block_wf_def max_samples_per_segment_block_def)
  have enough: "length (tags ?k) \<le> length (concat (map tag_bytes (tags ?k))) div 8"
    using length_concat_tag_bytes[of "tags ?k"] by simp
  have tags: "get_tags True (length (tags ?k)) [] (reader_at pre (concat (map tag_bytes (tags ?k)) @ ys)) =
      Some (tags ?k, reader_at (pre @ concat (map tag_bytes (tags ?k))) ys)" for pre ys
    using get_tags_at[OF fits(3) wf(1), of True "[]"] wf(2) by simp
  have samples: "get_samples (length (block_samples b)) [] (reader_at pre (concat (map sample_bytes (block_samples b)))) =
      Some (block_samples b, reader_at (pre @ concat (map sample_bytes (block_samples b))) [])" for pre
    using get_samples_at[OF ss, of "[]" pre "[]"] by simp
  show ?thesis
    using fits(1,2) enough
    by (simp add: block_decode_payload_def block_read_string_def block_payload_bytes_def series_bytes_def
        codec_simps unat_of_nat_u32 n tags samples make_SegmentBlock_wf[OF assms(1)]
        make_SeriesKey_canonical[OF wf(3)] encoded_sample_size_def minimum_encoded_tag_size_def Let_def
        del: length_concat)
qed

text \<open>The payload decoder accepts canonical payloads only.\<close>

lemma block_decode_payload_SomeD:
  assumes "block_decode_payload p n = Some b"
  shows "block_wf b \<and> p = block_payload_bytes b \<and> unat n = length (block_samples b)"
proof -
  obtain m r1 c r2 ts r3 ss r4 k where
      m: "get_string (reader_at [] p) = Some (m, r1)" and c: "read_u32 r1 = Some (c, r2)"
      and ts: "get_tags True (unat c) [] r2 = Some (ts, r3)"
      and ss: "get_samples (unat n) [] r3 = Some (ss, r4)" and fin: "remaining r4 = 0"
      and k: "make_SeriesKey m ts = Inr k" and b: "make_SegmentBlock k ss = Inr b"
    using assms
    by (auto simp: block_decode_payload_def block_read_string_def bind_eq_Some_conv Let_def make_reader_at
        ebind_eq_Inr sum_case_Some_iff split: if_splits)
  obtain y1 where y1: "p = string_bytes m @ y1" "r1 = reader_at (string_bytes m) y1"
    using get_string_SomeD[OF m] by auto
  obtain y2 where y2: "y1 = u32_bytes c @ y2" "r2 = reader_at (string_bytes m @ u32_bytes c) y2"
    using read_int_SomeD(3)[OF c[unfolded y1(2)]] by auto
  obtain y3 where ts': "length ts = unat c" "list_all tag_wf ts" "y2 = concat (map tag_bytes ts) @ y3"
      "r3 = reader_at ((string_bytes m @ u32_bytes c) @ concat (map tag_bytes ts)) y3"
      "sorted_wrt (<) (map tag_key ts)"
    using get_tags_SomeD[OF ts[unfolded y2(2)]] by auto
  obtain y4 where ss': "length ss = unat n" "list_all sample_wf ss" "y3 = concat (map sample_bytes ss) @ y4"
      "remaining r4 = length y4"
    using get_samples_SomeD[OF ss[unfolded ts'(4)]] by auto
  have "sort ts = ts" using sorted_keys_sorted_tags[OF ts'(5)] by (simp add: sort_key_id_if_sorted)
  then have kk: "k = SeriesKey m ts" and kw: "series_wf k"
    using k ts'(2) make_SeriesKey_wf[OF k] by (auto simp: make_SeriesKey_Inr)
  have bb: "b = SegmentBlock k ss" using b by (simp add: make_SegmentBlock_Inr)
  have "of_nat (length ts) = c" by (simp add: ts'(1))
  then have "p = block_payload_bytes b"
    using y1(1) y2(1) ts'(3) ss'(3,4) fin
    by (simp add: bb kk block_payload_bytes_def series_bytes_def)
  with block_wf_make[OF b kw ss'(2)] ss'(1) show ?thesis by (simp add: bb)
qed

section \<open>The codec is framed and canonical\<close>

lemma segment_block_bytes_header:
  "segment_block_bytes b =
     block_header_bytes segment_block_magic segment_block_version segment_block_flags
       (of_nat (length (block_payload_bytes b))) (of_nat (length (block_payload_bytes b)) XOR 0xFFFFFFFF)
       (of_nat (length (block_samples b))) @
     block_payload_bytes b @
     u32_bytes (crc32c (block_protected_bytes (block_payload_bytes b) (length (block_samples b))))"
  by (simp add: segment_block_bytes_def checksummed_def block_protected_bytes_def)

lemma block_size_unat:
  "block_fits b \<Longrightarrow> unat (of_nat (length (block_payload_bytes b)) :: u32) = length (block_payload_bytes b)"
  by (simp add: unat_of_nat_u32 block_fits_def max_segment_block_payload_size_def)

lemma block_count_unat:
  "block_wf b \<Longrightarrow> unat (of_nat (length (block_samples b)) :: u32) = length (block_samples b)"
  by (simp add: unat_of_nat_u32 block_wf_def max_samples_per_segment_block_def)

lemma decode_segment_block_bytes:
  assumes "block_ok b"
  shows "decode_segment_block (segment_block_bytes b @ rest) =
     \<lparr>decoded_block = Some b, block_error = block_none,
      block_bytes_consumed = length (segment_block_bytes b)\<rparr>"
proof -
  have wf: "block_wf b" and fits: "block_fits b" using assms by (auto simp: block_ok_def)
  let ?n = "of_nat (length (block_samples b)) :: u32"
  have n: "?n \<noteq> 0" "unat ?n \<le> max_samples_per_segment_block"
    using wf block_count_unat[OF wf] by (auto simp: block_wf_def)
  have prot: "take (20 + length (block_payload_bytes b)) (segment_block_bytes b @ rest) =
      block_protected_bytes (block_payload_bytes b) (length (block_samples b))"
    by (simp add: segment_block_bytes_def checksummed_def block_protected_bytes_def)
  show ?thesis
    using fits n prot
    unfolding segment_block_bytes_header append_assoc decode_segment_block_header
    by (simp add: decode_block_frame_def Let_def block_size_unat[OF fits] block_constants block_fits_def
        read_u32_exact block_decode_payload_bytes[OF wf block_fits_series[OF fits]] not_less)
qed

lemma decode_segment_block_prefix:
  assumes "block_fits b" "n < length (segment_block_bytes b)"
  shows "decode_segment_block (take n (segment_block_bytes b)) = block_decode_failure block_incomplete"
proof (cases "n < 20")
  case True
  then show ?thesis by (simp add: decode_segment_block_def segment_block_header_size_def)
next
  case False
  let ?p = "block_payload_bytes b"
  let ?h = "block_header_bytes segment_block_magic segment_block_version segment_block_flags
     (of_nat (length ?p)) (of_nat (length ?p) XOR 0xFFFFFFFF) (of_nat (length (block_samples b)))"
  have "\<exists>body. take n (segment_block_bytes b) = ?h @ body"
    using False by (simp add: segment_block_bytes_header)
  then obtain body where b: "take n (segment_block_bytes b) = ?h @ body" by blast
  have "length (?h @ body) < 24 + length ?p"
    using assms(2) b[symmetric] by (simp add: length_segment_block_bytes)
  then show ?thesis
    using assms(1) unfolding b decode_segment_block_header
    by (simp add: decode_block_frame_def Let_def block_size_unat block_constants block_fits_def)
qed

text \<open>The bytes of an accepted block are the encoder's bytes for it.\<close>

lemma decode_segment_block_canonical:
  assumes "block_success (decode_segment_block bytes)"
  shows "\<exists>b. decode_segment_block bytes =
      \<lparr>decoded_block = Some b, block_error = block_none,
       block_bytes_consumed = length (segment_block_bytes b)\<rparr> \<and>
    block_ok b \<and> take (length (segment_block_bytes b)) bytes = segment_block_bytes b"
proof -
  obtain b n len where d: "decode_segment_block bytes =
      \<lparr>decoded_block = Some b, block_error = block_none, block_bytes_consumed = 24 + unat len\<rparr>"
    and len: "unat len \<le> max_segment_block_payload_size" "24 + unat len \<le> length bytes"
    and p: "block_decode_payload (take (unat len) (drop 20 bytes)) n = Some b"
    and h: "take 20 bytes = block_header_bytes segment_block_magic segment_block_version
      segment_block_flags len (len XOR 0xFFFFFFFF) n"
    and c: "take (24 + unat len) bytes = checksummed (take (20 + unat len) bytes)"
    using decode_segment_block_success[OF assms] by blast
  have b: "block_wf b" "take (unat len) (drop 20 bytes) = block_payload_bytes b"
      "unat n = length (block_samples b)"
    using block_decode_payload_SomeD[OF p] by auto
  have l: "length (block_payload_bytes b) = unat len"
    using b(2)[symmetric] len(2) by simp
  then have eqs: "of_nat (length (block_payload_bytes b)) = len" "of_nat (length (block_samples b)) = n"
    by (simp_all add: b(3)[symmetric])
  have "take (20 + unat len) bytes = take 20 bytes @ take (unat len) (drop 20 bytes)"
    by (simp add: take_add)
  also have "\<dots> = block_protected_bytes (block_payload_bytes b) (length (block_samples b))"
    by (simp add: h b(2) block_protected_bytes_def eqs)
  finally have "take (24 + unat len) bytes = segment_block_bytes b"
    using c by (simp add: segment_block_bytes_def)
  moreover have "block_ok b"
    using b(1) len(1) l by (simp add: block_ok_def block_fits_def)
  ultimately show ?thesis using d l by (simp add: length_segment_block_bytes)
qed

definition block_frame :: "byte list \<Rightarrow> (SegmentBlock, SegmentBlockDecodeError) frame" where
  "block_frame bytes =
     (let d = decode_segment_block bytes
      in if block_success d then Frame (the (decoded_block d)) (block_bytes_consumed d)
         else if block_error d = block_incomplete then Incomplete
         else Corrupt (block_error d))"

interpretation block_codec: framed_codec segment_block_bytes block_frame block_ok
proof
  fix b rest assume "block_ok b"
  then show "block_frame (segment_block_bytes b @ rest) = Frame b (length (segment_block_bytes b))"
    by (simp add: block_frame_def decode_segment_block_bytes block_success_def)
next
  fix b n assume "block_ok b" "n < length (segment_block_bytes b)"
  then show "block_frame (take n (segment_block_bytes b)) = Incomplete"
    by (simp add: block_frame_def block_ok_def decode_segment_block_prefix block_success_def
        block_decode_failure_def)
next
  fix bytes later assume "block_frame bytes \<noteq> Incomplete"
  then have "block_error (decode_segment_block bytes) \<noteq> block_incomplete"
    by (auto simp: block_frame_def block_success_def Let_def split: if_splits)
  then show "block_frame (bytes @ later) = block_frame bytes"
    by (simp add: block_frame_def decode_segment_block_append)
next
  fix bytes b n assume a: "block_frame bytes = Frame b n"
  then have s: "block_success (decode_segment_block bytes)"
    by (auto simp: block_frame_def Let_def split: if_splits)
  obtain b' where "decode_segment_block bytes =
      \<lparr>decoded_block = Some b', block_error = block_none,
       block_bytes_consumed = length (segment_block_bytes b')\<rparr>"
      "take (length (segment_block_bytes b')) bytes = segment_block_bytes b'"
    using decode_segment_block_canonical[OF s] by blast
  with a s show "0 < n \<and> n \<le> length bytes"
    using arg_cong[of "take (length (segment_block_bytes b')) bytes" _ length]
    by (auto simp: block_frame_def Let_def length_segment_block_bytes min_def split: if_splits)
qed

end
