(* ===== verification/Search.thy ===== *)
theory Search
  imports Prelude
begin

text \<open>
  \<^verbatim>\<open>std::lower_bound\<close> and \<^verbatim>\<open>std::upper_bound\<close> as the halving loop over positions that the
  standard library runs, and the fact the callers rely on: on a range partitioned by the
  predicate the loop finds the partition point, so the elements before it are the longest
  prefix that satisfies the predicate.
\<close>

function partition_point :: "(nat \<Rightarrow> bool) \<Rightarrow> nat \<Rightarrow> nat \<Rightarrow> nat" where
  "partition_point p first len =
     (if len = 0 then first
      else let half = len div 2; middle = first + half
           in if p middle then partition_point p (middle + 1) (len - half - 1)
              else partition_point p first half)"
  by pat_completeness auto
termination
  by (relation "measure (\<lambda>(p, first, len). len)") auto

declare partition_point.simps [simp del]

definition lower_bound :: "('a \<Rightarrow> bool) \<Rightarrow> 'a list \<Rightarrow> nat" where
  "lower_bound less_than_key xs = partition_point (\<lambda>i. less_than_key (xs ! i)) 0 (length xs)"

definition upper_bound :: "('a \<Rightarrow> bool) \<Rightarrow> 'a list \<Rightarrow> nat" where
  "upper_bound key_less_than xs = partition_point (\<lambda>i. \<not> key_less_than (xs ! i)) 0 (length xs)"

lemma partition_point_le: "partition_point p first len \<le> first + len"
proof (induction p first len rule: partition_point.induct)
  case (1 p first len)
  show ?case
  proof (cases "len = 0 \<or> \<not> p (first + len div 2)")
    case True
    then show ?thesis
      using 1(2)[OF _ refl refl] by (subst partition_point.simps) (auto simp: Let_def intro: order_trans)
  next
    case False
    then show ?thesis
      using 1(1)[OF _ refl refl] by (subst partition_point.simps) (auto simp: Let_def)
  qed
qed

lemma lower_bound_le: "lower_bound P xs \<le> length xs"
  using partition_point_le[of _ 0 "length xs"] by (simp add: lower_bound_def)

text \<open>The partition point of the positions from \<open>a\<close> to \<open>b\<close>.\<close>

definition splits_at :: "(nat \<Rightarrow> bool) \<Rightarrow> nat \<Rightarrow> nat \<Rightarrow> nat \<Rightarrow> bool" where
  "splits_at p a b r \<longleftrightarrow>
     a \<le> r \<and> r \<le> b \<and> (\<forall>i. a \<le> i \<and> i < r \<longrightarrow> p i) \<and> (\<forall>i. r \<le> i \<and> i < b \<longrightarrow> \<not> p i)"

lemma splits_at_right:
  "splits_at p m b r \<Longrightarrow> a \<le> m \<Longrightarrow> (\<And>i. a \<le> i \<Longrightarrow> i < m \<Longrightarrow> p i) \<Longrightarrow> splits_at p a b r"
  unfolding splits_at_def by (meson linorder_not_le order_trans)

lemma splits_at_left:
  "splits_at p a m r \<Longrightarrow> m \<le> b \<Longrightarrow> (\<And>i. m \<le> i \<Longrightarrow> i < b \<Longrightarrow> \<not> p i) \<Longrightarrow> splits_at p a b r"
  unfolding splits_at_def by (meson linorder_not_le order_trans)

lemma partition_point_splits:
  assumes "\<And>i j. first \<le> i \<Longrightarrow> i \<le> j \<Longrightarrow> j < first + len \<Longrightarrow> p j \<Longrightarrow> p i"
  shows "splits_at p first (first + len) (partition_point p first len)"
  using assms
proof (induction p first len rule: partition_point.induct)
  case (1 p first len)
  let ?half = "len div 2" and ?middle = "first + len div 2"
  show ?case
  proof (cases "len = 0")
    case True
    then show ?thesis by (auto simp: partition_point.simps splits_at_def)
  next
    case ne: False
    then have h: "?half < len" by simp
    show ?thesis
    proof (cases "p ?middle")
      case True
      have eq: "partition_point p first len = partition_point p (?middle + 1) (len - ?half - 1)"
        using ne True by (subst partition_point.simps) (simp add: Let_def)
      have b: "?middle + 1 + (len - ?half - 1) = first + len" using h by linarith
      have "splits_at p (?middle + 1) (first + len) (partition_point p first len)"
        unfolding eq b[symmetric]
      proof (rule "1.IH"(1)[OF ne refl refl True])
        fix i j assume "?middle + 1 \<le> i" "i \<le> j" "j < ?middle + 1 + (len - ?half - 1)" "p j"
        with b show "p i" by (intro "1.prems"[of i j]) auto
      qed
      then show ?thesis
        by (rule splits_at_right) (use "1.prems"[of _ ?middle] True h in auto)
    next
      case False
      have eq: "partition_point p first len = partition_point p first ?half"
        using ne False by (subst partition_point.simps) (simp add: Let_def)
      have "splits_at p first ?middle (partition_point p first len)"
        unfolding eq
      proof (rule "1.IH"(2)[OF ne refl refl False])
        fix i j assume "first \<le> i" "i \<le> j" "j < first + ?half" "p j"
        with h show "p i" by (intro "1.prems"[of i j]) auto
      qed
      then show ?thesis
        by (rule splits_at_left) (use "1.prems"[of ?middle] False h in auto)
    qed
  qed
qed

lemma partition_point_takeWhile:
  assumes "\<And>i j. i \<le> j \<Longrightarrow> j < length xs \<Longrightarrow> P (xs ! j) \<Longrightarrow> P (xs ! i)"
  shows "partition_point (\<lambda>i. P (xs ! i)) 0 (length xs) = length (takeWhile P xs)"
proof -
  obtain n where n: "n = partition_point (\<lambda>i. P (xs ! i)) 0 (length xs)" by blast
  have mono: "\<And>i j. 0 \<le> i \<Longrightarrow> i \<le> j \<Longrightarrow> j < 0 + length xs \<Longrightarrow> P (xs ! j) \<Longrightarrow> P (xs ! i)"
    using assms unfolding add_0 by blast
  have c: "splits_at (\<lambda>i. P (xs ! i)) 0 (length xs) n"
    using partition_point_splits[of 0 "length xs" "\<lambda>i. P (xs ! i)", OF mono] unfolding n add_0 .
  have "takeWhile P xs = take n xs"
    by (rule takeWhile_eq_take_P_nth) (use c in \<open>auto simp: splits_at_def\<close>)
  moreover have "n \<le> length xs" using c by (simp add: splits_at_def)
  ultimately show ?thesis unfolding n[symmetric] by simp
qed

text \<open>A list whose elements satisfy \<open>P\<close> first and then no more.\<close>

lemma lower_bound_partitioned:
  assumes "\<And>i j. i \<le> j \<Longrightarrow> j < length xs \<Longrightarrow> P (xs ! j) \<Longrightarrow> P (xs ! i)"
  shows "drop (lower_bound P xs) xs = dropWhile P xs" "take (lower_bound P xs) xs = takeWhile P xs"
  using partition_point_takeWhile[of xs P, OF assms]
  by (simp_all add: lower_bound_def dropWhile_eq_drop takeWhile_eq_take[symmetric])

lemma upper_bound_partitioned:
  assumes "\<And>i j. i \<le> j \<Longrightarrow> j < length xs \<Longrightarrow> Q (xs ! i) \<Longrightarrow> Q (xs ! j)"
  shows "take (upper_bound Q xs) xs = takeWhile (\<lambda>x. \<not> Q x) xs" "upper_bound Q xs \<le> length xs"
proof -
  have "partition_point (\<lambda>i. \<not> Q (xs ! i)) 0 (length xs) = length (takeWhile (\<lambda>x. \<not> Q x) xs)"
    by (rule partition_point_takeWhile) (use assms in blast)
  then show "take (upper_bound Q xs) xs = takeWhile (\<lambda>x. \<not> Q x) xs" "upper_bound Q xs \<le> length xs"
    by (simp_all add: upper_bound_def takeWhile_eq_take[symmetric] length_takeWhile_le)
qed

text \<open>Searching by a key along which the list is sorted.\<close>

lemma lower_bound_sorted:
  fixes f :: "'a \<Rightarrow> 'k :: linorder"
  assumes "sorted (map f xs)"
  shows "drop (lower_bound (\<lambda>x. f x < k) xs) xs = dropWhile (\<lambda>x. f x < k) xs"
    "take (lower_bound (\<lambda>x. f x < k) xs) xs = takeWhile (\<lambda>x. f x < k) xs"
proof -
  have mono: "f (xs ! i) < k" if "i \<le> j" "j < length xs" "f (xs ! j) < k" for i j
    using sorted_nth_mono[OF assms, of i j] that by simp
  show "drop (lower_bound (\<lambda>x. f x < k) xs) xs = dropWhile (\<lambda>x. f x < k) xs"
    "take (lower_bound (\<lambda>x. f x < k) xs) xs = takeWhile (\<lambda>x. f x < k) xs"
    using lower_bound_partitioned[of xs "\<lambda>x. f x < k"] mono by blast+
qed

lemma upper_bound_sorted:
  fixes f :: "'a \<Rightarrow> 'k :: linorder"
  assumes "sorted (map f xs)"
  shows "take (upper_bound (\<lambda>x. k < f x) xs) xs = takeWhile (\<lambda>x. f x \<le> k) xs"
    "upper_bound (\<lambda>x. k < f x) xs \<le> length xs"
proof -
  have mono: "k < f (xs ! j)" if "i \<le> j" "j < length xs" "k < f (xs ! i)" for i j
    using sorted_nth_mono[OF assms, of i j] that by simp
  show "take (upper_bound (\<lambda>x. k < f x) xs) xs = takeWhile (\<lambda>x. f x \<le> k) xs"
    "upper_bound (\<lambda>x. k < f x) xs \<le> length xs"
    using upper_bound_partitioned[of xs "\<lambda>x. k < f x"] mono by (auto simp: not_less)
qed

end
