(* ===== verification/SegmentFile.thy ===== *)
theory SegmentFile
  imports SegmentBlockCodec FileIo Search
begin

unbundle bit_operations_syntax

text \<open>
  Immutable segment files: \<^verbatim>\<open>src/internal/segment_file.hpp\<close> and \<^verbatim>\<open>src/segment_file.cpp\<close>.  A
  file is a header, the encoded blocks, an index with one entry per block and a footer that
  repeats the header; the reader keeps the index in memory and reads blocks on demand, each
  checked against its entry.  This theory holds the definitions; the theory of the reader
  has the proofs.
\<close>

section \<open>Data\<close>

record SegmentIndexEntry =
  ie_series :: SeriesKey
  ie_first_timestamp :: Timestamp
  ie_last_timestamp :: Timestamp
  ie_block_offset :: u64
  ie_block_size :: u32
  ie_sample_count :: u32

record SegmentEnvelope =
  env_block_count :: u32
  env_index_offset :: u64
  env_index_size :: u64

record SegmentFileMetadata =
  md_file_size :: u64
  md_sample_count :: u64
  md_block_count :: u32

record SegmentReader =
  sr_path :: string
  sr_file_size :: u64
  sr_sample_count :: u64
  sr_index :: "SegmentIndexEntry list"

definition segment_file_magic :: u32 where "segment_file_magic = 0x46475343"
definition segment_footer_magic :: u32 where "segment_footer_magic = 0x54465343"
definition segment_index_magic :: u32 where "segment_index_magic = 0x58495343"
definition segment_file_version :: u16 where "segment_file_version = 1"
definition segment_file_flags :: u16 where "segment_file_flags = 0"
definition segment_header_size :: nat where "segment_header_size = 32"
definition segment_footer_size :: nat where "segment_footer_size = 32"
definition segment_index_header_size :: nat where "segment_index_header_size = 20"
definition checksum_size :: nat where "checksum_size = 4"
definition max_index_payload_size :: nat where "max_index_payload_size = 64 * 1024 * 1024"
definition max_segment_block_count :: nat where "max_segment_block_count = 1000000"

section \<open>Series keys\<close>

definition segment_write_string :: "string \<Rightarrow> ByteWriter \<Rightarrow> ByteWriter result" where
  "segment_write_string v w = put_string ''segment index string is too large'' v w"

definition segment_read_string :: "ByteReader \<Rightarrow> (string \<times> ByteReader) option" where
  "segment_read_string r = get_string r"

definition write_series_key :: "SeriesKey \<Rightarrow> ByteWriter \<Rightarrow> ByteWriter result" where
  "write_series_key series w =
     ebind (segment_write_string (measurement series) w) (\<lambda>w.
       if length (tags series) > 0xFFFFFFFF then Inl (LengthError ''segment index contains too many tags'')
       else efold (\<lambda>t w. ebind (segment_write_string (tag_key t) w) (segment_write_string (tag_value t)))
              (tags series) (write_u32 (of_nat (length (tags series))) w))"

definition read_series_key :: "ByteReader \<Rightarrow> (SeriesKey \<times> ByteReader) option" where
  "read_series_key r =
     do {
       (m, r) \<leftarrow> segment_read_string r;
       (tag_count, r) \<leftarrow> read_u32 r;
       if unat tag_count > remaining r div 8 then None
       else do {
         (ts, r) \<leftarrow> get_tags True (unat tag_count) [] r;
         case make_SeriesKey m ts of Inl _ \<Rightarrow> None | Inr k \<Rightarrow> Some (k, r)
       }
     }"

section \<open>Header and footer\<close>

definition encode_header :: "u32 \<Rightarrow> u64 \<Rightarrow> u64 \<Rightarrow> byte list" where
  "encode_header block_count index_offset index_size =
     (let w = write_u32 segment_file_magic empty_writer;
          w = write_u16 segment_file_version w;
          w = write_u16 segment_file_flags w;
          w = write_u32 block_count w;
          w = write_u64 index_offset w;
          w = write_u64 index_size w
      in bw_data (write_u32 (crc32c (bw_data w)) w))"

definition encode_footer :: "u32 \<Rightarrow> u64 \<Rightarrow> u64 \<Rightarrow> byte list" where
  "encode_footer block_count index_offset index_size =
     (let w = write_u32 segment_footer_magic empty_writer;
          w = write_u16 segment_file_version w;
          w = write_u16 segment_file_flags w;
          w = write_u64 index_offset w;
          w = write_u64 index_size w;
          w = write_u32 block_count w
      in bw_data (write_u32 (crc32c (bw_data w)) w))"

definition decode_header :: "byte list \<Rightarrow> SegmentEnvelope result" where
  "decode_header bytes =
     (if length bytes \<noteq> segment_header_size then Inl (SegmentFormatError ''invalid segment header size'')
      else case (do {
             (magic, r) \<leftarrow> read_u32 (make_reader bytes);
             (version, r) \<leftarrow> read_u16 r;
             (flags, r) \<leftarrow> read_u16 r;
             (block_count, r) \<leftarrow> read_u32 r;
             (index_offset, r) \<leftarrow> read_u64 r;
             (index_size, r) \<leftarrow> read_u64 r;
             (stored_checksum, r) \<leftarrow> read_u32 r;
             Some (magic, version, flags, block_count, index_offset, index_size, stored_checksum)
           }) of
             None \<Rightarrow> Inl (SegmentFormatError ''incomplete segment header'')
           | Some (magic, version, flags, block_count, index_offset, index_size, stored_checksum) \<Rightarrow>
               if magic \<noteq> segment_file_magic
               then Inl (SegmentFormatError ''invalid segment header magic'')
               else if stored_checksum \<noteq> crc32c (take (segment_header_size - checksum_size) bytes)
               then Inl (SegmentFormatError ''segment header checksum mismatch'')
               else if version \<noteq> segment_file_version \<or> flags \<noteq> segment_file_flags
               then Inl (SegmentFormatError ''unsupported segment header version or flags'')
               else if block_count = 0 \<or> unat block_count > max_segment_block_count
               then Inl (SegmentFormatError ''invalid segment block count'')
               else Inr \<lparr>env_block_count = block_count, env_index_offset = index_offset,
                         env_index_size = index_size\<rparr>)"

definition decode_footer :: "byte list \<Rightarrow> SegmentEnvelope result" where
  "decode_footer bytes =
     (if length bytes \<noteq> segment_footer_size then Inl (SegmentFormatError ''invalid segment footer size'')
      else case (do {
             (magic, r) \<leftarrow> read_u32 (make_reader bytes);
             (version, r) \<leftarrow> read_u16 r;
             (flags, r) \<leftarrow> read_u16 r;
             (index_offset, r) \<leftarrow> read_u64 r;
             (index_size, r) \<leftarrow> read_u64 r;
             (block_count, r) \<leftarrow> read_u32 r;
             (stored_checksum, r) \<leftarrow> read_u32 r;
             Some (magic, version, flags, index_offset, index_size, block_count, stored_checksum)
           }) of
             None \<Rightarrow> Inl (SegmentFormatError ''incomplete segment footer'')
           | Some (magic, version, flags, index_offset, index_size, block_count, stored_checksum) \<Rightarrow>
               if magic \<noteq> segment_footer_magic
               then Inl (SegmentFormatError ''invalid segment footer magic'')
               else if stored_checksum \<noteq> crc32c (take (segment_footer_size - checksum_size) bytes)
               then Inl (SegmentFormatError ''segment footer checksum mismatch'')
               else if version \<noteq> segment_file_version \<or> flags \<noteq> segment_file_flags
               then Inl (SegmentFormatError ''unsupported segment footer version or flags'')
               else Inr \<lparr>env_block_count = block_count, env_index_offset = index_offset,
                         env_index_size = index_size\<rparr>)"

section \<open>Index\<close>

definition write_index_entry :: "SegmentIndexEntry \<Rightarrow> ByteWriter \<Rightarrow> ByteWriter result" where
  "write_index_entry e w =
     (let w = write_u64 (ie_block_offset e) w;
          w = write_u32 (ie_block_size e) w;
          w = write_u32 (ie_sample_count e) w;
          w = write_u64 (nanoseconds_since_epoch (ie_first_timestamp e)) w;
          w = write_u64 (nanoseconds_since_epoch (ie_last_timestamp e)) w
      in write_series_key (ie_series e) w)"

definition encode_index :: "SegmentIndexEntry list \<Rightarrow> byte list result" where
  "encode_index entries =
     ebind (efold write_index_entry entries empty_writer) (\<lambda>payload.
       if length (bw_data payload) > max_index_payload_size
       then Inl (LengthError ''segment index payload is too large'')
       else let payload_size = of_nat (length (bw_data payload)) :: u32;
                inverted_size = payload_size XOR 0xFFFFFFFF;
                w = write_u32 segment_index_magic empty_writer;
                w = write_u16 segment_file_version w;
                w = write_u16 segment_file_flags w;
                w = write_u32 (of_nat (length entries)) w;
                w = write_u32 payload_size w;
                w = write_u32 inverted_size w;
                w = write_bytes (bw_data payload) w
            in Inr (bw_data (write_u32 (crc32c (bw_data w)) w)))"

text \<open>The loop of \<^verbatim>\<open>validate_index\<close>, with the previous entry and the expected offset.\<close>

fun validate_entries ::
  "u64 \<Rightarrow> SegmentIndexEntry option \<Rightarrow> u64 \<Rightarrow> SegmentIndexEntry list \<Rightarrow> unit result" where
  "validate_entries index_offset previous expected_offset [] =
     (if expected_offset \<noteq> index_offset
      then Inl (SegmentFormatError ''segment block region has an invalid size'') else Inr ())"
| "validate_entries index_offset previous expected_offset (e # rest) =
     (if ie_block_offset e \<noteq> expected_offset \<or> ie_block_offset e > index_offset \<or>
         ie_block_size e = 0 \<or> ie_sample_count e = 0 \<or>
         unat (ie_sample_count e) > max_samples_per_segment_block \<or>
         ie_last_timestamp e < ie_first_timestamp e
      then Inl (SegmentFormatError ''invalid segment index entry'')
      else if ucast (ie_block_size e) > index_offset - ie_block_offset e
      then Inl (SegmentFormatError ''segment block extends into index'')
      else if (case previous of
                 None \<Rightarrow> False
               | Some p \<Rightarrow> ie_series e < ie_series p \<or>
                          (ie_series e = ie_series p \<and> ie_first_timestamp e \<le> ie_last_timestamp p))
      then Inl (SegmentFormatError ''segment index is not strictly ordered'')
      else validate_entries index_offset (Some e) (expected_offset + ucast (ie_block_size e)) rest)"

definition validate_index :: "SegmentIndexEntry list \<Rightarrow> u64 \<Rightarrow> unit result" where
  "validate_index entries index_offset =
     validate_entries index_offset None (of_nat segment_header_size) entries"

definition read_index_entry :: "ByteReader \<Rightarrow> (SegmentIndexEntry \<times> ByteReader) result" where
  "read_index_entry r =
     (case (do {
        (block_offset, r) \<leftarrow> read_u64 r;
        (block_size, r) \<leftarrow> read_u32 r;
        (sample_count, r) \<leftarrow> read_u32 r;
        (first_timestamp_bits, r) \<leftarrow> read_u64 r;
        (last_timestamp_bits, r) \<leftarrow> read_u64 r;
        Some (block_offset, block_size, sample_count, first_timestamp_bits, last_timestamp_bits, r)
      }) of
        None \<Rightarrow> Inl (SegmentFormatError ''segment index entry is incomplete'')
      | Some (block_offset, block_size, sample_count, first_timestamp_bits, last_timestamp_bits, r) \<Rightarrow>
          (case read_series_key r of
             None \<Rightarrow> Inl (SegmentFormatError ''segment index contains an invalid series key'')
           | Some (series, r) \<Rightarrow>
               Inr (\<lparr>ie_series = series, ie_first_timestamp = Timestamp first_timestamp_bits,
                     ie_last_timestamp = Timestamp last_timestamp_bits, ie_block_offset = block_offset,
                     ie_block_size = block_size, ie_sample_count = sample_count\<rparr>, r)))"

fun read_index_entries ::
  "nat \<Rightarrow> SegmentIndexEntry list \<Rightarrow> ByteReader \<Rightarrow> (SegmentIndexEntry list \<times> ByteReader) result" where
  "read_index_entries 0 entries r = Inr (entries, r)"
| "read_index_entries (Suc n) entries r =
     ebind (read_index_entry r) (\<lambda>(e, r). read_index_entries n (entries @ [e]) r)"

text \<open>The part of \<^verbatim>\<open>decode_index\<close> after the header fields have been read.\<close>

definition decode_index_body ::
  "byte list \<Rightarrow> u32 \<Rightarrow> u64 \<Rightarrow> u32 \<Rightarrow> u16 \<Rightarrow> u16 \<Rightarrow> u32 \<Rightarrow> u32 \<Rightarrow> u32 \<Rightarrow> SegmentIndexEntry list result" where
  "decode_index_body bytes expected_entry_count index_offset magic version flags entry_count
     payload_size inverted_size =
     (if magic \<noteq> segment_index_magic \<or> version \<noteq> segment_file_version \<or> flags \<noteq> segment_file_flags
      then Inl (SegmentFormatError ''invalid or unsupported segment index header'')
      else if entry_count \<noteq> expected_entry_count \<or> entry_count = 0 \<or>
              unat entry_count > max_segment_block_count \<or>
              inverted_size \<noteq> payload_size XOR 0xFFFFFFFF \<or>
              unat payload_size > max_index_payload_size
      then Inl (SegmentFormatError ''invalid segment index metadata'')
      else if length bytes \<noteq> segment_index_header_size + unat payload_size + checksum_size
      then Inl (SegmentFormatError ''segment index size mismatch'')
      else let protected_size = length bytes - checksum_size
      in case read_u32 (make_reader (drop protected_size bytes)) of
           None \<Rightarrow> Inl (SegmentFormatError ''segment index checksum mismatch'')
         | Some (stored_checksum, _) \<Rightarrow>
             if stored_checksum \<noteq> crc32c (take protected_size bytes)
             then Inl (SegmentFormatError ''segment index checksum mismatch'')
             else ebind (read_index_entries (unat entry_count) []
                    (make_reader (take (unat payload_size) (drop segment_index_header_size bytes))))
                    (\<lambda>(entries, r).
                       if remaining r \<noteq> 0
                       then Inl (SegmentFormatError ''segment index contains trailing payload bytes'')
                       else ebind (validate_index entries index_offset) (\<lambda>_. Inr entries)))"

definition decode_index :: "byte list \<Rightarrow> u32 \<Rightarrow> u64 \<Rightarrow> SegmentIndexEntry list result" where
  "decode_index bytes expected_entry_count index_offset =
     (if length bytes < segment_index_header_size + checksum_size
      then Inl (SegmentFormatError ''segment index is incomplete'')
      else case (do {
             (magic, r) \<leftarrow> read_u32 (make_reader bytes);
             (version, r) \<leftarrow> read_u16 r;
             (flags, r) \<leftarrow> read_u16 r;
             (entry_count, r) \<leftarrow> read_u32 r;
             (payload_size, r) \<leftarrow> read_u32 r;
             (inverted_size, r) \<leftarrow> read_u32 r;
             Some (decode_index_body bytes expected_entry_count index_offset magic version flags
                     entry_count payload_size inverted_size)
           }) of
             None \<Rightarrow> Inl (SegmentFormatError ''segment index header is incomplete'')
           | Some result \<Rightarrow> result)"

section \<open>Writing a segment\<close>

fun check_block_order :: "SegmentBlock list \<Rightarrow> unit result" where
  "check_block_order (previous # current # rest) =
     (if block_series current < block_series previous \<or>
         (block_series current = block_series previous \<and>
          first_timestamp current \<le> last_timestamp previous)
      then Inl (InvalidArgument ''segment blocks must be strictly ordered'')
      else check_block_order (current # rest))"
| "check_block_order _ = Inr ()"

definition validate_blocks :: "SegmentBlock list \<Rightarrow> unit result" where
  "validate_blocks blocks =
     (if blocks = [] then Inl (InvalidArgument ''cannot write an empty segment'')
      else if length blocks > max_segment_block_count
      then Inl (LengthError ''segment contains too many blocks'')
      else check_block_order blocks)"

type_synonym segment_build = "byte list \<times> SegmentIndexEntry list \<times> u64"

text \<open>One iteration of the loop of \<^verbatim>\<open>write_segment_file\<close>.\<close>

definition add_block :: "SegmentBlock \<Rightarrow> segment_build \<Rightarrow> segment_build result" where
  "add_block block state =
     (case state of (file_bytes, entries, sample_count) \<Rightarrow>
       ebind (encode_segment_block block) (\<lambda>encoded.
         if length encoded > 0xFFFFFFFF then Inl (LengthError ''encoded segment block is too large'')
         else let block_samples = of_nat (block_sample_count block) :: u32;
                  e = \<lparr>ie_series = block_series block, ie_first_timestamp = first_timestamp block,
                       ie_last_timestamp = last_timestamp block,
                       ie_block_offset = of_nat (length file_bytes),
                       ie_block_size = of_nat (length encoded), ie_sample_count = block_samples\<rparr>
              in Inr (file_bytes @ encoded, entries @ [e], sample_count + ucast block_samples)))"

text \<open>Everything \<^verbatim>\<open>write_segment_file\<close> does before it touches the disk.\<close>

definition build_segment :: "SegmentBlock list \<Rightarrow> (byte list \<times> SegmentFileMetadata) result" where
  "build_segment blocks =
     ebind (validate_blocks blocks) (\<lambda>_.
     ebind (efold add_block blocks (replicate segment_header_size 0, [], 0))
       (\<lambda>(file_bytes, entries, sample_count).
       ebind (encode_index entries) (\<lambda>encoded_index.
         let index_offset = of_nat (length file_bytes) :: u64;
             index_size = of_nat (length encoded_index) :: u64;
             file_bytes = file_bytes @ encoded_index;
             footer = encode_footer (of_nat (length blocks)) index_offset index_size;
             file_bytes = file_bytes @ footer;
             header = encode_header (of_nat (length blocks)) index_offset index_size
         in if length header \<noteq> segment_header_size \<or> length footer \<noteq> segment_footer_size
            then Inl (LogicError ''segment envelope has an unexpected encoded size'')
            else let file_bytes = header @ drop (length header) file_bytes
                 in Inr (file_bytes,
                         \<lparr>md_file_size = of_nat (length file_bytes), md_sample_count = sample_count,
                          md_block_count = of_nat (length blocks)\<rparr>))))"

definition write_segment_file :: "string \<Rightarrow> SegmentBlock list \<Rightarrow> (fs, SegmentFileMetadata) act" where
  "write_segment_file path blocks f =
     (case build_segment blocks of
        Inl e \<Rightarrow> (Inl e, f)
      | Inr (file_bytes, metadata) \<Rightarrow>
          act_bind (atomic_write_file path file_bytes) (\<lambda>_. act_return metadata) f)"

section \<open>Reading a segment\<close>

definition open_segment :: "string \<Rightarrow> fs \<Rightarrow> SegmentReader result" where
  "open_segment path f =
     ebind (file_size_bytes path f) (\<lambda>file_size.
       if unat file_size < segment_header_size + segment_footer_size + segment_index_header_size + checksum_size
       then Inl (SegmentFormatError ''segment file is too small'')
       else
     ebind (read_file_bytes path 0 segment_header_size f) (\<lambda>header_bytes.
     ebind (read_file_bytes path (file_size - of_nat segment_footer_size) segment_footer_size f) (\<lambda>footer_bytes.
     ebind (decode_header header_bytes) (\<lambda>header.
     ebind (decode_footer footer_bytes) (\<lambda>footer.
       if env_block_count header \<noteq> env_block_count footer \<or>
          env_index_offset header \<noteq> env_index_offset footer \<or>
          env_index_size header \<noteq> env_index_size footer
       then Inl (SegmentFormatError ''segment header and footer disagree'')
       else if unat (env_index_offset header) < segment_header_size \<or>
               unat (env_index_size header) < segment_index_header_size + checksum_size \<or>
               unat (env_index_size header) > max_index_payload_size + segment_index_header_size + checksum_size \<or>
               env_index_offset header > file_size \<or>
               env_index_size header > file_size - env_index_offset header \<or>
               env_index_offset header + env_index_size header + of_nat segment_footer_size \<noteq> file_size
       then Inl (SegmentFormatError ''segment index bounds are invalid'')
       else
     ebind (read_file_bytes path (env_index_offset header) (unat (env_index_size header)) f) (\<lambda>index_bytes.
     ebind (decode_index index_bytes (env_block_count header) (env_index_offset header)) (\<lambda>index.
       Inr \<lparr>sr_path = path, sr_file_size = file_size,
            sr_sample_count = fold (\<lambda>e n. n + ucast (ie_sample_count e)) index 0,
            sr_index = index\<rparr>)))))))"

definition read_block :: "SegmentReader \<Rightarrow> SegmentIndexEntry \<Rightarrow> fs \<Rightarrow> SegmentBlock result" where
  "read_block r e f =
     ebind (read_file_bytes (sr_path r) (ie_block_offset e) (unat (ie_block_size e)) f) (\<lambda>bytes.
       let decoded = decode_segment_block bytes
       in if \<not> block_success decoded \<or> block_bytes_consumed decoded \<noteq> length bytes \<or>
             block_series (the (decoded_block decoded)) \<noteq> ie_series e \<or>
             block_sample_count (the (decoded_block decoded)) \<noteq> unat (ie_sample_count e) \<or>
             first_timestamp (the (decoded_block decoded)) \<noteq> ie_first_timestamp e \<or>
             last_timestamp (the (decoded_block decoded)) \<noteq> ie_last_timestamp e
          then Inl (SegmentFormatError ''segment block does not match its index entry'')
          else Inr (the (decoded_block decoded)))"

definition segment_latest :: "SegmentReader \<Rightarrow> fs \<Rightarrow> SeriesKey \<Rightarrow> Sample option result" where
  "segment_latest r f series =
     (let stop = upper_bound (\<lambda>e. series < ie_series e) (sr_index r)
      in if stop = 0 then Inr None
         else let e = sr_index r ! (stop - 1)
              in if ie_series e \<noteq> series then Inr None
                 else ebind (read_block r e f) (\<lambda>block. Inr (Some (last (block_samples block)))))"

text \<open>The loop of \<^verbatim>\<open>get\<close> over the entries from the lower bound on.\<close>

fun segment_get_loop ::
  "SegmentReader \<Rightarrow> fs \<Rightarrow> SeriesKey \<Rightarrow> Timestamp \<Rightarrow> SegmentIndexEntry list \<Rightarrow> Sample option result" where
  "segment_get_loop r f series t [] = Inr None"
| "segment_get_loop r f series t (e # rest) =
     (if ie_series e \<noteq> series then Inr None
      else if t < ie_first_timestamp e then Inr None
      else if t > ie_last_timestamp e then segment_get_loop r f series t rest
      else ebind (read_block r e f) (\<lambda>block.
             let samples = block_samples block;
                 i = lower_bound (\<lambda>s. timestamp s < t) samples
             in if i \<noteq> length samples \<and> timestamp (samples ! i) = t then Inr (Some (samples ! i))
                else Inr None))"

definition segment_get :: "SegmentReader \<Rightarrow> fs \<Rightarrow> SeriesKey \<Rightarrow> Timestamp \<Rightarrow> Sample option result" where
  "segment_get r f series t =
     segment_get_loop r f series t
       (drop (lower_bound (\<lambda>e. ie_series e < series) (sr_index r)) (sr_index r))"

fun segment_range_loop ::
  "SegmentReader \<Rightarrow> fs \<Rightarrow> SeriesKey \<Rightarrow> Timestamp \<Rightarrow> Timestamp \<Rightarrow> SegmentIndexEntry list \<Rightarrow>
   Sample list \<Rightarrow> Sample list result" where
  "segment_range_loop r f series start stop [] result = Inr result"
| "segment_range_loop r f series start stop (e # rest) result =
     (if ie_series e \<noteq> series then Inr result
      else if ie_last_timestamp e < start then segment_range_loop r f series start stop rest result
      else if ie_first_timestamp e \<ge> stop then Inr result
      else ebind (read_block r e f) (\<lambda>block.
             let samples = block_samples block;
                 from_first = drop (lower_bound (\<lambda>s. timestamp s < start) samples) samples;
                 selected = take (lower_bound (\<lambda>s. timestamp s < stop) from_first) from_first
             in segment_range_loop r f series start stop rest (result @ selected)))"

definition segment_range ::
  "SegmentReader \<Rightarrow> fs \<Rightarrow> SeriesKey \<Rightarrow> Timestamp \<Rightarrow> Timestamp \<Rightarrow> Sample list result" where
  "segment_range r f series start stop =
     (if stop < start then Inl (InvalidArgument ''range end must not precede range start'')
      else if start = stop then Inr []
      else segment_range_loop r f series start stop
             (drop (lower_bound (\<lambda>e. ie_series e < series) (sr_index r)) (sr_index r)) [])"

definition segment_blocks :: "SegmentReader \<Rightarrow> fs \<Rightarrow> SegmentBlock list result" where
  "segment_blocks r f = emap (\<lambda>e. read_block r e f) (sr_index r)"

end
