(* ===== verification/SegmentQueries.thy ===== *)
theory SegmentQueries
  imports SegmentFile
begin

text \<open>
  Queries on an open segment.  A reader whose blocks all pass their checks denotes the store
  of its blocks; point, latest and range queries, which find their place by binary search
  and read only the blocks they need, answer as the contract \<open>sample_source\<close> demands.
\<close>

section \<open>Blocks and index entries\<close>

definition entry_before :: "SegmentIndexEntry \<Rightarrow> SegmentIndexEntry \<Rightarrow> bool" where
  "entry_before a b \<longleftrightarrow> ie_series a < ie_series b \<or>
     (ie_series a = ie_series b \<and> ie_last_timestamp a < ie_first_timestamp b)"

text \<open>The entry \<open>e\<close> leads to the block \<open>b\<close>.\<close>

definition reads :: "SegmentReader \<Rightarrow> fs \<Rightarrow> SegmentIndexEntry \<Rightarrow> SegmentBlock \<Rightarrow> bool" where
  "reads r f e b \<longleftrightarrow> read_block r e f = Inr b"

lemma reads_block:
  assumes "reads r f e b"
  shows "block_ok b" "block_wf b" "ie_series e = block_series b"
    "ie_first_timestamp e = first_timestamp b" "ie_last_timestamp e = last_timestamp b"
    "unat (ie_sample_count e) = length (block_samples b)"
proof -
  obtain bytes where s: "block_success (decode_segment_block bytes)"
    and b: "b = the (decoded_block (decode_segment_block bytes))"
    and m: "ie_series e = block_series b" "ie_first_timestamp e = first_timestamp b"
      "ie_last_timestamp e = last_timestamp b" "unat (ie_sample_count e) = length (block_samples b)"
    using assms
    by (auto simp: reads_def read_block_def ebind_eq_Inr Let_def block_sample_count_def split: if_splits)
  show "block_ok b" using decode_segment_block_canonical[OF s] b by auto
  then show "block_wf b" by (simp add: block_ok_def)
  show "ie_series e = block_series b" "ie_first_timestamp e = first_timestamp b"
    "ie_last_timestamp e = last_timestamp b" "unat (ie_sample_count e) = length (block_samples b)"
    by (rule m)+
qed

lemma emap_list_all2: "emap g xs = Inr ys \<longleftrightarrow> list_all2 (\<lambda>x y. g x = Inr y) xs ys"
  by (induction xs arbitrary: ys) (auto simp: ebind_eq_Inr list_all2_Cons1)

lemma segment_blocks_reads: "segment_blocks r f = Inr bs \<longleftrightarrow> list_all2 (reads r f) (sr_index r) bs"
  by (simp add: segment_blocks_def emap_list_all2 reads_def[abs_def])

lemma entry_before_blocks: "reads r f e b \<Longrightarrow> reads r f e' b' \<Longrightarrow> entry_before e e' \<longleftrightarrow> block_before b b'"
  using reads_block[of r f e b] reads_block[of r f e' b'] by (simp add: entry_before_def block_before_def)

lemma reads_wf: "list_all2 (reads r f) es bs \<Longrightarrow> list_all block_wf bs"
  by (induction rule: list_all2_induct) (auto dest: reads_block)

lemma reads_sorted:
  "list_all2 (reads r f) es bs \<Longrightarrow> sorted_wrt entry_before es \<Longrightarrow> sorted_wrt block_before bs"
proof (induction rule: list_all2_induct)
  case (Cons e es b bs)
  have "block_before b b'" if "b' \<in> set bs" for b'
    using Cons that entry_before_blocks[of r f e b] list_all2_preimage[OF Cons.hyps(2) that] by auto
  with Cons show ?case by simp
qed simp

section \<open>Searching in a block\<close>

lemma block_lookup:
  assumes "sorted_wrt (<) (map timestamp xs)"
  shows "(let i = lower_bound (\<lambda>s. timestamp s < t) xs
          in if i \<noteq> length xs \<and> timestamp (xs ! i) = t then Some (xs ! i) else None) =
    map_option (Sample t) (samples_map xs t)"
proof -
  let ?i = "lower_bound (\<lambda>s. timestamp s < t) xs"
  have srt: "sorted (map timestamp xs)" using assms strict_sorted_iff by blast
  have d: "drop ?i xs = filter (\<lambda>s. t \<le> timestamp s) xs"
    using lower_bound_sorted(1)[OF srt] dropWhile_sorted_filter[OF assms] by simp
  have le: "?i \<le> length xs" by (rule lower_bound_le)
  show ?thesis
  proof (cases "samples_map xs t")
    case None
    then have "t \<notin> timestamp ` set xs" by (simp add: samples_map_None)
    then have "\<not> (?i \<noteq> length xs \<and> timestamp (xs ! ?i) = t)"
      using le by (metis imageI le_neq_implies_less nth_mem)
    with None show ?thesis by (auto simp: Let_def)
  next
    case (Some v)
    then have m: "Sample t v \<in> set xs" by (simp add: samples_map_Some[OF assms])
    then have mf: "Sample t v \<in> set (drop ?i xs)" unfolding d by simp
    then have lt: "?i < length xs" by (cases "?i < length xs") auto
    then have hd: "drop ?i xs = xs ! ?i # drop (Suc ?i) xs" by (simp add: Cons_nth_drop_Suc)
    have "sorted_wrt (<) (map timestamp (drop ?i xs))"
      using assms by (simp add: drop_map[symmetric] sorted_wrt_drop)
    moreover have "t \<le> timestamp (xs ! ?i)"
      using d hd by (metis (mono_tags, lifting) list.set_intros(1) mem_Collect_eq set_filter)
    ultimately have "Sample t v = xs ! ?i" using mf unfolding hd by auto
    then show ?thesis using lt Some by (simp add: Let_def) (metis Sample.sel(1))
  qed
qed

lemma block_slice:
  assumes "sorted_wrt (<) (map timestamp xs)"
  shows "(let from_first = drop (lower_bound (\<lambda>s. timestamp s < a) xs) xs
          in take (lower_bound (\<lambda>s. timestamp s < b) from_first) from_first) =
    filter (\<lambda>s. a \<le> timestamp s \<and> timestamp s < b) xs"
proof -
  have srt: "sorted (map timestamp xs)" using assms strict_sorted_iff by blast
  have d: "drop (lower_bound (\<lambda>s. timestamp s < a) xs) xs = filter (\<lambda>s. a \<le> timestamp s) xs"
    using lower_bound_sorted(1)[OF srt] dropWhile_sorted_filter[OF assms] by simp
  have f: "sorted_wrt (<) (map timestamp (filter (\<lambda>s. a \<le> timestamp s) xs))"
    by (rule sorted_filter_map_lt[OF assms])
  have "sorted (map timestamp (filter (\<lambda>s. a \<le> timestamp s) xs))" using f strict_sorted_iff by blast
  from lower_bound_sorted(2)[OF this, of b] show ?thesis
    using takeWhile_sorted_filter[OF f, of b] by (simp add: d Let_def conj_commute)
qed

section \<open>Point queries\<close>

lemma blocks_store_miss:
  "(\<And>b. b \<in> set bs \<Longrightarrow> block_series b = k \<Longrightarrow> t \<notin> timestamp ` set (block_samples b)) \<Longrightarrow>
     blocks_store bs k t = None"
proof (induction bs)
  case (Cons b bs)
  then show ?case
    by (auto simp: blocks_store_Cons[of b bs] store_overlay_def blocks_store_single samples_map_None)
qed simp

lemma blocks_store_head:
  assumes "block_series b = k" "blocks_store bs k t = None"
  shows "blocks_store (b # bs) k t = samples_map (block_samples b) t"
  using assms by (simp add: blocks_store_Cons[of b bs] store_overlay_def blocks_store_single map_add_def)

lemma blocks_store_skip:
  assumes "block_series b = k \<Longrightarrow> t \<notin> timestamp ` set (block_samples b)"
  shows "blocks_store (b # bs) k t = blocks_store bs k t"
  using assms
  by (auto simp: blocks_store_Cons[of b bs] store_overlay_def blocks_store_single map_add_def
      samples_map_None split: option.splits)

lemma later_block_misses:
  assumes "list_all block_wf bs" "\<forall>c\<in>set bs. block_before b c" "t \<le> last_timestamp b"
  shows "blocks_store bs (block_series b) t = None"
proof (rule blocks_store_miss)
  fix c assume c: "c \<in> set bs" "block_series c = block_series b"
  then have "last_timestamp b < first_timestamp c" "block_wf c"
    using assms(1,2) by (auto simp: block_before_def list_all_iff)
  with first_le_sample[OF this(2)] assms(3) show "t \<notin> timestamp ` set (block_samples c)" by force
qed

lemma sample_in_bounds:
  "block_wf b \<Longrightarrow> t < first_timestamp b \<or> last_timestamp b < t \<Longrightarrow> t \<notin> timestamp ` set (block_samples b)"
  using first_le_sample by fastforce

lemma segment_get_loop_correct:
  assumes "list_all2 (reads r f) es bs" "sorted_wrt entry_before es" "\<forall>e\<in>set es. k \<le> ie_series e"
  shows "segment_get_loop r f k t es = Inr (map_option (Sample t) (blocks_store bs k t))"
  using assms
proof (induction rule: list_all2_induct)
  case (Cons e es b bs)
  note rd = reads_block[OF Cons.hyps(1)]
  have wf: "list_all block_wf bs" and srt: "\<forall>c\<in>set bs. block_before b c"
    using reads_wf[OF Cons.hyps(2)] reads_sorted[of r f "e # es" "b # bs"] Cons by auto
  have above: "blocks_store (b # bs) k t = None" if "k < block_series b"
  proof (rule blocks_store_miss)
    fix c assume "c \<in> set (b # bs)" "block_series c = k"
    with srt that show "t \<notin> timestamp ` set (block_samples c)" by (auto simp: block_before_def)
  qed
  consider "ie_series e \<noteq> k" | "ie_series e = k" "t < ie_first_timestamp e"
    | "ie_series e = k" "ie_last_timestamp e < t"
    | "ie_series e = k" "ie_first_timestamp e \<le> t" "t \<le> ie_last_timestamp e"
    by fastforce
  then show ?case
  proof cases
    case 1
    then have "k < block_series b" using Cons.prems(2) rd(3) by auto
    with above 1 show ?thesis by simp
  next
    case 2
    have "t \<le> last_timestamp b" using 2 rd(4) first_le_last[OF rd(2)] by simp
    then have "blocks_store (b # bs) k t = None"
      using 2 rd blocks_store_skip[of b k t bs] sample_in_bounds[OF rd(2)] later_block_misses[OF wf srt] by auto
    with 2 show ?thesis by simp
  next
    case 3
    then have "blocks_store (b # bs) k t = blocks_store bs k t"
      using rd sample_in_bounds[OF rd(2)] by (intro blocks_store_skip) auto
    moreover have "\<not> t < ie_first_timestamp e" using 3 rd(4,5) first_le_last[OF rd(2)] by simp
    ultimately show ?thesis using 3 Cons by simp
  next
    case 4
    have "blocks_store (b # bs) k t = samples_map (block_samples b) t"
      using 4 rd(3,5) later_block_misses[OF wf srt, of t] by (intro blocks_store_head) auto
    moreover have "read_block r e f = Inr b" using Cons.hyps(1) by (simp add: reads_def)
    moreover have "sorted_wrt (<) (map timestamp (block_samples b))" using rd(2) by (simp add: block_wf_def)
    ultimately show ?thesis
      using 4 block_lookup[of "block_samples b" t] by (auto simp: Let_def split: if_splits)
  qed
qed simp

text \<open>Entries of smaller series do not matter.\<close>

lemma sorted_series: "sorted_wrt entry_before es \<Longrightarrow> sorted (map ie_series es)"
  by (induction es) (auto simp: entry_before_def)

lemma index_from_lower_bound:
  assumes "list_all2 (reads r f) es bs" "sorted_wrt entry_before es"
  obtains bs1 bs2 where "bs = bs1 @ bs2" "\<forall>b\<in>set bs1. block_series b < k"
    "list_all2 (reads r f) (drop (lower_bound (\<lambda>e. ie_series e < k) es) es) bs2"
    "\<forall>e\<in>set (drop (lower_bound (\<lambda>e. ie_series e < k) es) es). k \<le> ie_series e"
    "sorted_wrt entry_before (drop (lower_bound (\<lambda>e. ie_series e < k) es) es)"
proof -
  let ?n = "lower_bound (\<lambda>e. ie_series e < k) es"
  have srt: "sorted (map ie_series es)" by (rule sorted_series[OF assms(2)])
  have t: "take ?n es = takeWhile (\<lambda>e. ie_series e < k) es"
    and d: "drop ?n es = dropWhile (\<lambda>e. ie_series e < k) es"
    using lower_bound_sorted[OF srt] by simp_all
  have a: "list_all2 (reads r f) (take ?n es) (take ?n bs)" "list_all2 (reads r f) (drop ?n es) (drop ?n bs)"
    using assms(1) by (simp_all add: list_all2_takeI list_all2_dropI)
  have 1: "\<forall>b\<in>set (take ?n bs). block_series b < k"
  proof
    fix b assume "b \<in> set (take ?n bs)"
    then obtain e where "e \<in> set (take ?n es)" "reads r f e b"
      using list_all2_preimage[OF a(1)] by blast
    then show "block_series b < k" using t reads_block(3)[of r f e b] by (metis set_takeWhileD)
  qed
  have 2: "\<forall>e\<in>set (drop ?n es). k \<le> ie_series e"
    unfolding d
  proof
    fix e assume e: "e \<in> set (dropWhile (\<lambda>e. ie_series e < k) es)"
    have "sorted (map ie_series (dropWhile (\<lambda>e. ie_series e < k) es))"
      using sorted_wrt_drop[of "(\<le>)" "map ie_series es" ?n] srt by (simp add: drop_map d)
    moreover have "k \<le> ie_series (hd (dropWhile (\<lambda>e. ie_series e < k) es))"
      using e hd_dropWhile[of "\<lambda>e. ie_series e < k" es] by fastforce
    ultimately show "k \<le> ie_series e"
      using e by (cases "dropWhile (\<lambda>e. ie_series e < k) es") auto
  qed
  show thesis
    using that[of "take ?n bs" "drop ?n bs"] 1 2 a(2) sorted_wrt_drop[OF assms(2)] by simp
qed

lemma blocks_store_drop:
  assumes "\<forall>b\<in>set bs1. block_series b \<noteq> k"
  shows "blocks_store (bs1 @ bs2) k = blocks_store bs2 k"
proof -
  have "blocks_store bs1 k = Map.empty" using assms by (intro ext blocks_store_miss) auto
  then show ?thesis by (simp add: blocks_store_append store_overlay_def)
qed

lemma segment_get_correct:
  assumes "segment_blocks r f = Inr bs" "sorted_wrt entry_before (sr_index r)"
  shows "segment_get r f k t = Inr (map_option (Sample t) (blocks_store bs k t))"
proof -
  have l: "list_all2 (reads r f) (sr_index r) bs" using assms(1) by (simp add: segment_blocks_reads)
  obtain bs1 bs2 where "bs = bs1 @ bs2" "\<forall>b\<in>set bs1. block_series b < k"
    "segment_get r f k t = Inr (map_option (Sample t) (blocks_store bs2 k t))"
    using index_from_lower_bound[OF l assms(2), of k] segment_get_loop_correct
    unfolding segment_get_def by metis
  then show ?thesis using blocks_store_drop[of bs1 k bs2] by force
qed

section \<open>Range queries\<close>

definition blocks_slice :: "SegmentBlock list \<Rightarrow> SeriesKey \<Rightarrow> Timestamp \<Rightarrow> Timestamp \<Rightarrow> Sample list" where
  "blocks_slice bs k a b =
     concat (map (\<lambda>c. if block_series c = k
                      then filter (\<lambda>s. a \<le> timestamp s \<and> timestamp s < b) (block_samples c) else []) bs)"

lemma blocks_slice_simps [simp]:
  "blocks_slice [] k a b = []"
  "blocks_slice (c # bs) k a b =
     (if block_series c = k then filter (\<lambda>s. a \<le> timestamp s \<and> timestamp s < b) (block_samples c) else []) @
     blocks_slice bs k a b"
  "blocks_slice (bs @ cs) k a b = blocks_slice bs k a b @ blocks_slice cs k a b"
  by (simp_all add: blocks_slice_def)

lemma blocks_slice_empty:
  "(\<And>c s. c \<in> set bs \<Longrightarrow> block_series c = k \<Longrightarrow> s \<in> set (block_samples c) \<Longrightarrow> timestamp s < a \<or> b \<le> timestamp s) \<Longrightarrow>
     blocks_slice bs k a b = []"
  by (fastforce simp: blocks_slice_def filter_empty_conv)

lemma segment_range_loop_correct:
  assumes "list_all2 (reads r f) es bs" "sorted_wrt entry_before es" "\<forall>e\<in>set es. k \<le> ie_series e"
  shows "segment_range_loop r f k a b es acc = Inr (acc @ blocks_slice bs k a b)"
  using assms
proof (induction arbitrary: acc rule: list_all2_induct)
  case (Cons e es c bs)
  note rd = reads_block[OF Cons.hyps(1)]
  have wf: "list_all block_wf (c # bs)" and srt: "\<forall>d\<in>set bs. block_before c d"
    using reads_wf[of r f "e # es" "c # bs"] reads_sorted[of r f "e # es" "c # bs"] Cons by auto
  consider "ie_series e \<noteq> k" | "ie_series e = k" "ie_last_timestamp e < a"
    | "ie_series e = k" "a \<le> ie_last_timestamp e" "b \<le> ie_first_timestamp e"
    | "ie_series e = k" "a \<le> ie_last_timestamp e" "ie_first_timestamp e < b"
    by fastforce
  then show ?case
  proof cases
    case 1
    then have "k < block_series c" using Cons.prems(2) rd(3) by auto
    then have "blocks_slice (c # bs) k a b = []"
      using srt by (intro blocks_slice_empty) (auto simp: block_before_def)
    with 1 show ?thesis by simp
  next
    case 2
    have "timestamp s < a" if "s \<in> set (block_samples c)" for s
      using first_le_sample[OF rd(2) that] 2(2) rd(5) by force
    then have "filter (\<lambda>s. a \<le> timestamp s \<and> timestamp s < b) (block_samples c) = []"
      by (fastforce simp: filter_empty_conv)
    with 2 Cons show ?thesis by simp
  next
    case 3
    have "b \<le> timestamp s" if "d \<in> set (c # bs)" "block_series d = k" "s \<in> set (block_samples d)" for d s
    proof -
      have "block_wf d" using wf that(1) by (auto simp: list_all_iff)
      moreover have "first_timestamp c \<le> first_timestamp d"
        using that srt 3(1) rd(3) first_le_last[OF rd(2)] by (auto simp: block_before_def)
      ultimately show ?thesis using first_le_sample[of d s] that(3) 3(3) rd(4) by force
    qed
    then have "blocks_slice (c # bs) k a b = []" by (intro blocks_slice_empty) blast
    moreover have "\<not> ie_last_timestamp e < a" using 3(2) by (simp add: not_less)
    ultimately show ?thesis using 3 by simp
  next
    case 4
    have "read_block r e f = Inr c" using Cons.hyps(1) by (simp add: reads_def)
    moreover have "sorted_wrt (<) (map timestamp (block_samples c))" using rd(2) by (simp add: block_wf_def)
    moreover have "\<not> ie_last_timestamp e < a" "\<not> b \<le> ie_first_timestamp e"
      using 4(2,3) by (simp_all add: not_less not_le)
    ultimately show ?thesis
      using 4 Cons block_slice[of "block_samples c" a b] rd(3) by (simp add: Let_def)
  qed
qed simp

lemma segment_range_correct:
  assumes "segment_blocks r f = Inr bs" "sorted_wrt entry_before (sr_index r)" "a \<le> b"
  shows "segment_range r f k a b = Inr (blocks_slice bs k a b)"
proof (cases "a = b")
  case True
  then have "blocks_slice bs k a b = []" by (intro blocks_slice_empty) auto
  with True show ?thesis by (simp add: segment_range_def)
next
  case False
  have l: "list_all2 (reads r f) (sr_index r) bs" using assms(1) by (simp add: segment_blocks_reads)
  obtain bs1 bs2 where bs: "bs = bs1 @ bs2" and lt: "\<forall>b\<in>set bs1. block_series b < k"
    and res: "segment_range r f k a b = Inr ([] @ blocks_slice bs2 k a b)"
    using index_from_lower_bound[OF l assms(2), of k] segment_range_loop_correct False assms(3)
    unfolding segment_range_def by (metis not_le)
  have "blocks_slice bs1 k a b = []" using lt by (intro blocks_slice_empty) auto
  with bs res show ?thesis by simp
qed

lemma blocks_slice_is_range:
  assumes "list_all block_wf bs" "sorted_wrt block_before bs"
  shows "is_range (blocks_store bs) k a b (blocks_slice bs k a b)"
proof -
  have "sorted_wrt (<) (map timestamp (blocks_slice bs k a b))"
    using assms
  proof (induction bs)
    case (Cons c bs)
    have "sorted_wrt (<) (map timestamp (filter (\<lambda>s. a \<le> timestamp s \<and> timestamp s < b) (block_samples c)))"
      using Cons.prems by (intro sorted_filter_map_lt) (simp add: block_wf_def)
    moreover have "timestamp x < timestamp y"
      if "block_series c = k" "x \<in> set (block_samples c)" and y: "y \<in> set (blocks_slice bs k a b)" for x y
    proof -
      obtain d where d: "d \<in> set bs" "block_series d = k" "y \<in> set (block_samples d)"
        using y by (auto simp: blocks_slice_def split: if_splits)
      then have "last_timestamp c < first_timestamp d" "block_wf d"
        using Cons.prems that(1) by (auto simp: block_before_def list_all_iff)
      with first_le_sample[of c x] first_le_sample[of d y] d that(2) Cons.prems show ?thesis by fastforce
    qed
    ultimately show ?case using Cons by (auto simp: sorted_wrt_append)
  qed simp
  moreover have "set (blocks_slice bs k a b) = {Sample t v |t v. blocks_store bs k t = Some v \<and> a \<le> t \<and> t < b}"
  proof (intro set_eqI iffI)
    fix x assume "x \<in> set (blocks_slice bs k a b)"
    then obtain c where "c \<in> set bs" "block_series c = k" "x \<in> set (block_samples c)"
        "a \<le> timestamp x" "timestamp x < b"
      by (auto simp: blocks_slice_def split: if_splits)
    then show "x \<in> {Sample t v |t v. blocks_store bs k t = Some v \<and> a \<le> t \<and> t < b}"
      using blocks_store_Some[OF assms, of k "timestamp x" "sample_value x"] by (cases x) auto
  next
    fix x assume "x \<in> {Sample t v |t v. blocks_store bs k t = Some v \<and> a \<le> t \<and> t < b}"
    then obtain t v where x: "x = Sample t v" "blocks_store bs k t = Some v" "a \<le> t" "t < b" by auto
    then obtain c where "c \<in> set bs" "block_series c = k" "x \<in> set (block_samples c)"
      using blocks_store_Some[OF assms] by blast
    with x show "x \<in> set (blocks_slice bs k a b)" by (auto simp: blocks_slice_def)
  qed
  ultimately show ?thesis by (simp add: is_range_def)
qed

section \<open>Latest sample\<close>

lemma blocks_latest:
  assumes "list_all block_wf bs" "sorted_wrt block_before bs" "bs \<noteq> []" "block_series (last bs) = k"
  shows "is_latest (blocks_store bs) k (Some (last (block_samples (last bs))))"
proof -
  let ?b = "last bs" and ?s = "last (block_samples (last bs))"
  have wf: "block_wf ?b" and ne: "block_samples ?b \<noteq> []"
    using assms(1,3) by (auto simp: list_all_iff block_wf_def)
  have "?b \<in> set bs" "?s \<in> set (block_samples ?b)" using assms(3) ne by auto
  then have "blocks_store bs k (timestamp ?s) = Some (sample_value ?s)"
    using blocks_store_Some[OF assms(1,2)] assms(4) by auto
  moreover have "t \<le> timestamp ?s" if st: "blocks_store bs k t = Some v" for t v
  proof -
    obtain c where c: "c \<in> set bs" "block_series c = k" "Sample t v \<in> set (block_samples c)"
      using st blocks_store_Some[OF assms(1,2)] by blast
    then have cw: "block_wf c" using assms(1) by (simp add: list_all_iff)
    have "c = ?b \<or> block_before c ?b"
      using assms(2,3) c(1) by (cases bs rule: rev_cases) (auto simp: sorted_wrt_append)
    then have "last_timestamp c \<le> last_timestamp ?b"
      using first_le_last[OF wf] c(2) assms(4) by (auto simp: block_before_def)
    moreover have "t \<le> last_timestamp c" using first_le_sample[OF cw c(3)] by simp
    ultimately show ?thesis by (simp add: last_timestamp_def)
  qed
  ultimately show ?thesis by (simp add: is_latest_Some)
qed

lemma blocks_store_no_series: "\<forall>b\<in>set bs. block_series b \<noteq> k \<Longrightarrow> blocks_store bs k = Map.empty"
  using blocks_store_drop[of bs k "[]"] by simp

text \<open>The entries below the upper bound of a series and those from it on.\<close>

lemma upper_bound_entries:
  fixes k :: SeriesKey
  assumes l: "list_all2 (reads r f) es bs" and srt: "sorted_wrt entry_before es"
  defines "n \<equiv> upper_bound (\<lambda>e. k < ie_series e) es"
  shows "n \<le> length bs" "c \<in> set (drop n bs) \<Longrightarrow> block_series c \<noteq> k"
    "n \<noteq> 0 \<Longrightarrow> ie_series (es ! (n - 1)) \<noteq> k \<Longrightarrow> c \<in> set (take n bs) \<Longrightarrow> block_series c \<noteq> k"
proof -
  have tk: "take n es = takeWhile (\<lambda>e. ie_series e \<le> k) es" and n: "n \<le> length es"
    unfolding n_def using upper_bound_sorted[OF sorted_series[OF srt]] by auto
  have len: "length bs = length es" using l by (simp add: list_all2_lengthD)
  then show "n \<le> length bs" using n by simp
  have rd: "block_series (bs ! i) = ie_series (es ! i)" if "i < length bs" for i
    using l that reads_block(3) by (metis len list_all2_nthD2)
  have mono: "ie_series (es ! i) \<le> ie_series (es ! j)" if "i \<le> j" "j < length bs" for i j
    using sorted_nth_mono[OF sorted_series[OF srt] that(1)] that len by simp
  show "block_series c \<noteq> k" if c: "c \<in> set (drop n bs)"
  proof -
    obtain i where i: "n \<le> i" "i < length bs" "c = bs ! i"
      using c by (auto simp: in_set_conv_nth) (metis add.commute le_add1 less_diff_conv)
    have "n = length (takeWhile (\<lambda>e. ie_series e \<le> k) es)" using arg_cong[OF tk, of length] n by simp
    then have "\<not> ie_series (es ! n) \<le> k" using i len by (metis le_less_trans nth_length_takeWhile)
    then show ?thesis using mono[OF i(1,2)] rd[OF i(2)] i(3) by auto
  qed
  show "block_series c \<noteq> k" if ne: "n \<noteq> 0" "ie_series (es ! (n - 1)) \<noteq> k" and c: "c \<in> set (take n bs)"
  proof
    assume ck: "block_series c = k"
    have "es ! (n - 1) \<in> set (take n es)" using ne(1) n by (auto simp: in_set_conv_nth intro!: exI[of _ "n - 1"])
    then have "ie_series (es ! (n - 1)) \<le> k" unfolding tk by (metis set_takeWhileD)
    then have lt: "ie_series (es ! (n - 1)) < k" using ne(2) by simp
    obtain j where j: "j < n" "j < length bs" "c = bs ! j" using c by (auto simp: in_set_conv_nth)
    then have "ie_series (es ! j) \<le> ie_series (es ! (n - 1))" using mono[of j "n - 1"] n len by simp
    with lt ck rd[OF j(2)] j(3) show False by simp
  qed
qed

lemma segment_latest_correct:
  assumes "segment_blocks r f = Inr bs" "sorted_wrt entry_before (sr_index r)"
  shows "\<exists>x. segment_latest r f k = Inr x \<and> is_latest (blocks_store bs) k x"
proof -
  let ?es = "sr_index r" and ?n = "upper_bound (\<lambda>e. k < ie_series e) (sr_index r)"
  have l: "list_all2 (reads r f) ?es bs" using assms(1) by (simp add: segment_blocks_reads)
  note ub = upper_bound_entries[OF l assms(2), where k = k]
  have sub: "list_all block_wf (take ?n bs)" "sorted_wrt block_before (take ?n bs)"
    using reads_wf[OF l] reads_sorted[OF l assms(2)] by (auto simp: list_all_iff sorted_wrt_take dest: in_set_takeD)
  have "blocks_store (take ?n bs @ drop ?n bs) k = blocks_store (take ?n bs) k ++ blocks_store (drop ?n bs) k"
    by (simp only: blocks_store_append store_overlay_def)
  then have keep: "blocks_store bs k = blocks_store (take ?n bs) k"
    using ub(2) blocks_store_no_series[of "drop ?n bs" k] by simp
  have same: "is_latest (blocks_store bs) k x = is_latest (blocks_store (take ?n bs)) k x" for x
    by (cases x) (simp_all add: is_latest_Some is_latest_None keep)
  show ?thesis
  proof (cases "?n = 0")
    case True
    then show ?thesis using same by (simp add: segment_latest_def is_latest_None)
  next
    case False
    let ?i = "?n - 1"
    have i: "?i < length bs" using False ub(1) by simp
    then have rd: "reads r f (?es ! ?i) (bs ! ?i)" using l by (simp add: list_all2_conv_all_nth)
    show ?thesis
    proof (cases "ie_series (?es ! ?i) = k")
      case True
      have lst: "last (take ?n bs) = bs ! ?i" "take ?n bs \<noteq> []"
        using False take_Suc_conv_app_nth[OF i] by auto
      have "segment_latest r f k = Inr (Some (last (block_samples (bs ! ?i))))"
        using False True rd by (simp add: segment_latest_def Let_def reads_def)
      moreover have "is_latest (blocks_store (take ?n bs)) k (Some (last (block_samples (bs ! ?i))))"
        using blocks_latest[OF sub lst(2), of k] True reads_block(3)[OF rd] by (simp add: lst(1))
      ultimately show ?thesis using same by auto
    next
      case ne: False
      then have "is_latest (blocks_store (take ?n bs)) k None"
        using blocks_store_no_series[of "take ?n bs" k] ub(3)[OF False ne] by (simp add: is_latest_None)
      with ne False same show ?thesis by (simp add: segment_latest_def Let_def)
    qed
  qed
qed

section \<open>The contract\<close>

type_synonym open_segment_state = "fs \<times> SegmentReader"

definition segment_inv :: "open_segment_state \<Rightarrow> bool" where
  "segment_inv s \<longleftrightarrow>
     (\<exists>bs. segment_blocks (snd s) (fst s) = Inr bs) \<and> sorted_wrt entry_before (sr_index (snd s))"

definition segment_store :: "open_segment_state \<Rightarrow> store" where
  "segment_store s =
     (case segment_blocks (snd s) (fst s) of Inl _ \<Rightarrow> (\<lambda>_. Map.empty) | Inr bs \<Rightarrow> blocks_store bs)"

lemma segment_invD:
  assumes "segment_inv s"
  obtains bs where "segment_blocks (snd s) (fst s) = Inr bs" "sorted_wrt entry_before (sr_index (snd s))"
    "segment_store s = blocks_store bs" "list_all block_ok bs" "list_all block_wf bs" "sorted_wrt block_before bs"
proof -
  obtain bs where bs: "segment_blocks (snd s) (fst s) = Inr bs" and srt: "sorted_wrt entry_before (sr_index (snd s))"
    using assms by (auto simp: segment_inv_def)
  have l: "list_all2 (reads (snd s) (fst s)) (sr_index (snd s)) bs" using bs by (simp add: segment_blocks_reads)
  have "list_all block_ok bs" using l by (induction rule: list_all2_induct) (auto dest: reads_block)
  then show thesis
    using that bs srt reads_wf[OF l] reads_sorted[OF l srt] by (simp add: segment_store_def)
qed

interpretation segment: sample_source segment_inv segment_store
  "\<lambda>s. segment_get (snd s) (fst s)" "\<lambda>s. segment_latest (snd s) (fst s)" "\<lambda>s. segment_range (snd s) (fst s)"
proof
  fix s k t assume "segment_inv s"
  then show "segment_get (snd s) (fst s) k t = Inr (map_option (Sample t) (segment_store s k t))"
    by (metis segment_invD segment_get_correct)
next
  fix s k assume "segment_inv s"
  then show "\<exists>x. segment_latest (snd s) (fst s) k = Inr x \<and> is_latest (segment_store s) k x"
    by (metis segment_invD segment_latest_correct)
next
  fix s k a b assume "segment_inv s" "a \<le> (b :: Timestamp)"
  then show "\<exists>xs. segment_range (snd s) (fst s) k a b = Inr xs \<and> is_range (segment_store s) k a b xs"
    by (metis segment_invD segment_range_correct blocks_slice_is_range)
next
  fix s k a b assume "segment_inv s" "b < (a :: Timestamp)"
  then show "\<exists>msg. segment_range (snd s) (fst s) k a b = Inl (InvalidArgument msg)"
    by (simp add: segment_range_def)
qed

end
