(* ===== verification/SegmentFormat.thy ===== *)
theory SegmentFormat
  imports SegmentQueries
begin

unbundle bit_operations_syntax

text \<open>
  Writing and reopening a segment file.  \<open>segment_bytes\<close> is the byte image of a list of
  blocks; \<open>build_segment\<close> produces exactly it, and \<open>open_segment\<close> on a file with that
  image succeeds and gives a reader that denotes the store of the blocks.
\<close>

section \<open>Byte images\<close>

definition index_entry :: "nat \<Rightarrow> SegmentBlock \<Rightarrow> SegmentIndexEntry" where
  "index_entry off b =
     \<lparr>ie_series = block_series b, ie_first_timestamp = first_timestamp b,
      ie_last_timestamp = last_timestamp b, ie_block_offset = of_nat off,
      ie_block_size = of_nat (length (segment_block_bytes b)),
      ie_sample_count = of_nat (length (block_samples b))\<rparr>"

fun index_entries :: "nat \<Rightarrow> SegmentBlock list \<Rightarrow> SegmentIndexEntry list" where
  "index_entries off [] = []"
| "index_entries off (b # bs) = index_entry off b # index_entries (off + length (segment_block_bytes b)) bs"

definition region_bytes :: "SegmentBlock list \<Rightarrow> byte list" where
  "region_bytes bs = concat (map segment_block_bytes bs)"

definition entry_bytes :: "SegmentIndexEntry \<Rightarrow> byte list" where
  "entry_bytes e =
     u64_bytes (ie_block_offset e) @ u32_bytes (ie_block_size e) @ u32_bytes (ie_sample_count e) @
     u64_bytes (nanoseconds_since_epoch (ie_first_timestamp e)) @
     u64_bytes (nanoseconds_since_epoch (ie_last_timestamp e)) @ series_bytes (ie_series e)"

definition index_payload_bytes :: "SegmentIndexEntry list \<Rightarrow> byte list" where
  "index_payload_bytes es = concat (map entry_bytes es)"

definition index_header_bytes :: "u32 \<Rightarrow> u16 \<Rightarrow> u16 \<Rightarrow> u32 \<Rightarrow> u32 \<Rightarrow> u32 \<Rightarrow> byte list" where
  "index_header_bytes magic version flags n payload_size inverted_size =
     u32_bytes magic @ u16_bytes version @ u16_bytes flags @ u32_bytes n @ u32_bytes payload_size @
     u32_bytes inverted_size"

definition index_bytes :: "SegmentIndexEntry list \<Rightarrow> byte list" where
  "index_bytes es =
     (let payload = index_payload_bytes es; payload_size = of_nat (length payload) :: u32
      in checksummed (index_header_bytes segment_index_magic segment_file_version segment_file_flags
           (of_nat (length es)) payload_size (payload_size XOR 0xFFFFFFFF) @ payload))"

definition segment_bytes :: "SegmentBlock list \<Rightarrow> byte list" where
  "segment_bytes bs =
     (let n = of_nat (length bs) :: u32;
          index = index_bytes (index_entries 32 bs);
          index_offset = of_nat (32 + length (region_bytes bs)) :: u64;
          index_size = of_nat (length index) :: u64
      in encode_header n index_offset index_size @ region_bytes bs @ index @
         encode_footer n index_offset index_size)"

definition segment_metadata :: "SegmentBlock list \<Rightarrow> SegmentFileMetadata" where
  "segment_metadata bs =
     \<lparr>md_file_size = of_nat (length (segment_bytes bs)),
      md_sample_count = of_nat (sum_list (map (length \<circ> block_samples) bs)),
      md_block_count = of_nat (length bs)\<rparr>"

text \<open>What the writer accepts, for blocks of the class.\<close>

definition segment_ok :: "SegmentBlock list \<Rightarrow> bool" where
  "segment_ok bs \<longleftrightarrow>
     bs \<noteq> [] \<and> length bs \<le> max_segment_block_count \<and> list_all block_ok bs \<and>
     sorted_wrt block_before bs \<and>
     length (index_payload_bytes (index_entries 32 bs)) \<le> max_index_payload_size"

section \<open>Sizes\<close>

lemma length_index_entries [simp]: "length (index_entries off bs) = length bs"
  by (induction off bs rule: index_entries.induct) auto

lemma length_index_header_bytes [simp]: "length (index_header_bytes a b c d e f) = 20"
  by (simp add: index_header_bytes_def)

lemma length_index_bytes: "length (index_bytes es) = 24 + length (index_payload_bytes es)"
  by (simp add: index_bytes_def checksummed_def Let_def)

lemma length_envelope [simp]: "length (encode_header a b c) = 32" "length (encode_footer a b c) = 32"
  by (simp_all add: encode_header_def encode_footer_def Let_def codec_simps)

lemma length_segment_bytes:
  "length (segment_bytes bs) =
     88 + length (region_bytes bs) + length (index_payload_bytes (index_entries 32 bs))"
  by (simp add: segment_bytes_def Let_def length_index_bytes)

lemma block_bytes_bound: "block_fits b \<Longrightarrow> length (segment_block_bytes b) \<le> 16777240"
  by (simp add: length_segment_block_bytes block_fits_def max_segment_block_payload_size_def)

lemma region_bound: "list_all block_fits bs \<Longrightarrow> length (region_bytes bs) \<le> 16777240 * length bs"
  by (induction bs) (auto simp: region_bytes_def dest: block_bytes_bound)

lemma region_simps [simp]:
  "region_bytes [] = []" "region_bytes (b # bs) = segment_block_bytes b @ region_bytes bs"
  "region_bytes (bs @ cs) = region_bytes bs @ region_bytes cs"
  by (simp_all add: region_bytes_def)

lemma segment_ok_fits: "segment_ok bs \<Longrightarrow> list_all block_fits bs" "segment_ok bs \<Longrightarrow> list_all block_wf bs"
  by (auto simp: segment_ok_def block_ok_def list_all_iff)

lemma segment_size_bound: "segment_ok bs \<Longrightarrow> length (segment_bytes bs) \<le> 20000000000000"
  using region_bound[OF segment_ok_fits(1), of bs]
  by (simp add: length_segment_bytes segment_ok_def max_segment_block_count_def max_index_payload_size_def)

section \<open>The writer\<close>

lemma check_block_order_adjacent:
  "check_block_order bs = Inr () \<longleftrightarrow> (\<forall>i. Suc i < length bs \<longrightarrow> block_before (bs ! i) (bs ! Suc i))"
proof (induction bs rule: check_block_order.induct)
  case (1 p c r)
  have "block_before p c \<longleftrightarrow> \<not> (block_series c < block_series p \<or>
      (block_series c = block_series p \<and> first_timestamp c \<le> last_timestamp p))"
    by (auto simp: block_before_def not_le)
  with 1 show ?case by (auto simp: nth_Cons' less_Suc_eq_0_disj)
qed auto

lemma block_order_sorted:
  "list_all block_wf bs \<Longrightarrow> (\<forall>i. Suc i < length bs \<longrightarrow> block_before (bs ! i) (bs ! Suc i)) \<longleftrightarrow>
     sorted_wrt block_before bs"
proof (induction bs)
  case (Cons b bs)
  show ?case
  proof (cases bs)
    case Nil
    then show ?thesis by simp
  next
    case (Cons c cs)
    have "(\<forall>i. Suc i < length (b # bs) \<longrightarrow> block_before ((b # bs) ! i) ((b # bs) ! Suc i)) \<longleftrightarrow>
        block_before b c \<and> (\<forall>i. Suc i < length bs \<longrightarrow> block_before (bs ! i) (bs ! Suc i))"
      by (auto simp: Cons less_Suc_eq_0_disj)
    also have "\<dots> \<longleftrightarrow> block_before b c \<and> sorted_wrt block_before bs"
      using Cons.IH Cons.prems by simp
    also have "\<dots> \<longleftrightarrow> sorted_wrt block_before (b # bs)"
      using Cons.prems block_before_trans[of b c] by (auto simp: Cons)
    finally show ?thesis .
  qed
qed simp

lemma check_block_order_error: "check_block_order bs = Inl e \<Longrightarrow> \<exists>m. e = InvalidArgument m"
  by (induction bs rule: check_block_order.induct) (auto split: if_splits)

lemma validate_blocks_Inr:
  "list_all block_wf bs \<Longrightarrow> validate_blocks bs = Inr () \<longleftrightarrow>
     bs \<noteq> [] \<and> length bs \<le> max_segment_block_count \<and> sorted_wrt block_before bs"
  using check_block_order_adjacent[of bs] block_order_sorted[of bs] by (auto simp: validate_blocks_def)

lemma ucast_count: "n \<le> 0xFFFFFFFF \<Longrightarrow> (ucast (of_nat n :: u32) :: u64) = of_nat n"
  by (metis of_nat_unat unat_of_nat_u32)

lemma add_blocks:
  "list_all block_wf bs \<Longrightarrow> list_all block_fits bs \<Longrightarrow>
   efold add_block bs (fb, es, n) =
     Inr (fb @ region_bytes bs, es @ index_entries (length fb) bs,
          n + of_nat (sum_list (map (length \<circ> block_samples) bs)))"
proof (induction bs arbitrary: fb es n)
  case (Cons b bs)
  have "encode_segment_block b = Inr (segment_block_bytes b)"
    using Cons.prems by (simp add: encode_segment_block_Inr)
  moreover have "length (segment_block_bytes b) \<le> 0xFFFFFFFF" "length (block_samples b) \<le> 0xFFFFFFFF"
    using block_bytes_bound[of b] Cons.prems by (auto simp: block_wf_def max_samples_per_segment_block_def)
  ultimately have "add_block b (fb, es, n) = Inr (fb @ segment_block_bytes b, es @ [index_entry (length fb) b],
      n + of_nat (length (block_samples b)))"
    by (simp add: add_block_def Let_def index_entry_def block_sample_count_def ucast_count)
  then show ?case
    using Cons by (simp add: add.assoc)
qed simp

lemma add_blocks_error:
  "list_all block_wf bs \<Longrightarrow> \<not> list_all block_fits bs \<Longrightarrow> \<exists>m. efold add_block bs st = Inl (LengthError m)"
proof (induction bs arbitrary: st)
  case (Cons b bs)
  obtain fb es n where st: "st = (fb, es, n)" by (cases st) auto
  show ?case
  proof (cases "block_fits b")
    case True
    then obtain st' where "add_block b st = Inr st'"
      using add_blocks[of "[b]" fb es n] Cons.prems by (auto simp: st ebind_eq_Inr)
    then show ?thesis using Cons True by simp
  next
    case False
    then show ?thesis
      using encode_segment_block_error[of b] by (auto simp: st add_block_def)
  qed
qed simp

lemma write_series_key_eq:
  "write_series_key k w =
     put_series_key ''segment index string is too large'' ''segment index contains too many tags'' k w"
proof -
  have "(\<lambda>t w. ebind (segment_write_string (tag_key t) w) (segment_write_string (tag_value t))) =
      put_tag ''segment index string is too large''"
    by (simp add: fun_eq_iff put_tag_def segment_write_string_def[abs_def])
  then show ?thesis
    unfolding write_series_key_def put_series_key_def by (simp only: segment_write_string_def[of "measurement k" w])
qed

lemma write_index_entry_bytes:
  "series_fits (ie_series e) \<Longrightarrow> write_index_entry e w = Inr (appended w (entry_bytes e))"
  by (simp add: write_index_entry_def write_series_key_eq entry_bytes_def codec_simps Let_def)

lemma write_index_entries:
  "list_all (\<lambda>e. series_fits (ie_series e)) es \<Longrightarrow>
     efold write_index_entry es w = Inr (appended w (index_payload_bytes es))"
  by (induction es arbitrary: w) (simp_all add: write_index_entry_bytes index_payload_bytes_def)

lemma index_entries_fits:
  "list_all block_fits bs \<Longrightarrow> list_all (\<lambda>e. series_fits (ie_series e)) (index_entries off bs)"
  by (induction off bs rule: index_entries.induct) (auto simp: index_entry_def block_fits_series)

lemma encode_index_bytes:
  assumes "list_all (\<lambda>e. series_fits (ie_series e)) es"
  shows "encode_index es =
    (if length (index_payload_bytes es) > max_index_payload_size
     then Inl (LengthError ''segment index payload is too large'') else Inr (index_bytes es))"
  by (simp add: encode_index_def write_index_entries[OF assms] index_bytes_def checksummed_def
      index_header_bytes_def codec_simps Let_def)

lemma build_segment_Inr:
  assumes "list_all block_wf bs"
  shows "build_segment bs = Inr r \<longleftrightarrow> segment_ok bs \<and> r = (segment_bytes bs, segment_metadata bs)"
proof (cases "validate_blocks bs = Inr () \<and> list_all block_fits bs")
  case True
  then have v: "bs \<noteq> []" "length bs \<le> max_segment_block_count" "sorted_wrt block_before bs"
    using validate_blocks_Inr[OF assms] by auto
  have ok: "list_all block_ok bs" using assms True by (auto simp: list_all_iff block_ok_def)
  show ?thesis
    using True v ok
    by (auto simp: build_segment_def add_blocks[OF assms] encode_index_bytes[OF index_entries_fits]
        segment_header_size_def segment_footer_size_def segment_ok_def segment_bytes_def segment_metadata_def
        Let_def)
next
  case False
  have "\<not> segment_ok bs"
    using False validate_blocks_Inr[OF assms] segment_ok_fits(1)[of bs] by (auto simp: segment_ok_def)
  moreover have "\<exists>e. build_segment bs = Inl e"
    using False add_blocks_error[OF assms, of "(replicate segment_header_size 0, [], 0)"]
    by (cases "validate_blocks bs"; cases "list_all block_fits bs") (auto simp: build_segment_def)
  ultimately show ?thesis by auto
qed

lemma build_segment_error:
  assumes "list_all block_wf bs" "build_segment bs = Inl e"
  shows "(\<exists>m. e = InvalidArgument m) \<or> (\<exists>m. e = LengthError m)"
proof (cases "validate_blocks bs")
  case (Inl e')
  then show ?thesis
    using assms(2) check_block_order_error[of bs]
    by (auto simp: build_segment_def validate_blocks_def split: if_splits)
next
  case (Inr u)
  show ?thesis
  proof (cases "list_all block_fits bs")
    case True
    then show ?thesis
      using assms Inr
      by (auto simp: build_segment_def add_blocks[OF assms(1)] encode_index_bytes[OF index_entries_fits]
          segment_header_size_def segment_footer_size_def Let_def split: if_splits)
  next
    case False
    then show ?thesis
      using assms(2) Inr add_blocks_error[OF assms(1), of "(replicate segment_header_size 0, [], 0)"]
      by (auto simp: build_segment_def)
  qed
qed

end
