(* ===== verification/SegmentOpen.thy ===== *)
theory SegmentOpen
  imports SegmentFormat
begin

unbundle bit_operations_syntax

text \<open>
  Opening a segment file: the index decoder reads back the index the writer wrote and its
  validation accepts it, the envelope checks pass, every block is found where its entry says,
  and the reader denotes the store of the blocks.  In the other direction, whatever file is
  opened successfully, the reader's index is ordered as the queries need it.
\<close>

section \<open>Index round trip\<close>

lemma read_series_key_at:
  assumes "series_wf k" "series_fits k"
  shows "read_series_key (reader_at pre (series_bytes k @ ys)) = Some (k, reader_at (pre @ series_bytes k) ys)"
proof -
  have fits: "string_fits (measurement k)" "length (tags k) \<le> 0xFFFFFFFF" "list_all tag_fits (tags k)"
    using assms(2) by (auto simp: series_fits_def)
  have wf: "list_all tag_wf (tags k)" "sorted_wrt (<) (map tag_key (tags k))"
    using assms(1) by (auto simp: series_wf_def)
  have tags: "get_tags True (length (tags k)) [] (reader_at pre (concat (map tag_bytes (tags k)) @ ys)) =
      Some (tags k, reader_at (pre @ concat (map tag_bytes (tags k))) ys)" for pre
    using get_tags_at[OF fits(3) wf(1), of True "[]"] wf(2) by simp
  have "8 * length (tags k) \<le> length (concat (map tag_bytes (tags k)) @ ys)"
    using length_concat_tag_bytes[of "tags k"] by simp
  then have "\<not> length (concat (map tag_bytes (tags k)) @ ys) div 8 < length (tags k)" by linarith
  then show ?thesis
    using fits(1,2) make_SeriesKey_canonical[OF assms(1)]
    by (simp add: read_series_key_def segment_read_string_def series_bytes_def codec_simps unat_of_nat_u32
        tags del: length_append length_concat)
qed

definition entry_ok :: "SegmentIndexEntry \<Rightarrow> bool" where
  "entry_ok e \<longleftrightarrow> series_wf (ie_series e) \<and> series_fits (ie_series e)"

lemma read_index_entry_at:
  "entry_ok e \<Longrightarrow>
     read_index_entry (reader_at pre (entry_bytes e @ ys)) = Inr (e, reader_at (pre @ entry_bytes e) ys)"
  by (simp add: read_index_entry_def entry_bytes_def codec_simps entry_ok_def read_series_key_at)

lemma read_index_entries_at:
  "list_all entry_ok es \<Longrightarrow>
     read_index_entries (length es) acc (reader_at pre (index_payload_bytes es @ ys)) =
     Inr (acc @ es, reader_at (pre @ index_payload_bytes es) ys)"
  by (induction es arbitrary: acc pre) (simp_all add: index_payload_bytes_def read_index_entry_at)

lemma index_entries_ok: "list_all block_ok bs \<Longrightarrow> list_all entry_ok (index_entries off bs)"
  by (induction off bs rule: index_entries.induct)
    (auto simp: index_entry_def entry_ok_def block_ok_def block_wf_def block_fits_series)

section \<open>Validation\<close>

lemma unat_of_nat_small: "n \<le> 20000000000000 \<Longrightarrow> unat (of_nat n :: u64) = n"
  by (intro unat_of_nat_u64) simp

lemma block_bytes_positive: "0 < length (segment_block_bytes b)"
  by (simp add: length_segment_block_bytes)

lemma index_entry_sel [simp]:
  "ie_series (index_entry off b) = block_series b" "ie_first_timestamp (index_entry off b) = first_timestamp b"
  "ie_last_timestamp (index_entry off b) = last_timestamp b" "ie_block_offset (index_entry off b) = of_nat off"
  "ie_block_size (index_entry off b) = of_nat (length (segment_block_bytes b))"
  "ie_sample_count (index_entry off b) = of_nat (length (block_samples b))"
  by (simp_all add: index_entry_def)

lemma validate_entry_step:
  assumes "block_ok b" "off + length (segment_block_bytes b) \<le> stop" "stop \<le> 20000000000000"
    and "\<And>p. prev = Some p \<Longrightarrow> entry_before p (index_entry off b)"
  shows "validate_entries (of_nat stop) prev (of_nat off) (index_entry off b # es) =
    validate_entries (of_nat stop) (Some (index_entry off b)) (of_nat (off + length (segment_block_bytes b))) es"
proof -
  let ?e = "index_entry off b" and ?n = "length (segment_block_bytes b)"
  have n: "?n \<le> 16777240" using assms(1) block_bytes_bound[of b] by (simp add: block_ok_def)
  have size: "unat (of_nat ?n :: u32) = ?n" "(ucast (of_nat ?n :: u32) :: u64) = of_nat ?n"
    using n by (simp_all add: unat_of_nat_u32 ucast_count)
  have cnt: "unat (of_nat (length (block_samples b)) :: u32) = length (block_samples b)"
    using assms(1) by (simp add: block_count_unat block_ok_def)
  have bounds: "of_nat off \<le> (of_nat stop :: u64)" "of_nat ?n \<le> (of_nat stop - of_nat off :: u64)"
  proof -
    have "unat (of_nat off :: u64) = off" "unat (of_nat stop :: u64) = stop" "unat (of_nat ?n :: u64) = ?n"
      using assms(2,3) n by (simp_all add: unat_of_nat_small)
    then show le: "of_nat off \<le> (of_nat stop :: u64)" using assms(2) by (simp add: word_le_nat_alt)
    then have "unat (of_nat stop - of_nat off :: u64) = stop - off"
      using \<open>unat (of_nat off :: u64) = off\<close> \<open>unat (of_nat stop :: u64) = stop\<close> by (simp add: unat_sub)
    then show "of_nat ?n \<le> (of_nat stop - of_nat off :: u64)"
      using assms(2) \<open>unat (of_nat ?n :: u64) = ?n\<close> by (simp add: word_le_nat_alt)
  qed
  have nz: "(of_nat ?n :: u32) \<noteq> 0" "(of_nat (length (block_samples b)) :: u32) \<noteq> 0"
    using size(1) cnt block_bytes_positive[of b] assms(1)
    by (metis less_numeral_extra(3) unat_0, metis block_ok_def block_wf_def length_0_conv unat_0)
  have t: "\<not> last_timestamp b < first_timestamp b" "length (block_samples b) \<le> max_samples_per_segment_block"
    using assms(1) first_le_last[of b] by (auto simp: block_ok_def block_wf_def not_less)
  have ord: "\<not> (block_series b < ie_series p \<or>
      (block_series b = ie_series p \<and> first_timestamp b \<le> ie_last_timestamp p))" if "prev = Some p" for p
    using assms(4)[OF that] by (auto simp: entry_before_def not_le)
  show ?thesis
    using bounds nz size cnt t ord by (cases prev) (auto simp: not_less[symmetric])
qed

lemma index_entries_first: "x \<in> set (index_entries off bs) \<Longrightarrow> \<exists>b\<in>set bs. \<exists>n. x = index_entry n b"
  by (induction off bs rule: index_entries.induct) auto

lemma entry_before_index: "entry_before (index_entry m a) (index_entry n b) \<longleftrightarrow> block_before a b"
  by (simp add: entry_before_def block_before_def index_entry_def)

lemma validate_entries_written:
  assumes "list_all block_ok bs" "sorted_wrt block_before bs" "off + length (region_bytes bs) \<le> 20000000000000"
    and "\<And>p b. prev = Some p \<Longrightarrow> b \<in> set bs \<Longrightarrow> \<exists>m a. p = index_entry m a \<and> block_before a b"
  shows "validate_entries (of_nat (off + length (region_bytes bs))) prev (of_nat off) (index_entries off bs) = Inr ()"
  using assms
proof (induction bs arbitrary: off prev)
  case (Cons b bs)
  let ?n = "length (segment_block_bytes b)" and ?stop = "off + length (region_bytes (b # bs))"
  have step: "validate_entries (of_nat ?stop) prev (of_nat off) (index_entries off (b # bs)) =
      validate_entries (of_nat ?stop) (Some (index_entry off b)) (of_nat (off + ?n)) (index_entries (off + ?n) bs)"
    using validate_entry_step[of b off ?stop prev] Cons.prems by (fastforce simp: entry_before_index)
  have "validate_entries (of_nat (off + ?n + length (region_bytes bs))) (Some (index_entry off b))
      (of_nat (off + ?n)) (index_entries (off + ?n) bs) = Inr ()"
  proof (rule Cons.IH)
    show "\<exists>m a. p = index_entry m a \<and> block_before a c" if "Some (index_entry off b) = Some p" "c \<in> set bs" for p c
      using that Cons.prems(2) by auto
  qed (use Cons.prems in auto)
  with step show ?case by (simp add: add.assoc)
qed simp

lemma index_entries_sorted: "sorted_wrt block_before bs \<Longrightarrow> sorted_wrt entry_before (index_entries off bs)"
proof (induction off bs rule: index_entries.induct)
  case (2 off b bs)
  then show ?case by (auto simp: entry_before_index dest!: index_entries_first)
qed simp

lemma decode_index_header:
  "decode_index (index_header_bytes a b c d e g @ body) n off =
     (if length body < 4 then Inl (SegmentFormatError ''segment index is incomplete'')
      else decode_index_body (index_header_bytes a b c d e g @ body) n off a b c d e g)"
  by (simp add: decode_index_def index_header_bytes_def segment_index_header_size_def checksum_size_def
      codec_simps)

lemma decode_index_written:
  assumes "segment_ok bs"
  shows "decode_index (index_bytes (index_entries 32 bs)) (of_nat (length bs))
      (of_nat (32 + length (region_bytes bs))) = Inr (index_entries 32 bs)"
proof -
  let ?es = "index_entries 32 bs" and ?p = "index_payload_bytes (index_entries 32 bs)"
  let ?h = "index_header_bytes segment_index_magic segment_file_version segment_file_flags
     (of_nat (length bs)) (of_nat (length ?p)) (of_nat (length ?p) XOR 0xFFFFFFFF)"
  have ok: "list_all block_ok bs" "sorted_wrt block_before bs" "bs \<noteq> []" "length bs \<le> max_segment_block_count"
      "length ?p \<le> max_index_payload_size"
    using assms by (auto simp: segment_ok_def)
  have u: "unat (of_nat (length ?p) :: u32) = length ?p" "unat (of_nat (length bs) :: u32) = length bs"
    using ok by (simp_all add: unat_of_nat_u32 max_index_payload_size_def max_segment_block_count_def)
  have nz: "(of_nat (length bs) :: u32) \<noteq> 0" using u(2) ok(3) by (metis length_0_conv unat_0)
  have b: "index_bytes ?es = ?h @ ?p @ u32_bytes (crc32c (?h @ ?p))"
    by (simp add: index_bytes_def checksummed_def Let_def)
  have entries: "read_index_entries (length bs) [] (make_reader ?p) = Inr (?es, reader_at ?p [])"
    using read_index_entries_at[OF index_entries_ok[OF ok(1)], of 32 "[]" "[]" "[]"]
    by (simp add: codec_simps)
  have "validate_index ?es (of_nat (32 + length (region_bytes bs))) = Inr ()"
    unfolding validate_index_def segment_header_size_def
    using validate_entries_written[OF ok(1,2), of 32 None] segment_size_bound[OF assms]
    by (simp add: length_segment_bytes)
  then show ?thesis
    unfolding b decode_index_header
    using ok(4,5) nz
    by (simp add: decode_index_body_def segment_index_header_size_def checksum_size_def read_u32_exact u
        Let_def entries)
qed

section \<open>Envelope\<close>

lemma decode_header_written:
  assumes "n \<noteq> 0" "unat n \<le> max_segment_block_count"
  shows "decode_header (encode_header n off len) =
    Inr \<lparr>env_block_count = n, env_index_offset = off, env_index_size = len\<rparr>"
proof -
  let ?p = "u32_bytes segment_file_magic @ u16_bytes segment_file_version @ u16_bytes segment_file_flags @
     u32_bytes n @ u64_bytes off @ u64_bytes len"
  have e: "encode_header n off len = ?p @ u32_bytes (crc32c ?p)"
    by (simp add: encode_header_def codec_simps Let_def)
  have c: "read_u32 (reader_at pre (u32_bytes c)) = Some (c, reader_at (pre @ u32_bytes c) [])" for pre c
    using read_int_at(3)[of pre c "[]"] by simp
  show ?thesis
    unfolding e using assms
    by (simp add: decode_header_def segment_header_size_def checksum_size_def codec_simps c)
qed

lemma decode_footer_written:
  "decode_footer (encode_footer n off len) =
    Inr \<lparr>env_block_count = n, env_index_offset = off, env_index_size = len\<rparr>"
proof -
  let ?p = "u32_bytes segment_footer_magic @ u16_bytes segment_file_version @ u16_bytes segment_file_flags @
     u64_bytes off @ u64_bytes len @ u32_bytes n"
  have e: "encode_footer n off len = ?p @ u32_bytes (crc32c ?p)"
    by (simp add: encode_footer_def codec_simps Let_def)
  have c: "read_u32 (reader_at pre (u32_bytes c)) = Some (c, reader_at (pre @ u32_bytes c) [])" for pre c
    using read_int_at(3)[of pre c "[]"] by simp
  show ?thesis
    unfolding e
    by (simp add: decode_footer_def segment_footer_size_def checksum_size_def codec_simps c)
qed

section \<open>Opening a written file\<close>

definition written_reader :: "string \<Rightarrow> SegmentBlock list \<Rightarrow> SegmentReader" where
  "written_reader path bs =
     \<lparr>sr_path = path, sr_file_size = of_nat (length (segment_bytes bs)),
      sr_sample_count = of_nat (sum_list (map (length \<circ> block_samples) bs)),
      sr_index = index_entries 32 bs\<rparr>"

lemma index_sample_count:
  "list_all block_wf bs \<Longrightarrow>
     fold (\<lambda>e n. n + ucast (ie_sample_count e)) (index_entries off bs) n =
     (n + of_nat (sum_list (map (length \<circ> block_samples) bs)) :: u64)"
proof (induction off bs arbitrary: n rule: index_entries.induct)
  case (2 off b bs)
  then have "length (block_samples b) \<le> 0xFFFFFFFF"
    by (simp add: block_wf_def max_samples_per_segment_block_def)
  then show ?case using 2 by (simp add: ucast_count add.assoc)
qed simp

text \<open>A segment file whose contents are the image of \<open>bs\<close>.\<close>

definition segment_at :: "fs \<Rightarrow> string \<Rightarrow> SegmentBlock list \<Rightarrow> bool" where
  "segment_at f path bs \<longleftrightarrow> segment_ok bs \<and> fs_file f path = Some (segment_bytes bs) \<and> readable f path"

lemma segment_parts:
  fixes bs :: "SegmentBlock list"
  defines "off \<equiv> of_nat (32 + length (region_bytes bs)) :: u64"
    and "isz \<equiv> of_nat (length (index_bytes (index_entries 32 bs))) :: u64"
  shows "take 32 (segment_bytes bs) = encode_header (of_nat (length bs)) off isz"
    "drop (length (segment_bytes bs) - 32) (segment_bytes bs) = encode_footer (of_nat (length bs)) off isz"
    "take (length (index_bytes (index_entries 32 bs))) (drop (32 + length (region_bytes bs)) (segment_bytes bs)) =
       index_bytes (index_entries 32 bs)"
    "take n (drop (32 + length (region_bytes bs1)) (segment_bytes bs)) =
       take n (drop (length (region_bytes bs1)) (region_bytes bs @ drop (32 + length (region_bytes bs)) (segment_bytes bs)))"
  by (simp_all add: segment_bytes_def Let_def off_def isz_def)

lemma open_segment_steps:
  assumes "file_size_bytes path f = Inr fsz" "88 \<le> unat fsz"
    and "read_file_bytes path 0 32 f = Inr hb" "read_file_bytes path (fsz - 32) 32 f = Inr fb"
    and "decode_header hb = Inr \<lparr>env_block_count = n, env_index_offset = off, env_index_size = isz\<rparr>"
    and "decode_footer fb = Inr \<lparr>env_block_count = n, env_index_offset = off, env_index_size = isz\<rparr>"
    and "32 \<le> unat off" "24 \<le> unat isz" "unat isz \<le> max_index_payload_size + 24"
    and "off \<le> fsz" "isz \<le> fsz - off" "off + isz + 32 = fsz"
    and "read_file_bytes path off (unat isz) f = Inr ib" "decode_index ib n off = Inr idx"
  shows "open_segment path f =
    Inr \<lparr>sr_path = path, sr_file_size = fsz,
         sr_sample_count = fold (\<lambda>e n. n + ucast (ie_sample_count e)) idx 0, sr_index = idx\<rparr>"
  using assms
  by (simp add: open_segment_def segment_header_size_def segment_footer_size_def
      segment_index_header_size_def checksum_size_def not_less)

text \<open>The numbers of a written file fit their fields, and its parts are read back.\<close>

lemma segment_numbers:
  assumes ok: "segment_ok bs"
  defines "off \<equiv> 32 + length (region_bytes bs)" and "isz \<equiv> length (index_bytes (index_entries 32 bs))"
  shows "length (segment_bytes bs) = off + isz + 32" "length (segment_bytes bs) \<le> streamoff_max"
    "24 \<le> isz" "isz \<le> max_index_payload_size + 24"
    "unat (of_nat (length (segment_bytes bs)) :: u64) = length (segment_bytes bs)" "unat (of_nat off :: u64) = off"
    "unat (of_nat isz :: u64) = isz" "unat (of_nat (length (segment_bytes bs) - 32) :: u64) = length (segment_bytes bs) - 32"
    "unat (of_nat (length bs) :: u32) = length bs" "(of_nat (length bs) :: u32) \<noteq> 0"
proof -
  show len: "length (segment_bytes bs) = off + isz + 32" by (simp add: segment_bytes_def Let_def off_def isz_def)
  have big: "length (segment_bytes bs) \<le> 20000000000000" by (rule segment_size_bound[OF ok])
  then show "length (segment_bytes bs) \<le> streamoff_max" by (simp add: streamoff_max_def)
  show "24 \<le> isz" "isz \<le> max_index_payload_size + 24"
    using ok by (simp_all add: length_index_bytes segment_ok_def isz_def)
  show "unat (of_nat (length (segment_bytes bs)) :: u64) = length (segment_bytes bs)" "unat (of_nat off :: u64) = off"
    "unat (of_nat isz :: u64) = isz" "unat (of_nat (length (segment_bytes bs) - 32) :: u64) = length (segment_bytes bs) - 32"
    using big len by (simp_all only: unat_of_nat_small)
  show u: "unat (of_nat (length bs) :: u32) = length bs"
    using ok by (simp add: unat_of_nat_u32 segment_ok_def max_segment_block_count_def)
  show "(of_nat (length bs) :: u32) \<noteq> 0" using u ok by (metis length_0_conv segment_ok_def unat_0)
qed

lemma segment_parts_read:
  assumes "segment_at f path bs"
  defines "n \<equiv> of_nat (length bs)" and "off \<equiv> 32 + length (region_bytes bs)" and "isz \<equiv> length (index_bytes (index_entries 32 bs))"
  shows "read_file_bytes path 0 32 f = Inr (encode_header n (of_nat off) (of_nat isz))"
    "read_file_bytes path (of_nat (length (segment_bytes bs)) - 32) 32 f = Inr (encode_footer n (of_nat off) (of_nat isz))"
    "read_file_bytes path (of_nat off) isz f = Inr (index_bytes (index_entries 32 bs))"
proof -
  have ok: "segment_ok bs" and content: "fs_file f path = Some (segment_bytes bs)" and rd: "readable f path"
    using assms(1) by (auto simp: segment_at_def)
  note num = segment_numbers[OF ok, folded off_def isz_def]
  note read = read_file_bytes_Inr[OF rd content _ num(2)]
  show "read_file_bytes path 0 32 f = Inr (encode_header n (of_nat off) (of_nat isz))"
    using read[of 0 32] num(1) by (simp only: unat_0 drop0 segment_parts(1) n_def off_def isz_def)
  have "unat (of_nat (length (segment_bytes bs) - 32) :: u64) + 32 \<le> length (segment_bytes bs)"
    unfolding num(8) using num(1) by linarith
  from read[OF this] have "read_file_bytes path (of_nat (length (segment_bytes bs) - 32)) 32 f =
      Inr (encode_footer n (of_nat off) (of_nat isz))"
    unfolding num(8) segment_parts(2) by (simp add: n_def off_def isz_def del: of_nat_add)
  then show "read_file_bytes path (of_nat (length (segment_bytes bs)) - 32) 32 f = Inr (encode_footer n (of_nat off) (of_nat isz))"
    using num(1) by (simp add: of_nat_diff)
  show "read_file_bytes path (of_nat off) isz f = Inr (index_bytes (index_entries 32 bs))"
    using read[of "of_nat off" isz] num(1) unfolding num(6) by (simp only: segment_parts(3) off_def isz_def)
qed

lemma open_segment_written:
  assumes "segment_at f path bs"
  shows "open_segment path f = Inr (written_reader path bs)"
proof -
  let ?c = "segment_bytes bs" and ?n = "of_nat (length bs) :: u32"
  let ?off = "32 + length (region_bytes bs)" and ?isz = "length (index_bytes (index_entries 32 bs))"
  have ok: "segment_ok bs" and content: "fs_file f path = Some ?c" and rd: "readable f path"
    using assms by (auto simp: segment_at_def)
  note num = segment_numbers[OF ok] and parts = segment_parts_read[OF assms]
  have cnt: "length bs \<le> max_segment_block_count" using ok by (simp add: segment_ok_def)
  have sub: "of_nat (length ?c) - of_nat ?off = (of_nat (length ?c - ?off) :: u64)" using num(1) by (simp add: of_nat_diff)
  have un: "unat (of_nat (length ?c - ?off) :: u64) = length ?c - ?off"
    using segment_size_bound[OF ok] by (simp only: unat_of_nat_small)
  have bounds: "(of_nat ?off :: u64) \<le> of_nat (length ?c)" "(of_nat ?isz :: u64) \<le> of_nat (length ?c) - of_nat ?off"
    unfolding sub word_le_nat_alt num(5-7) un using num(1) by linarith+
  have total: "of_nat ?off + of_nat ?isz + 32 = (of_nat (length ?c) :: u64)"
    using of_nat_add[of "?off + ?isz" 32, where ?'a = "64 word"] by (simp add: num(1))
  have "open_segment path f = Inr \<lparr>sr_path = path, sr_file_size = of_nat (length ?c),
      sr_sample_count = fold (\<lambda>e n. n + ucast (ie_sample_count e)) (index_entries 32 bs) 0,
      sr_index = index_entries 32 bs\<rparr>"
  proof (rule open_segment_steps[OF file_size_bytes_Inr[OF rd content num(2)] _ parts(1,2) _ decode_footer_written _ _ _
        bounds total])
    show "88 \<le> unat (of_nat (length ?c) :: u64)" unfolding num(5) using num(1,3) by linarith
    show "decode_header (encode_header ?n (of_nat ?off) (of_nat ?isz)) =
        Inr \<lparr>env_block_count = ?n, env_index_offset = of_nat ?off, env_index_size = of_nat ?isz\<rparr>"
      using cnt num(9,10) by (intro decode_header_written) simp_all
    show "32 \<le> unat (of_nat ?off :: u64)" "24 \<le> unat (of_nat ?isz :: u64)"
      "unat (of_nat ?isz :: u64) \<le> max_index_payload_size + 24"
      unfolding num(6,7) using num(3,4) by simp_all
    show "read_file_bytes path (of_nat ?off) (unat (of_nat ?isz :: u64)) f = Inr (index_bytes (index_entries 32 bs))"
      unfolding num(7) by (rule parts(3))
    show "decode_index (index_bytes (index_entries 32 bs)) ?n (of_nat ?off) = Inr (index_entries 32 bs)"
      by (rule decode_index_written[OF ok])
  qed
  then show ?thesis
    by (simp add: written_reader_def index_sample_count[OF segment_ok_fits(2)[OF ok]])
qed

section \<open>Reading the blocks back\<close>

lemma read_block_written:
  assumes "fs_file f (sr_path r) = Some (pre @ segment_block_bytes b @ post)" "readable f (sr_path r)"
    and "length (pre @ segment_block_bytes b @ post) \<le> 20000000000000" "block_ok b"
  shows "reads r f (index_entry (length pre) b) b"
proof -
  let ?n = "length (segment_block_bytes b)"
  have off: "unat (of_nat (length pre) :: u64) = length pre"
    using assms(3) by (intro unat_of_nat_small) simp
  have size: "unat (of_nat ?n :: u32) = ?n"
    using assms(4) block_bytes_bound[of b] by (simp add: unat_of_nat_u32 block_ok_def)
  have small: "length (pre @ segment_block_bytes b @ post) \<le> streamoff_max"
    using assms(3) by (simp add: streamoff_max_def)
  have bytes: "read_file_bytes (sr_path r) (of_nat (length pre)) ?n f = Inr (segment_block_bytes b)"
    using read_file_bytes_Inr[OF assms(2,1) _ small, of "of_nat (length pre)" ?n] by (simp add: off)
  have "decode_segment_block (segment_block_bytes b) =
     \<lparr>decoded_block = Some b, block_error = block_none, block_bytes_consumed = ?n\<rparr>"
    using decode_segment_block_bytes[OF assms(4), of "[]"] by simp
  moreover have "unat (of_nat (length (block_samples b)) :: u32) = length (block_samples b)"
    using assms(4) by (simp add: block_count_unat block_ok_def)
  ultimately show ?thesis
    by (simp add: reads_def read_block_def size bytes block_success_def block_sample_count_def)
qed

lemma read_blocks_written:
  assumes "fs_file f (sr_path r) = Some (pre @ region_bytes bs @ post)" "readable f (sr_path r)"
    and "length (pre @ region_bytes bs @ post) \<le> 20000000000000" "list_all block_ok bs"
  shows "list_all2 (reads r f) (index_entries (length pre) bs) bs"
  using assms
proof (induction bs arbitrary: pre)
  case (Cons b bs)
  have "reads r f (index_entry (length pre) b) b"
    using Cons.prems by (intro read_block_written[of f r pre b "region_bytes bs @ post"]) simp_all
  moreover have "list_all2 (reads r f) (index_entries (length (pre @ segment_block_bytes b)) bs) bs"
    using Cons.prems by (intro Cons.IH) simp_all
  ultimately show ?case by simp
qed simp

lemma segment_at_blocks:
  assumes "segment_at f path bs"
  shows "segment_blocks (written_reader path bs) f = Inr bs"
proof -
  let ?r = "written_reader path bs"
  have ok: "segment_ok bs" and c: "fs_file f path = Some (segment_bytes bs)" and rd: "readable f path"
    using assms by (auto simp: segment_at_def)
  obtain h post where s: "segment_bytes bs = h @ region_bytes bs @ post" "length h = 32"
    by (simp add: segment_bytes_def Let_def)
  have "list_all2 (reads ?r f) (index_entries (length h) bs) bs"
    using c rd s segment_size_bound[OF ok] ok
    by (intro read_blocks_written[of f ?r h bs post]) (simp_all add: written_reader_def segment_ok_def)
  then show ?thesis
    by (simp add: segment_blocks_reads s(2)) (simp add: written_reader_def)
qed

lemma segment_at_inv:
  assumes "segment_at f path bs"
  shows "segment_inv (f, written_reader path bs)" "segment_store (f, written_reader path bs) = blocks_store bs"
  using segment_at_blocks[OF assms] assms index_entries_sorted[of bs 32]
  by (simp_all add: segment_inv_def segment_store_def written_reader_def segment_at_def segment_ok_def)

section \<open>Any file that opens\<close>

lemma entry_before_trans:
  "entry_before a b \<Longrightarrow> entry_before b c \<Longrightarrow> ie_first_timestamp b \<le> ie_last_timestamp b \<Longrightarrow> entry_before a c"
  by (auto simp: entry_before_def)

lemma validate_entries_sorted:
  "validate_entries io prev off es = Inr () \<Longrightarrow>
     sorted_wrt entry_before es \<and> (\<forall>p. prev = Some p \<longrightarrow> (\<forall>e\<in>set es. entry_before p e)) \<and>
     (\<forall>e\<in>set es. ie_first_timestamp e \<le> ie_last_timestamp e)"
proof (induction es arbitrary: prev off)
  case (Cons e es)
  have step: "validate_entries io (Some e) (off + ucast (ie_block_size e)) es = Inr ()"
    "ie_first_timestamp e \<le> ie_last_timestamp e" "\<And>p. prev = Some p \<Longrightarrow> entry_before p e"
    using Cons.prems by (auto simp: entry_before_def not_le not_less split: if_splits)
  from Cons.IH[OF step(1)] have IH: "sorted_wrt entry_before es" "\<forall>x\<in>set es. entry_before e x"
      "\<forall>x\<in>set es. ie_first_timestamp x \<le> ie_last_timestamp x"
    by auto
  have "\<forall>x\<in>set es. entry_before p x" if "prev = Some p" for p
    using entry_before_trans[OF step(3)[OF that] _ step(2)] IH(2) by blast
  with IH step(2,3) show ?case by auto
qed simp

lemma decode_index_sorted: "decode_index bytes n off = Inr es \<Longrightarrow> sorted_wrt entry_before es"
  by (auto simp: decode_index_def decode_index_body_def Let_def validate_index_def ebind_eq_Inr
      split: if_splits option.splits bind_splits dest!: validate_entries_sorted)

lemma open_segment_sorted:
  assumes "open_segment path f = Inr r"
  shows "sorted_wrt entry_before (sr_index r)" "sr_path r = path"
  using assms by (auto simp: open_segment_def ebind_eq_Inr split: if_splits dest: decode_index_sorted)

lemma open_segment_inv:
  assumes "open_segment path f = Inr r" "segment_blocks r f = Inr bs"
  shows "segment_inv (f, r) \<and> segment_store (f, r) = blocks_store bs"
  using assms open_segment_sorted[OF assms(1)] by (simp add: segment_inv_def segment_store_def)

section \<open>Writing a segment\<close>

lemma write_segment_file_effect:
  assumes "list_all block_wf bs" "write_segment_file path bs f = (r, f')"
  shows "touches {path, path @ ''.tmp''} f f' \<and>
    (fs_file f' path = fs_file f path \<or> segment_ok bs \<and> fs_file f' path = Some (segment_bytes bs)) \<and>
    (\<forall>md. r = Inr md \<longrightarrow> segment_ok bs \<and> md = segment_metadata bs \<and>
       fs_file f' path = Some (segment_bytes bs) \<and> fs_durable f' path = Some (segment_bytes bs)) \<and>
    (fs_script f = [] \<and> segment_ok bs \<longrightarrow> r = Inr (segment_metadata bs))"
proof (cases "segment_ok bs")
  case True
  then have b: "build_segment bs = Inr (segment_bytes bs, segment_metadata bs)"
    using build_segment_Inr[OF assms(1)] by blast
  obtain q g where w: "atomic_write_file path (segment_bytes bs) f = (q, g)" by fastforce
  have "length (segment_bytes bs) \<le> streamoff_max"
    using segment_size_bound[OF True] by (simp add: streamoff_max_def)
  then show ?thesis
    using atomic_write_file_effect[OF w] assms(2) True
    by (cases q) (auto simp: write_segment_file_def b act_bind_def w)
next
  case False
  then obtain e where "build_segment bs = Inl e"
    using build_segment_Inr[OF assms(1)] by (cases "build_segment bs") auto
  then show ?thesis using assms(2) False by (auto simp: write_segment_file_def)
qed

end
