(* ===== verification/StorageEngine.thy ===== *)
theory StorageEngine
  imports MemTable WalFile Manifest SegmentOpen
begin

text \<open>
  The storage engine of \<^verbatim>\<open>src/internal/storage_engine.hpp\<close> and \<^verbatim>\<open>src/storage_engine.cpp\<close>:
  recovery, writes, flush, compaction and queries over the MemTable, the write-ahead log,
  the manifest and the segment files.  Every public operation runs under the engine's mutex,
  so the model is the sequence of operations; the state of one is the engine together with
  the file system.  This theory holds the definitions.
\<close>

section \<open>State\<close>

record StorageEngine =
  se_memtable :: MemTable
  se_manifest :: ManifestState
  se_segments :: "SegmentReader list"
  se_wal :: WalWriter
  se_logical_sample_count :: u64
  se_failed :: bool

record RecoveryState =
  rs_memtable :: MemTable
  rs_manifest :: ManifestState
  rs_segments :: "SegmentReader list"
  rs_logical_sample_count :: u64
  rs_wal_size :: u64

record StorageEngineStats =
  st_sample_count :: nat
  st_memtable_sample_count :: nat
  st_segment_count :: nat
  st_wal_size_bytes :: u64

type_synonym engine_state = "StorageEngine \<times> fs"

definition engine_ensure_usable :: "StorageEngine \<Rightarrow> unit result" where
  "engine_ensure_usable E =
     (if se_failed E
      then Inl (RuntimeError ''storage engine is in a failed state; restart is required'')
      else Inr ())"

definition engine_fail :: "engine_state \<Rightarrow> engine_state" where
  "engine_fail s = ((fst s)\<lparr>se_failed := True\<rparr>, snd s)"

section \<open>Segments\<close>

fun contains_loop :: "fs \<Rightarrow> SeriesKey \<Rightarrow> Timestamp \<Rightarrow> SegmentReader list \<Rightarrow> bool result" where
  "contains_loop f series t [] = Inr False"
| "contains_loop f series t (segment # rest) =
     ebind (segment_get segment f series t) (\<lambda>found.
       if found \<noteq> None then Inr True else contains_loop f series t rest)"

definition contains_in_segments :: "SegmentReader list \<Rightarrow> fs \<Rightarrow> SeriesKey \<Rightarrow> Timestamp \<Rightarrow> bool result" where
  "contains_in_segments segments f series t = contains_loop f series t (rev segments)"

text \<open>The inner loop of \<^verbatim>\<open>blocks_from_snapshots\<close>: blocks of at most 256 samples.\<close>

function snapshot_blocks :: "SeriesKey \<Rightarrow> Sample list \<Rightarrow> SegmentBlock list result" where
  "snapshot_blocks series samples =
     (if samples = [] then Inr []
      else let n = min (length samples) max_samples_per_segment_block
           in ebind (make_SegmentBlock series (take n samples)) (\<lambda>b.
              ebind (snapshot_blocks series (drop n samples)) (\<lambda>bs. Inr (b # bs))))"
  by pat_completeness auto
termination
  by (relation "measure (\<lambda>(series, samples). length samples)")
    (auto simp: max_samples_per_segment_block_def)

declare snapshot_blocks.simps [simp del]

definition blocks_from_snapshots :: "MemTableSeriesSnapshot list \<Rightarrow> SegmentBlock list result" where
  "blocks_from_snapshots snapshots =
     ebind (emap (\<lambda>s. snapshot_blocks (snapshot_series s) (snapshot_samples s)) snapshots)
       (\<lambda>bss. Inr (concat bss))"

section \<open>File names\<close>

text \<open>Decimal output of an integer, and \<^verbatim>\<open>std::setw(20)\<close> with \<^verbatim>\<open>std::setfill('0')\<close>.\<close>

fun decimal :: "nat \<Rightarrow> string" where
  "decimal n =
     (if n < 10 then [char_of (48 + n)] else decimal (n div 10) @ [char_of (48 + n mod 10)])"

declare decimal.simps [simp del]

definition setw20 :: "string \<Rightarrow> string" where
  "setw20 s = replicate (20 - length s) CHR ''0'' @ s"

definition segment_filename :: "u64 \<Rightarrow> string" where
  "segment_filename generation = ''segment-'' @ setw20 (decimal (unat generation)) @ ''.cst''"

definition next_segment_filename :: "ManifestState \<Rightarrow> string result" where
  "next_segment_filename manifest =
     (if mf_generation manifest = 0xFFFFFFFFFFFFFFFF
      then Inl (OverflowError ''segment generation is exhausted'')
      else Inr (segment_filename (mf_generation manifest + 1)))"

section \<open>Recovery\<close>

definition is_stale :: "string list \<Rightarrow> string \<Rightarrow> bool" where
  "is_stale live filename \<longleftrightarrow>
     (path_extension filename = ''.cst'' \<and> starts_with ''segment-'' filename \<and> filename \<notin> set live) \<or>
     (starts_with ''segment-'' filename \<and> path_extension filename = ''.tmp'')"

text \<open>
  The loop over the directory: an error of the iterator, at its construction or at an
  increment, ends the loop and is thrown; errors of \<^verbatim>\<open>remove\<close> are ignored.
\<close>

fun remove_stale :: "string list \<Rightarrow> nat option \<Rightarrow> string list \<Rightarrow> (fs, unit) act" where
  "remove_stale live fault [] f =
     (if fault = Some 0 then (Inl (SystemError ''failed to inspect database directory''), f) else (Inr (), f))"
| "remove_stale live fault (filename # rest) f =
     (if fault = Some 0 then (Inl (SystemError ''failed to inspect database directory''), f)
      else if is_stale live filename
      then (case sys_unlink filename f of
              (Died, f) \<Rightarrow> (Inl Crashed, f)
            | (_, f) \<Rightarrow> remove_stale live (map_option (\<lambda>n. n - 1) fault) rest f)
      else remove_stale live (map_option (\<lambda>n. n - 1) fault) rest f)"

definition replay_record :: "fs \<Rightarrow> WalPutRecord \<Rightarrow> RecoveryState \<Rightarrow> RecoveryState result" where
  "replay_record f r st =
     ebind (memtable_get (rs_memtable st) (wal_series r) (timestamp (wal_sample r))) (\<lambda>found.
     ebind (if found \<noteq> None then Inr True
            else contains_in_segments (rs_segments st) f (wal_series r) (timestamp (wal_sample r)))
       (\<lambda>already_exists.
         let st = st\<lparr>rs_memtable := memtable_put (wal_series r) (wal_sample r) (rs_memtable st)\<rparr>
         in Inr (if already_exists then st
                 else st\<lparr>rs_logical_sample_count := rs_logical_sample_count st + 1\<rparr>)))"

text \<open>The manifest and the segments it names.\<close>

definition recover_segments :: "fs \<Rightarrow> RecoveryState result" where
  "recover_segments f =
     ebind (load_manifest f) (\<lambda>manifest.
     ebind (emap (\<lambda>filename. open_segment filename f) (mf_segment_files manifest)) (\<lambda>segments.
       Inr \<lparr>rs_memtable = empty_memtable, rs_manifest = manifest, rs_segments = segments,
            rs_logical_sample_count = mf_logical_sample_count manifest, rs_wal_size = 0\<rparr>))"

definition physical_segment_samples :: "SegmentReader list \<Rightarrow> u64" where
  "physical_segment_samples segments = fold (\<lambda>r n. n + sr_sample_count r) segments 0"

text \<open>The part of \<^verbatim>\<open>recover\<close> that concerns the log.\<close>

definition recover_wal :: "string \<Rightarrow> RecoveryState \<Rightarrow> (fs, RecoveryState) act" where
  "recover_wal wal_path st f =
     (case std_exists wal_path f of
        Inl _ \<Rightarrow> (Inl (SystemError ''failed to inspect WAL''), f)
      | Inr wal_exists \<Rightarrow>
          if \<not> wal_exists
          then act_bind (open_wal wal_path buffered) (\<lambda>w f.
                 case wal_sync (w, f) of (r, s) \<Rightarrow> (map_sum id (\<lambda>_. st) r, snd s)) f
          else (case replay_wal_file wal_path (replay_record f) f st of
                  Inl e \<Rightarrow> (Inl e, f)
                | Inr (replay_result, st) \<Rightarrow>
                    act_bind (repair_wal_tail wal_path replay_result) (\<lambda>_.
                      act_return (st\<lparr>rs_wal_size := valid_bytes replay_result\<rparr>)) f))"

definition recover :: "string \<Rightarrow> (fs, RecoveryState) act" where
  "recover wal_path f =
     (case recover_segments f of
        Inl e \<Rightarrow> (Inl e, f)
      | Inr st \<Rightarrow>
          act_bind (remove_stale (mf_segment_files (rs_manifest st)) (fs_dir_fault f) (map fst (fs_files f))) (\<lambda>_.
            if rs_logical_sample_count st > physical_segment_samples (rs_segments st) \<or>
               (rs_segments st = [] \<and> rs_logical_sample_count st \<noteq> 0)
            then act_throw (ManifestFormatError ''manifest logical sample count is inconsistent'')
            else recover_wal wal_path st) f)"

definition open_engine :: "string \<Rightarrow> WalDurability \<Rightarrow> (fs, StorageEngine) act" where
  "open_engine wal_path durability =
     act_bind (recover wal_path) (\<lambda>recovered.
     act_bind (open_wal wal_path durability) (\<lambda>w.
       if ww_size_bytes w \<noteq> rs_wal_size recovered
       then act_throw (RuntimeError ''WAL changed while opening storage engine'')
       else act_return
         \<lparr>se_memtable = rs_memtable recovered, se_manifest = rs_manifest recovered,
          se_segments = rs_segments recovered, se_wal = w,
          se_logical_sample_count = rs_logical_sample_count recovered, se_failed = False\<rparr>))"

section \<open>Writes\<close>

text \<open>An operation of the log writer as an operation of the engine.\<close>

definition on_wal :: "(WalWriter \<times> fs, 'a) act \<Rightarrow> (engine_state, 'a) act" where
  "on_wal m s =
     (case m (se_wal (fst s), snd s) of (r, (w, f)) \<Rightarrow> (r, ((fst s)\<lparr>se_wal := w\<rparr>, f)))"

text \<open>An operation of the file system as an operation of the engine.\<close>

definition on_fs :: "(fs, 'a) act \<Rightarrow> (engine_state, 'a) act" where
  "on_fs m s = (case m (snd s) of (r, f) \<Rightarrow> (r, (fst s, f)))"

definition modify :: "(StorageEngine \<Rightarrow> StorageEngine) \<Rightarrow> (engine_state, unit) act" where
  "modify g s = (Inr (), (g (fst s), snd s))"

definition engine_contains :: "engine_state \<Rightarrow> SeriesKey \<Rightarrow> Timestamp \<Rightarrow> bool result" where
  "engine_contains s series t =
     ebind (memtable_get (se_memtable (fst s)) series t) (\<lambda>found.
       if found \<noteq> None then Inr True
       else contains_in_segments (se_segments (fst s)) (snd s) series t)"

definition engine_put :: "SeriesKey \<Rightarrow> Sample \<Rightarrow> (engine_state, unit) act" where
  "engine_put series sample =
     act_bind (act_get (\<lambda>s. engine_ensure_usable (fst s))) (\<lambda>_.
     act_bind (act_get (\<lambda>s. engine_contains s series (timestamp sample))) (\<lambda>already_exists.
       act_on_error
         (act_bind (on_wal (wal_append (WalPutRecord series sample))) (\<lambda>_.
          act_bind (modify (\<lambda>E. E\<lparr>se_memtable := memtable_put series sample (se_memtable E)\<rparr>)) (\<lambda>_.
            if already_exists then act_return ()
            else modify (\<lambda>E. E\<lparr>se_logical_sample_count := se_logical_sample_count E + 1\<rparr>))))
         engine_fail))"

definition engine_sync :: "(engine_state, unit) act" where
  "engine_sync =
     act_bind (act_get (\<lambda>s. engine_ensure_usable (fst s))) (\<lambda>_.
       act_on_error (on_wal wal_sync) engine_fail)"

definition make_memtable_blocks :: "StorageEngine \<Rightarrow> SegmentBlock list result" where
  "make_memtable_blocks E =
     ebind (memtable_snapshot (se_memtable E)) blocks_from_snapshots"

definition engine_flush :: "(engine_state, unit) act" where
  "engine_flush =
     act_bind (act_get (\<lambda>s. engine_ensure_usable (fst s))) (\<lambda>_ s.
       if memtable_empty (se_memtable (fst s)) then act_on_error (on_wal wal_sync) engine_fail s
       else act_on_error
         (act_bind (act_get (\<lambda>s. make_memtable_blocks (fst s))) (\<lambda>blocks.
          act_bind (act_get (\<lambda>s. next_segment_filename (se_manifest (fst s)))) (\<lambda>filename.
          act_bind (on_fs (write_segment_file filename blocks)) (\<lambda>_.
          act_bind (act_get (\<lambda>s. open_segment filename (snd s))) (\<lambda>reader.
          act_bind (act_get (\<lambda>s. Inr ((se_manifest (fst s))
              \<lparr>mf_generation := mf_generation (se_manifest (fst s)) + 1,
               mf_logical_sample_count := se_logical_sample_count (fst s),
               mf_segment_files := mf_segment_files (se_manifest (fst s)) @ [filename]\<rparr>))) (\<lambda>next_manifest.
          act_bind (on_fs (store_manifest next_manifest)) (\<lambda>_.
          act_bind (modify (\<lambda>E. E\<lparr>se_segments := se_segments E @ [reader], se_manifest := next_manifest\<rparr>)) (\<lambda>_.
          act_bind (on_wal wal_reset) (\<lambda>_.
            modify (\<lambda>E. E\<lparr>se_memtable := memtable_clear (se_memtable E)\<rparr>))))))))))
         engine_fail s)"

section \<open>Compaction\<close>

definition merge_block :: "SegmentBlock \<Rightarrow> series_map \<Rightarrow> series_map" where
  "merge_block block merged =
     om_put (block_series block)
       (fold (\<lambda>s. om_put (timestamp s) (sample_value s)) (block_samples block)
          (sm_samples merged (block_series block))) merged"

definition merge_segments :: "SegmentReader list \<Rightarrow> fs \<Rightarrow> series_map result" where
  "merge_segments segments f =
     efold (\<lambda>r merged. ebind (segment_blocks r f) (\<lambda>blocks. Inr (fold merge_block blocks merged)))
       segments []"

definition merged_snapshots :: "series_map \<Rightarrow> MemTableSeriesSnapshot list result" where
  "merged_snapshots merged =
     emap (\<lambda>(series, samples_by_timestamp).
             ebind (samples_of_map samples_by_timestamp) (\<lambda>samples.
               Inr (MemTableSeriesSnapshot series samples))) merged"

definition snapshots_count :: "MemTableSeriesSnapshot list \<Rightarrow> u64" where
  "snapshots_count snapshots = fold (\<lambda>s n. n + of_nat (length (snapshot_samples s))) snapshots 0"

fun remove_obsolete :: "string list \<Rightarrow> (fs, unit) act" where
  "remove_obsolete [] f = (Inr (), f)"
| "remove_obsolete (path # rest) f =
     (case sys_unlink path f of
        (Died, f) \<Rightarrow> (Inl Crashed, f)
      | (_, f) \<Rightarrow> remove_obsolete rest f)"

definition engine_compact :: "(engine_state, unit) act" where
  "engine_compact =
     act_bind (act_get (\<lambda>s. engine_ensure_usable (fst s))) (\<lambda>_ s.
       if length (se_segments (fst s)) \<le> 1 then (Inr (), s)
       else act_on_error
         (act_bind (act_get (\<lambda>s. merge_segments (se_segments (fst s)) (snd s))) (\<lambda>merged.
          act_bind (act_get (\<lambda>s. merged_snapshots merged)) (\<lambda>snapshots.
          act_bind (act_get (\<lambda>s.
              if snapshots_count snapshots \<noteq> mf_logical_sample_count (se_manifest (fst s))
              then Inl (SegmentFormatError ''compacted segment count disagrees with manifest'')
              else Inr ())) (\<lambda>_.
          act_bind (act_get (\<lambda>s. blocks_from_snapshots snapshots)) (\<lambda>blocks.
          act_bind (act_get (\<lambda>s. next_segment_filename (se_manifest (fst s)))) (\<lambda>filename.
          act_bind (on_fs (write_segment_file filename blocks)) (\<lambda>_.
          act_bind (act_get (\<lambda>s. open_segment filename (snd s))) (\<lambda>reader.
          act_bind (act_get (\<lambda>s. Inr
              \<lparr>mf_generation = mf_generation (se_manifest (fst s)) + 1,
               mf_logical_sample_count = mf_logical_sample_count (se_manifest (fst s)),
               mf_segment_files = [filename]\<rparr>)) (\<lambda>next_manifest.
          act_bind (act_get (\<lambda>s. Inr (mf_segment_files (se_manifest (fst s))))) (\<lambda>obsolete.
          act_bind (on_fs (store_manifest next_manifest)) (\<lambda>_.
          act_bind (modify (\<lambda>E. E\<lparr>se_segments := [reader], se_manifest := next_manifest\<rparr>)) (\<lambda>_.
            on_fs (remove_obsolete obsolete)))))))))))))
         engine_fail s)"

section \<open>Queries\<close>

definition newer :: "Sample option \<Rightarrow> Sample option \<Rightarrow> Sample option" where
  "newer result candidate =
     (case candidate of
        None \<Rightarrow> result
      | Some c \<Rightarrow> (case result of
                    None \<Rightarrow> candidate
                  | Some r \<Rightarrow> if timestamp c \<ge> timestamp r then candidate else result))"

definition engine_latest :: "engine_state \<Rightarrow> SeriesKey \<Rightarrow> Sample option result" where
  "engine_latest s series =
     ebind (engine_ensure_usable (fst s)) (\<lambda>_.
     ebind (efold (\<lambda>r result. ebind (segment_latest r (snd s) series) (\<lambda>c. Inr (newer result c)))
              (se_segments (fst s)) None) (\<lambda>result.
     ebind (memtable_latest (se_memtable (fst s)) series) (\<lambda>c. Inr (newer result c))))"

fun get_loop :: "fs \<Rightarrow> SeriesKey \<Rightarrow> Timestamp \<Rightarrow> SegmentReader list \<Rightarrow> Sample option result" where
  "get_loop f series t [] = Inr None"
| "get_loop f series t (segment # rest) =
     ebind (segment_get segment f series t) (\<lambda>found.
       if found \<noteq> None then Inr found else get_loop f series t rest)"

definition engine_get :: "engine_state \<Rightarrow> SeriesKey \<Rightarrow> Timestamp \<Rightarrow> Sample option result" where
  "engine_get s series t =
     ebind (engine_ensure_usable (fst s)) (\<lambda>_.
     ebind (memtable_get (se_memtable (fst s)) series t) (\<lambda>found.
       if found \<noteq> None then Inr found
       else get_loop (snd s) series t (rev (se_segments (fst s)))))"

definition merge_samples :: "Sample list \<Rightarrow> SamplesByTimestamp \<Rightarrow> SamplesByTimestamp" where
  "merge_samples samples merged = fold (\<lambda>s. om_put (timestamp s) (sample_value s)) samples merged"

definition engine_range :: "engine_state \<Rightarrow> SeriesKey \<Rightarrow> Timestamp \<Rightarrow> Timestamp \<Rightarrow> Sample list result" where
  "engine_range s series start stop =
     ebind (engine_ensure_usable (fst s)) (\<lambda>_.
       if stop < start then Inl (InvalidArgument ''range end must not precede range start'')
       else
     ebind (efold (\<lambda>r merged. ebind (segment_range r (snd s) series start stop) (\<lambda>xs. Inr (merge_samples xs merged)))
              (se_segments (fst s)) []) (\<lambda>merged.
     ebind (memtable_range (se_memtable (fst s)) series start stop) (\<lambda>xs.
       samples_of_map (merge_samples xs merged))))"

definition engine_series :: "engine_state \<Rightarrow> SeriesKey list result" where
  "engine_series s =
     ebind (engine_ensure_usable (fst s)) (\<lambda>_.
       let unique = fold (\<lambda>r u. fold (\<lambda>e. os_insert (ie_series e)) (sr_index r) u) (se_segments (fst s)) []
       in Inr (fold os_insert (memtable_series (se_memtable (fst s))) unique))"

text \<open>\<^verbatim>\<open>std::size_t\<close> has 64 bits, so the overflow tests of the counters cannot fire.\<close>

definition engine_sample_count :: "engine_state \<Rightarrow> nat result" where
  "engine_sample_count s =
     ebind (engine_ensure_usable (fst s)) (\<lambda>_.
       if unat (se_logical_sample_count (fst s)) > 2 ^ 64 - 1
       then Inl (OverflowError ''logical sample count exceeds size_t'')
       else Inr (unat (se_logical_sample_count (fst s))))"

definition engine_memtable_sample_count :: "engine_state \<Rightarrow> nat result" where
  "engine_memtable_sample_count s =
     ebind (engine_ensure_usable (fst s)) (\<lambda>_. Inr (memtable_sample_count (se_memtable (fst s))))"

definition engine_empty :: "engine_state \<Rightarrow> bool result" where
  "engine_empty s =
     ebind (engine_ensure_usable (fst s)) (\<lambda>_. Inr (se_logical_sample_count (fst s) = 0))"

definition engine_segment_count :: "engine_state \<Rightarrow> nat result" where
  "engine_segment_count s =
     ebind (engine_ensure_usable (fst s)) (\<lambda>_. Inr (length (se_segments (fst s))))"

definition engine_wal_size_bytes :: "engine_state \<Rightarrow> u64 result" where
  "engine_wal_size_bytes s =
     ebind (engine_ensure_usable (fst s)) (\<lambda>_. Inr (ww_size_bytes (se_wal (fst s))))"

definition engine_stats :: "engine_state \<Rightarrow> StorageEngineStats result" where
  "engine_stats s =
     ebind (engine_ensure_usable (fst s)) (\<lambda>_.
       if unat (se_logical_sample_count (fst s)) > 2 ^ 64 - 1
       then Inl (OverflowError ''logical sample count exceeds size_t'')
       else Inr \<lparr>st_sample_count = unat (se_logical_sample_count (fst s)),
                 st_memtable_sample_count = memtable_sample_count (se_memtable (fst s)),
                 st_segment_count = length (se_segments (fst s)),
                 st_wal_size_bytes = ww_size_bytes (se_wal (fst s))\<rparr>)"

end
