(* ===== verification/Database.thy ===== *)
theory Database
  imports StorageEngine
begin

text \<open>
  The public interface of \<^verbatim>\<open>include/chronostore/database.hpp\<close>, \<^verbatim>\<open>src/database.cpp\<close> and the
  process lock of \<^verbatim>\<open>src/database_lock.cpp\<close> in its POSIX variant.  A \<open>host\<close> is what the
  operating system holds for one database path: what is there, whether a descriptor holds
  the lock, and the directory's files, which are named relative to the directory.
\<close>

section \<open>The host\<close>

datatype path_entry = Missing | NotDirectory | Directory

record host =
  h_entry :: path_entry
  h_exists_fault :: bool
  h_is_directory_fault :: bool
  h_locked :: bool
  h_fs :: fs

definition on_dir :: "(fs, 'a) act \<Rightarrow> (host, 'a) act" where
  "on_dir m h = (case m (h_fs h) of (r, f) \<Rightarrow> (r, h\<lparr>h_fs := f\<rparr>))"

section \<open>The process lock\<close>

definition lock_path :: string where
  "lock_path = ''LOCK''"

definition wal_filename :: string where
  "wal_filename = ''chronostore.wal''"

text \<open>
  The lock file is opened with \<^verbatim>\<open>O_RDWR | O_CREAT\<close>, which creates an absent file empty, as
  \<^const>\<open>sys_open_append\<close> does.  \<^verbatim>\<open>flock(LOCK_EX | LOCK_NB)\<close>: it is refused while another descriptor holds the lock.  A
  process that dies in the call holds no lock afterwards.
\<close>

datatype flock_ret = Locked | WouldBlock | FlockError | FlockDied

definition sys_flock :: "host \<Rightarrow> flock_ret \<times> host" where
  "sys_flock h =
     (case next_outcome (h_fs h) of
        (Succeeds, f) \<Rightarrow>
          if h_locked h then (WouldBlock, h\<lparr>h_fs := f\<rparr>) else (Locked, h\<lparr>h_fs := f, h_locked := True\<rparr>)
      | (Dies n, f) \<Rightarrow> (FlockDied, h\<lparr>h_fs := f\<rparr>)
      | (_, f) \<Rightarrow> (FlockError, h\<lparr>h_fs := f\<rparr>))"

definition acquire_lock :: "string \<Rightarrow> (host, unit) act" where
  "acquire_lock path h =
     (case sys_open_append path (h_fs h) of
        (Died, f) \<Rightarrow> (Inl Crashed, h\<lparr>h_fs := f\<rparr>)
      | (Ret _, f) \<Rightarrow>
          (case sys_flock (h\<lparr>h_fs := f\<rparr>) of
             (Locked, h) \<Rightarrow> (Inr (), h)
           | (FlockDied, h) \<Rightarrow> (Inl Crashed, h)
           | (error, h) \<Rightarrow>
               act_bind (on_dir close_ignored) (\<lambda>_.
                 if error = WouldBlock then act_throw (DatabaseBusyError ''database directory is already open'')
                 else act_throw (SystemError ''failed to lock database directory'')) h)
      | (_, f) \<Rightarrow> (Inl (SystemError ''failed to open database lock file''), h\<lparr>h_fs := f\<rparr>))"

text \<open>
  The destructor: both calls' results are ignored, and the lock is gone once its only
  descriptor is closed.  A process that dies in one of these calls leaves the same files and
  no lock either, so for the directory and for other processes that outcome is not
  distinguished from a return.
\<close>

definition release_lock :: "host \<Rightarrow> host" where
  "release_lock h =
     (case sys_close (h_fs h) of (_, f) \<Rightarrow>
      case sys_close f of (_, f) \<Rightarrow> h\<lparr>h_fs := f, h_locked := False\<rparr>)"

section \<open>Options and errors\<close>

datatype Durability = durability_buffered | sync_on_write

record DatabaseOptions =
  durability :: Durability
  memtable_flush_threshold_samples :: nat

definition default_options :: DatabaseOptions where
  "default_options = \<lparr>durability = sync_on_write, memtable_flush_threshold_samples = 4096\<rparr>"

record DatabaseStats =
  ds_sample_count :: nat
  ds_memtable_sample_count :: nat
  ds_segment_count :: nat
  ds_wal_size_bytes :: u64

fun to_internal_durability :: "Durability \<Rightarrow> WalDurability" where
  "to_internal_durability durability_buffered = buffered"
| "to_internal_durability sync_on_write = sync_on_append"

fun decode_error_name :: "WalDecodeError \<Rightarrow> string" where
  "decode_error_name wal_none = ''no error''"
| "decode_error_name wal_incomplete_record = ''incomplete record''"
| "decode_error_name wal_invalid_magic = ''invalid magic''"
| "decode_error_name wal_unsupported_version = ''unsupported version''"
| "decode_error_name wal_unsupported_record_type = ''unsupported record type''"
| "decode_error_name wal_invalid_length = ''invalid length''"
| "decode_error_name wal_checksum_mismatch = ''checksum mismatch''"
| "decode_error_name wal_invalid_payload = ''invalid payload''"

definition make_format_error_message :: "u64 \<Rightarrow> WalDecodeError \<Rightarrow> string" where
  "make_format_error_message offset error =
     ''invalid WAL record at byte '' @ decimal (unat offset) @ '': '' @ decode_error_name error"

fun translate_error :: "exn \<Rightarrow> exn" where
  "translate_error (ManifestFormatError what) = DatabaseCorruptionError what"
| "translate_error (SegmentFormatError what) = DatabaseCorruptionError what"
| "translate_error (WalFormatError offset error) = DatabaseCorruptionError (make_format_error_message offset error)"
| "translate_error e = e"

definition translate_result :: "'a result \<Rightarrow> 'a result" where
  "translate_result r = map_sum translate_error id r"

definition translate_corruption :: "('s, 'a) act \<Rightarrow> ('s, 'a) act" where
  "translate_corruption operation s = apfst translate_result (operation s)"

section \<open>Opening and closing\<close>

definition prepare_database_directory :: "string \<Rightarrow> (host, string) act" where
  "prepare_database_directory directory h =
     (if directory = [] then (Inl (InvalidArgument ''database directory cannot be empty''), h)
      else if h_exists_fault h
      then (Inl (SystemError (''failed to inspect database directory: '' @ directory)), h)
      else act_bind
        (\<lambda>h. if h_entry h \<noteq> Missing then (Inr (), h)
             else (case sys_atomic (\<lambda>f. f) (h_fs h) of
                     (Ret _, f) \<Rightarrow> (Inr (), h\<lparr>h_fs := f, h_entry := Directory\<rparr>)
                   | (Died, f) \<Rightarrow> (Inl Crashed, h\<lparr>h_fs := f\<rparr>)
                   | (_, f) \<Rightarrow> (Inl (SystemError (''failed to create database directory: '' @ directory)), h\<lparr>h_fs := f\<rparr>)))
        (\<lambda>_ h.
           if h_is_directory_fault h
           then (Inl (SystemError (''failed to inspect database path: '' @ directory)), h)
           else if h_entry h \<noteq> Directory
           then (Inl (InvalidArgument (''database path is not a directory: '' @ directory)), h)
           else (Inr wal_filename, h)) h)"

record DatabaseImpl =
  db_engine :: StorageEngine
  db_flush_threshold_samples :: nat

text \<open>The members in order of declaration; when the engine throws, the lock is released again.\<close>

definition make_impl :: "string \<Rightarrow> DatabaseOptions \<Rightarrow> (host, DatabaseImpl) act" where
  "make_impl wal_path options =
     act_bind (acquire_lock lock_path) (\<lambda>_.
     act_on_error
       (act_bind (on_dir (open_engine wal_path (to_internal_durability (durability options)))) (\<lambda>E.
          act_return \<lparr>db_engine = E, db_flush_threshold_samples = memtable_flush_threshold_samples options\<rparr>))
       release_lock)"

record Database =
  db_impl :: "DatabaseImpl option"

definition open_database :: "string \<Rightarrow> DatabaseOptions \<Rightarrow> (host, Database) act" where
  "open_database directory options =
     act_bind (prepare_database_directory directory) (\<lambda>wal_path.
     act_bind (translate_corruption (make_impl wal_path options)) (\<lambda>I.
       act_return \<lparr>db_impl = Some I\<rparr>))"

text \<open>Destroying a database: the engine keeps no lock of its own.\<close>

definition close_database :: "Database \<Rightarrow> host \<Rightarrow> host" where
  "close_database D h = (case db_impl D of None \<Rightarrow> h | Some _ \<Rightarrow> release_lock h)"

text \<open>The move constructor gives the new object and what is left of the old one.\<close>

definition move_database :: "Database \<Rightarrow> Database \<times> Database" where
  "move_database D = (D, \<lparr>db_impl = None\<rparr>)"

text \<open>
  The move assignment destroys what the target owned before it takes over the source; an
  object assigned to itself is not considered.
\<close>

definition move_assign_database :: "Database \<Rightarrow> Database \<Rightarrow> host \<Rightarrow> (Database \<times> Database) \<times> host" where
  "move_assign_database target source h = ((source, \<lparr>db_impl = None\<rparr>), close_database target h)"

definition implementation :: "Database \<Rightarrow> DatabaseImpl result" where
  "implementation D =
     (case db_impl D of None \<Rightarrow> Inl (LogicError ''database has been moved from'') | Some I \<Rightarrow> Inr I)"

section \<open>Operations\<close>

text \<open>An operation of the implementation as an operation of the database object.\<close>

definition with_impl :: "(DatabaseImpl \<times> host, 'a) act \<Rightarrow> (Database \<times> host, 'a) act" where
  "with_impl m s =
     (case implementation (fst s) of
        Inl e \<Rightarrow> (Inl e, s)
      | Inr I \<Rightarrow> (case m (I, snd s) of (r, (I, h)) \<Rightarrow> (r, (\<lparr>db_impl = Some I\<rparr>, h))))"

abbreviation impl_engine :: "DatabaseImpl \<times> host \<Rightarrow> engine_state" where
  "impl_engine s \<equiv> (db_engine (fst s), h_fs (snd s))"

definition on_engine :: "(engine_state, 'a) act \<Rightarrow> (DatabaseImpl \<times> host, 'a) act" where
  "on_engine m s =
     (case m (impl_engine s) of (r, (E, f)) \<Rightarrow> (r, ((fst s)\<lparr>db_engine := E\<rparr>, (snd s)\<lparr>h_fs := f\<rparr>)))"

definition impl_put :: "SeriesKey \<Rightarrow> Sample \<Rightarrow> (DatabaseImpl \<times> host, unit) act" where
  "impl_put series sample =
     act_bind (translate_corruption (on_engine (engine_put series sample))) (\<lambda>_ s.
       if db_flush_threshold_samples (fst s) \<noteq> 0
       then act_bind (act_get (\<lambda>s. engine_memtable_sample_count (impl_engine s))) (\<lambda>n s.
              if n \<ge> db_flush_threshold_samples (fst s)
              then translate_corruption (on_engine engine_flush) s else (Inr (), s)) s
       else (Inr (), s))"

definition database_put :: "SeriesKey \<Rightarrow> Sample \<Rightarrow> (Database \<times> host, unit) act" where
  "database_put series sample = with_impl (impl_put series sample)"

definition database_sync :: "(Database \<times> host, unit) act" where
  "database_sync = with_impl (on_engine engine_sync)"

definition database_flush :: "(Database \<times> host, unit) act" where
  "database_flush = with_impl (translate_corruption (on_engine engine_flush))"

definition database_compact :: "(Database \<times> host, unit) act" where
  "database_compact = with_impl (translate_corruption (on_engine engine_compact))"

definition database_latest :: "Database \<times> host \<Rightarrow> SeriesKey \<Rightarrow> Sample option result" where
  "database_latest s series =
     ebind (implementation (fst s)) (\<lambda>I. translate_result (engine_latest (db_engine I, h_fs (snd s)) series))"

definition database_get :: "Database \<times> host \<Rightarrow> SeriesKey \<Rightarrow> Timestamp \<Rightarrow> Sample option result" where
  "database_get s series t =
     ebind (implementation (fst s)) (\<lambda>I. translate_result (engine_get (db_engine I, h_fs (snd s)) series t))"

definition database_range ::
  "Database \<times> host \<Rightarrow> SeriesKey \<Rightarrow> Timestamp \<Rightarrow> Timestamp \<Rightarrow> Sample list result" where
  "database_range s series start stop =
     ebind (implementation (fst s)) (\<lambda>I. translate_result (engine_range (db_engine I, h_fs (snd s)) series start stop))"

definition database_series :: "Database \<times> host \<Rightarrow> SeriesKey list result" where
  "database_series s = ebind (implementation (fst s)) (\<lambda>I. engine_series (db_engine I, h_fs (snd s)))"

definition database_sample_count :: "Database \<times> host \<Rightarrow> nat result" where
  "database_sample_count s = ebind (implementation (fst s)) (\<lambda>I. engine_sample_count (db_engine I, h_fs (snd s)))"

definition database_empty :: "Database \<times> host \<Rightarrow> bool result" where
  "database_empty s = ebind (implementation (fst s)) (\<lambda>I. engine_empty (db_engine I, h_fs (snd s)))"

definition database_stats :: "Database \<times> host \<Rightarrow> DatabaseStats result" where
  "database_stats s =
     ebind (implementation (fst s)) (\<lambda>I.
     ebind (engine_stats (db_engine I, h_fs (snd s))) (\<lambda>st.
       Inr \<lparr>ds_sample_count = st_sample_count st, ds_memtable_sample_count = st_memtable_sample_count st,
            ds_segment_count = st_segment_count st, ds_wal_size_bytes = st_wal_size_bytes st\<rparr>))"

end
