(* ===== verification/SegmentNames.thy ===== *)
theory SegmentNames
  imports StorageEngine
begin

text \<open>
  Names of segment files: the zero-padded generation makes them distinct and of fixed
  length, the manifest accepts them, and they collide with neither the log, the manifest
  nor a temporary file.
\<close>

section \<open>Extensions\<close>

lemma path_extension_append:
  assumes "a \<noteq> []" "CHR ''.'' \<notin> set e" "e \<noteq> []"
  shows "path_extension (a @ CHR ''.'' # e) = CHR ''.'' # e"
proof -
  have r: "rev (a @ CHR ''.'' # e) = rev e @ CHR ''.'' # rev a" by simp
  have t: "takeWhile (\<lambda>c. c \<noteq> CHR ''.'') (rev e @ CHR ''.'' # rev a) = rev e"
    using assms(2) by (subst takeWhile_append2) auto
  have d: "dropWhile (\<lambda>c. c \<noteq> CHR ''.'') (rev e @ CHR ''.'' # rev a) = CHR ''.'' # rev a"
    using assms(2) by (subst dropWhile_append2) auto
  have "a @ CHR ''.'' # e \<noteq> ''..''"
    using assms by (cases a) (auto simp: append_eq_Cons_conv)
  then show ?thesis
    using assms(1) unfolding path_extension_def r t d by (simp add: Let_def)
qed

lemma extension_tmp: "a \<noteq> [] \<Longrightarrow> path_extension (a @ ''.tmp'') = ''.tmp''"
  using path_extension_append[of a "''tmp''"] by simp

lemma extension_segment [simp]: "path_extension (segment_filename g) = ''.cst''"
  using path_extension_append[of "''segment-'' @ setw20 (decimal (unat g))" "''cst''"]
  by (simp add: segment_filename_def)

section \<open>Decimal numbers\<close>

definition digit_value :: "char \<Rightarrow> nat" where
  "digit_value c = of_char c - 48"

definition decimal_value :: "string \<Rightarrow> nat" where
  "decimal_value s = foldl (\<lambda>n c. 10 * n + digit_value c) 0 s"

lemma of_char_digit: "n < 10 \<Longrightarrow> (of_char (char_of (48 + n) :: char) :: nat) = 48 + n"
  by (simp add: of_char_of)

lemma decimal_value_decimal: "decimal_value (decimal n) = n"
proof (induction n rule: decimal.induct)
  case (1 n)
  have m: "of_char (char_of (48 + n mod 10) :: char) = 48 + n mod 10" by (rule of_char_digit) simp
  show ?case
  proof (cases "n < 10")
    case True
    then show ?thesis
      by (simp add: decimal.simps[of n] decimal_value_def digit_value_def of_char_digit)
  next
    case False
    then show ?thesis
      using 1 m by (simp add: decimal.simps[of n] decimal_value_def digit_value_def)
  qed
qed

lemma decimal_digits: "c \<in> set (decimal n) \<Longrightarrow> 48 \<le> (of_char c :: nat) \<and> (of_char c :: nat) < 58"
proof (induction n rule: decimal.induct)
  case (1 n)
  have m: "of_char (char_of (48 + n mod 10) :: char) = 48 + n mod 10" by (rule of_char_digit) simp
  show ?case
    using 1 m of_char_digit[of n] by (auto simp: decimal.simps[of n] split: if_splits)
qed

lemma length_decimal: "n < 10 ^ k \<Longrightarrow> 0 < k \<Longrightarrow> length (decimal n) \<le> k"
proof (induction n arbitrary: k rule: decimal.induct)
  case (1 n)
  show ?case
  proof (cases "n < 10")
    case True
    then show ?thesis using 1(3) by (simp add: decimal.simps[of n])
  next
    case False
    then obtain j where j: "k = Suc j" "0 < j" using 1(2,3) by (cases k; cases "k = 1") auto
    have "n div 10 < 10 ^ j" using 1(2) j(1) by (simp add: less_mult_imp_div_less mult.commute)
    then show ?thesis using 1(1)[OF False _ j(2)] False j(1) by (simp add: decimal.simps[of n])
  qed
qed

lemma decimal_value_zeros: "decimal_value (replicate k CHR ''0'' @ s) = decimal_value s"
proof -
  have "foldl (\<lambda>n c. 10 * n + digit_value c) 0 (replicate k CHR ''0'') = 0"
    by (induction k) (simp_all add: digit_value_def)
  then show ?thesis by (simp add: decimal_value_def)
qed

lemma setw20_inj: "setw20 (decimal m) = setw20 (decimal n) \<Longrightarrow> m = n"
  by (metis decimal_value_decimal decimal_value_zeros setw20_def)

lemma length_setw20: "length (setw20 (decimal (unat (g :: u64)))) = 20"
proof -
  have "unat g < 10 ^ 20" using unat_u64_less[of g] by simp
  then show ?thesis using length_decimal[of "unat g" 20] by (simp add: setw20_def)
qed

section \<open>Segment file names\<close>

lemma segment_filename_inj [simp]: "segment_filename a = segment_filename b \<longleftrightarrow> a = b"
proof
  assume "segment_filename a = segment_filename b"
  then have "setw20 (decimal (unat a)) = setw20 (decimal (unat b))" by (simp add: segment_filename_def)
  then show "a = b" using setw20_inj by (simp add: word_unat_eq_iff)
qed simp

lemma length_segment_filename: "length (segment_filename g) = 32"
  by (simp add: segment_filename_def length_setw20)

lemma segment_filename_chars:
  assumes "c \<in> set (segment_filename g)"
  shows "(of_char c :: nat) \<noteq> 47 \<and> (of_char c :: nat) \<noteq> 92"
proof -
  have digit: "(of_char c :: nat) \<noteq> 47 \<and> (of_char c :: nat) \<noteq> 92" if "c \<in> set (decimal (unat g))"
    using decimal_digits[OF that] by auto
  show ?thesis using assms digit by (auto simp: segment_filename_def setw20_def split: if_splits)
qed

lemma segment_filename_valid: "valid_segment_filename (segment_filename g)"
proof -
  have "segment_filename g \<noteq> []" by (simp add: segment_filename_def)
  moreover have "CHR ''/'' \<notin> set (segment_filename g)"
    using segment_filename_chars[of "CHR ''/''" g] by auto
  moreover have "char_of (92 :: nat) \<notin> set (segment_filename g)"
    using segment_filename_chars[of "char_of (92 :: nat)" g] by auto
  ultimately show ?thesis unfolding valid_segment_filename_def by simp
qed

lemma segment_filename_starts: "starts_with ''segment-'' (segment_filename g)"
  by (simp add: starts_with_def segment_filename_def)

text \<open>A name for the log that no other file of the database uses.\<close>

definition wal_path_ok :: "string \<Rightarrow> bool" where
  "wal_path_ok path \<longleftrightarrow>
     path \<noteq> manifest_path \<and> path_extension path \<noteq> ''.cst'' \<and> path_extension path \<noteq> ''.tmp''"

lemma manifest_tmp: "path_extension (manifest_path @ ''.tmp'') = ''.tmp''"
  by (rule extension_tmp) (simp add: manifest_path_def)

lemma extension_manifest [simp]: "path_extension manifest_path = []"
  by (simp add: path_extension_def manifest_path_def)

lemma segment_tmp: "path_extension (segment_filename g @ ''.tmp'') = ''.tmp''"
  by (rule extension_tmp) (simp add: segment_filename_def)

lemma names_distinct:
  "segment_filename g \<noteq> manifest_path" "segment_filename g \<noteq> manifest_path @ ''.tmp''"
  "segment_filename g @ ''.tmp'' \<noteq> manifest_path" "segment_filename g @ ''.tmp'' \<noteq> segment_filename h"
  "wal_path_ok path \<Longrightarrow> path \<noteq> segment_filename g" "wal_path_ok path \<Longrightarrow> path \<noteq> segment_filename g @ ''.tmp''"
  "wal_path_ok path \<Longrightarrow> path \<noteq> manifest_path" "wal_path_ok path \<Longrightarrow> path \<noteq> manifest_path @ ''.tmp''"
proof -
  have ext: "a \<noteq> b" if "path_extension a \<noteq> path_extension b" for a b using that by blast
  show "segment_filename g \<noteq> manifest_path" by (rule ext) simp
  show "segment_filename g \<noteq> manifest_path @ ''.tmp''" by (rule ext) (simp add: manifest_tmp)
  show "segment_filename g @ ''.tmp'' \<noteq> manifest_path" by (rule ext) (simp add: segment_tmp)
  show "segment_filename g @ ''.tmp'' \<noteq> segment_filename h" by (rule ext) (simp add: segment_tmp)
  assume ok: "wal_path_ok path"
  then show "path \<noteq> segment_filename g" "path \<noteq> segment_filename g @ ''.tmp''" "path \<noteq> manifest_path"
    "path \<noteq> manifest_path @ ''.tmp''"
    using segment_tmp[of g] manifest_tmp by (auto simp: wal_path_ok_def)
qed

lemma wal_path_not_stale: "wal_path_ok path \<Longrightarrow> \<not> is_stale live path"
  by (simp add: wal_path_ok_def is_stale_def)

lemma manifest_not_stale: "\<not> is_stale live manifest_path"
  by (simp add: is_stale_def starts_with_def manifest_path_def)

lemma live_not_stale: "segment_filename g \<in> set live \<Longrightarrow> \<not> is_stale live (segment_filename g)"
  by (simp add: is_stale_def)

end
