(* ===== verification/EngineState.thy ===== *)
theory EngineState
  imports SegmentNames
begin

text \<open>
  What the files of a database mean.  \<open>disk_state\<close> relates a directory to a manifest, the
  blocks of its segments, the records of the log and a torn tail; the store it denotes is
  the segments in manifest order with the log records written on top.  \<open>engine_inv\<close> adds
  what a usable engine keeps in memory.
\<close>

section \<open>Denotations\<close>

definition records_store :: "WalPutRecord list \<Rightarrow> store" where
  "records_store recs = fold (\<lambda>r. store_put (wal_series r) (wal_sample r)) recs (\<lambda>_. Map.empty)"

type_synonym named_blocks = "string \<times> SegmentBlock list"

definition segs_store :: "named_blocks list \<Rightarrow> store" where
  "segs_store segs = blocks_store (concat (map snd segs))"

definition db_store :: "named_blocks list \<Rightarrow> WalPutRecord list \<Rightarrow> store" where
  "db_store segs recs = store_overlay (segs_store segs) (records_store recs)"

definition readers :: "named_blocks list \<Rightarrow> SegmentReader list" where
  "readers segs = map (\<lambda>(name, bs). written_reader name bs) segs"

text \<open>The unfinished record a crash may leave at the end of the log.\<close>

definition torn_tail :: "byte list \<Rightarrow> bool" where
  "torn_tail torn \<longleftrightarrow> torn = [] \<or>
     (\<exists>r n. record_ok r \<and> n < length (wal_record_bytes r) \<and> torn = take n (wal_record_bytes r))"

definition no_read_faults :: "fs \<Rightarrow> bool" where
  "no_read_faults f \<longleftrightarrow> fs_fault f = (\<lambda>_. None) \<and> fs_dir_fault f = None"

definition manifest_at :: "fs \<Rightarrow> ManifestState \<Rightarrow> bool" where
  "manifest_at f mf \<longleftrightarrow>
     (fs_file f manifest_path = Some (manifest_bytes mf) \<and> manifest_ok mf) \<or>
     (fs_file f manifest_path = None \<and> mf = empty_manifest)"

definition log_at :: "string \<Rightarrow> fs \<Rightarrow> WalPutRecord list \<Rightarrow> byte list \<Rightarrow> bool" where
  "log_at path f recs torn \<longleftrightarrow>
     list_all record_ok recs \<and> torn_tail torn \<and> length (log_bytes recs @ torn) < 2 ^ 64 \<and>
     (fs_file f path = Some (log_bytes recs @ torn) \<or>
      fs_file f path = None \<and> recs = [] \<and> torn = [])"

definition segs_ok :: "fs \<Rightarrow> ManifestState \<Rightarrow> named_blocks list \<Rightarrow> bool" where
  "segs_ok f mf segs \<longleftrightarrow>
     map fst segs = mf_segment_files mf \<and> (\<forall>(name, bs)\<in>set segs. segment_at f name bs) \<and>
     (\<forall>name\<in>set (mf_segment_files mf). \<exists>g\<le>mf_generation mf. name = segment_filename g) \<and>
     distinct (mf_segment_files mf) \<and> length (mf_segment_files mf) \<le> max_manifest_segments \<and>
     mf_logical_sample_count mf = of_nat (card (store_keys (segs_store segs)))"

definition disk_state ::
  "string \<Rightarrow> fs \<Rightarrow> ManifestState \<Rightarrow> named_blocks list \<Rightarrow> WalPutRecord list \<Rightarrow> byte list \<Rightarrow> bool" where
  "disk_state path f mf segs recs torn \<longleftrightarrow>
     wal_path_ok path \<and> no_read_faults f \<and> fs_wf f \<and> manifest_at f mf \<and> segs_ok f mf segs \<and>
     log_at path f recs torn"

definition engine_inv :: "string \<Rightarrow> engine_state \<Rightarrow> named_blocks list \<Rightarrow> WalPutRecord list \<Rightarrow> bool" where
  "engine_inv path s segs recs \<longleftrightarrow>
     disk_state path (snd s) (se_manifest (fst s)) segs recs [] \<and>
     log_holds (se_wal (fst s), snd s) recs \<and> ww_path (se_wal (fst s)) = path \<and>
     se_segments (fst s) = readers segs \<and>
     memtable_inv (se_memtable (fst s)) \<and> memtable_content (se_memtable (fst s)) = records_store recs \<and>
     se_logical_sample_count (fst s) = of_nat (card (store_keys (db_store segs recs))) \<and>
     \<not> se_failed (fst s)"

section \<open>Facts about denotations\<close>

lemma records_store_append:
  "records_store (recs @ [r]) = store_put (wal_series r) (wal_sample r) (records_store recs)"
  by (simp add: records_store_def)

lemma records_store_Nil [simp]: "records_store [] = (\<lambda>_. Map.empty)"
  by (simp add: records_store_def)

lemma db_store_append:
  "db_store segs (recs @ [r]) = store_put (wal_series r) (wal_sample r) (db_store segs recs)"
  by (simp add: db_store_def records_store_append store_put_overlay)

lemma db_store_Nil [simp]: "db_store segs [] = segs_store segs"
  by (simp add: db_store_def)

lemma segs_store_Nil [simp]: "segs_store [] = (\<lambda>_. Map.empty)"
  by (simp add: segs_store_def)

lemma segs_store_append: "segs_store (as @ bs) = store_overlay (segs_store as) (segs_store bs)"
  by (simp add: segs_store_def blocks_store_append)

lemma segs_store_single [simp]: "segs_store [(name, bs)] = blocks_store bs"
  by (simp add: segs_store_def)

lemma finite_samples_map: "finite (dom (samples_map xs))"
  by (simp add: samples_map_def finite_dom_map_of)

lemma finite_store_keys_blocks: "finite (store_keys (blocks_store bs))"
proof (induction bs)
  case (Cons b bs)
  have "store_keys (blocks_store [b]) = Pair (block_series b) ` dom (samples_map (block_samples b))"
    by (auto simp: store_keys_def blocks_store_single split: if_splits)
  then have "finite (store_keys (blocks_store [b]))" by (simp add: finite_samples_map)
  with Cons show ?case by (simp add: blocks_store_Cons[of b bs] store_keys_overlay)
qed simp

lemma finite_store_keys_records: "finite (store_keys (records_store recs))"
  by (induction recs rule: rev_induct) (simp_all add: records_store_append store_keys_put)

lemma finite_store_keys_db: "finite (store_keys (db_store segs recs))"
  by (simp add: db_store_def store_keys_overlay segs_store_def finite_store_keys_blocks
      finite_store_keys_records)

lemma torn_tail_Nil [simp]: "torn_tail []"
  by (simp add: torn_tail_def)

lemma no_read_faults_readable: "no_read_faults f \<Longrightarrow> readable f name"
  by (simp add: no_read_faults_def readable_def)

lemma no_read_faults_touches: "touches A f f' \<Longrightarrow> no_read_faults f \<Longrightarrow> no_read_faults f'"
  by (simp add: touches_def no_read_faults_def)

section \<open>Frames: changes that leave the database as it is\<close>

lemma manifest_at_cong: "fs_file f' manifest_path = fs_file f manifest_path \<Longrightarrow> manifest_at f mf \<Longrightarrow> manifest_at f' mf"
  by (auto simp: manifest_at_def)

lemma log_at_cong: "fs_file f' path = fs_file f path \<Longrightarrow> log_at path f recs torn \<Longrightarrow> log_at path f' recs torn"
  by (auto simp: log_at_def)

lemma segs_ok_cong:
  assumes "segs_ok f mf segs" "no_read_faults f'"
    and "\<And>name. name \<in> set (mf_segment_files mf) \<Longrightarrow> fs_file f' name = fs_file f name"
  shows "segs_ok f' mf segs"
proof -
  have "segment_at f' name bs" if "(name, bs) \<in> set segs" for name bs
  proof -
    have "name \<in> fst ` set segs" using that by force
    then have "name \<in> set (mf_segment_files mf)" using assms(1) by (metis segs_ok_def set_map)
    with assms that show ?thesis
      by (auto simp: segs_ok_def segment_at_def no_read_faults_readable)
  qed
  with assms(1) show ?thesis by (auto simp: segs_ok_def)
qed

text \<open>The files that carry the meaning of a database directory.\<close>

definition db_files :: "string \<Rightarrow> ManifestState \<Rightarrow> string set" where
  "db_files path mf = insert path (insert manifest_path (set (mf_segment_files mf)))"

lemma disk_state_frame:
  assumes "disk_state path f mf segs recs torn" "touches A f f'" "A \<inter> db_files path mf = {}"
  shows "disk_state path f' mf segs recs torn"
proof -
  have same: "fs_file f' n = fs_file f n" if "n \<in> db_files path mf" for n
    using assms(2,3) that by (auto simp: touches_def)
  have nf: "no_read_faults f'" "fs_wf f'"
    using assms(1,2) no_read_faults_touches by (auto simp: disk_state_def touches_def)
  have "manifest_at f' mf"
    using assms(1) same[of manifest_path] manifest_at_cong[of f' f mf] by (simp add: disk_state_def db_files_def)
  moreover have "log_at path f' recs torn"
    using assms(1) same[of path] log_at_cong[of f' path f] by (simp add: disk_state_def db_files_def)
  moreover have "segs_ok f' mf segs"
    using assms(1) nf(1) same by (intro segs_ok_cong[of f mf segs f']) (auto simp: disk_state_def db_files_def)
  ultimately show ?thesis using assms(1) nf by (simp add: disk_state_def)
qed

lemma disk_state_keeps: "disk_state path f mf segs recs torn \<Longrightarrow> keeps_files f f' \<Longrightarrow> disk_state path f' mf segs recs torn"
  using disk_state_frame[of path f mf segs recs torn "{}" f'] by (simp add: keeps_files_def)

lemma disk_state_segments:
  assumes "disk_state path f mf segs recs torn" "(name, bs) \<in> set segs"
  shows "segment_at f name bs"
  using assms by (auto simp: disk_state_def segs_ok_def)

lemma live_names:
  assumes "disk_state path f mf segs recs torn" "name \<in> set (mf_segment_files mf)"
  obtains g where "g \<le> mf_generation mf" "name = segment_filename g"
  using assms by (auto simp: disk_state_def segs_ok_def)

end
