(* ===== verification/EngineBlocks.thy ===== *)
theory EngineBlocks
  imports EngineState
begin

text \<open>
  From an ordered map of samples to segment blocks: what \<^verbatim>\<open>blocks_from_snapshots\<close> of
  \<^verbatim>\<open>src/storage_engine.cpp\<close> makes of the MemTable at a flush and of the merged map at a
  compaction.  The blocks are valid, in file order, and denote the same store.
\<close>

section \<open>One series\<close>

lemma snapshot_blocks_step:
  assumes "xs \<noteq> []" "sorted_wrt (<) (map timestamp xs)"
  shows "snapshot_blocks k xs =
    ebind (snapshot_blocks k (drop 256 xs)) (\<lambda>bs. Inr (SegmentBlock k (take 256 xs) # bs))"
proof -
  have "make_SegmentBlock k (take n xs) = Inr (SegmentBlock k (take n xs))" if "0 < n" "n \<le> 256" for n
    using assms that sorted_wrt_take[of "(<)" "map timestamp xs" n]
    by (simp add: make_SegmentBlock_Inr take_map max_samples_per_segment_block_def)
  moreover have "take (min (length xs) 256) xs = take 256 xs" "drop (min (length xs) 256) xs = drop 256 xs"
    by (simp_all add: min_def)
  ultimately show ?thesis
    using assms(1) by (subst snapshot_blocks.simps) (simp add: max_samples_per_segment_block_def Let_def)
qed

definition blocks_of :: "SeriesKey \<Rightarrow> Sample list \<Rightarrow> SegmentBlock list \<Rightarrow> bool" where
  "blocks_of k xs bs \<longleftrightarrow>
     list_all block_wf bs \<and> (\<forall>b\<in>set bs. block_series b = k) \<and> concat (map block_samples bs) = xs \<and>
     sorted_wrt block_before bs"

lemma snapshot_blocks_correct:
  assumes "series_wf k" "list_all sample_wf xs" "sorted_wrt (<) (map timestamp xs)"
  shows "\<exists>bs. snapshot_blocks k xs = Inr bs \<and> blocks_of k xs bs"
  using assms(2,3)
proof (induction "length xs" arbitrary: xs rule: less_induct)
  case less
  show ?case
  proof (cases "xs = []")
    case True
    then show ?thesis by (subst snapshot_blocks.simps) (simp add: blocks_of_def)
  next
    case False
    let ?h = "SegmentBlock k (take 256 xs)"
    have split: "sorted_wrt (<) (map timestamp (take 256 xs) @ map timestamp (drop 256 xs))"
      using less.prems(2) by (metis append_take_drop_id map_append)
    have "list_all sample_wf (take 256 xs)" "list_all sample_wf (drop 256 xs)"
      using less.prems(1) by (auto simp: list_all_iff dest: in_set_takeD in_set_dropD)
    moreover from this obtain bs where bs: "snapshot_blocks k (drop 256 xs) = Inr bs" "blocks_of k (drop 256 xs) bs"
      using less.hyps[of "drop 256 xs"] split False by (auto simp: sorted_wrt_append)
    ultimately have h: "block_wf ?h"
      using assms(1) split False by (simp add: block_wf_def sorted_wrt_append max_samples_per_segment_block_def)
    have before: "block_before ?h b" if b: "b \<in> set bs" for b
    proof -
      have "block_samples b \<noteq> []" "concat (map block_samples bs) = drop 256 xs"
        using b bs(2) by (auto simp: blocks_of_def list_all_iff block_wf_def)
      moreover have "set (block_samples b) \<subseteq> set (concat (map block_samples bs))"
        using b by auto
      ultimately have "hd (block_samples b) \<in> set (drop 256 xs)"
        using hd_in_set by fastforce
      moreover have "last (take 256 xs) \<in> set (take 256 xs)"
        using False by (intro last_in_set) simp
      ultimately have "last_timestamp ?h < first_timestamp b"
        using split by (auto simp: sorted_wrt_append last_timestamp_def first_timestamp_def)
      then show ?thesis using b bs(2) by (simp add: block_before_def blocks_of_def)
    qed
    then have "blocks_of k xs (?h # bs)"
      using bs(2) h by (simp add: blocks_of_def)
    then show ?thesis using bs(1) snapshot_blocks_step[OF False less.prems(2)] by simp
  qed
qed

section \<open>A map of series\<close>

text \<open>The maps that carry valid samples: the MemTable's, and the merged map of a compaction.\<close>

definition sm_wf :: "series_map \<Rightarrow> bool" where
  "sm_wf m \<longleftrightarrow> sm_inv m \<and> sm_nonempty m \<and> store_finite_values (sm_content m) \<and>
     (\<forall>k\<in>fst ` set m. series_wf k)"

definition entry_snapshot :: "SeriesKey \<times> SamplesByTimestamp \<Rightarrow> MemTableSeriesSnapshot" where
  "entry_snapshot e = MemTableSeriesSnapshot (fst e) (map (\<lambda>(t, v). Sample t v) (snd e))"

lemma sm_wf_Nil [simp]: "sm_wf []"
  by (simp add: sm_wf_def store_finite_values_def)

lemma sm_wf_entry:
  assumes "sm_wf m" "(k, s) \<in> set m"
  shows "series_wf k" "s \<noteq> []" "om_inv s" "sm_content m k = map_of s" "(t, v) \<in> set s \<Longrightarrow> isfinite v"
  using assms sm_content_entry[of m k s] sm_content_finite_values[of m k s t v]
  by (force simp: sm_wf_def sm_nonempty_def sm_inv_def)+

lemma merged_snapshots_correct:
  assumes "sm_wf m"
  shows "merged_snapshots m = Inr (map entry_snapshot m)"
  unfolding merged_snapshots_def
proof (rule emap_all_Inr)
  fix e assume e: "e \<in> set m"
  obtain k s where ks: "e = (k, s)" by force
  then have "samples_of_map s = Inr (map (\<lambda>(t, v). Sample t v) s)"
    using sm_wf_entry(5)[OF assms] e by (intro samples_of_map_finite) blast
  then show "(\<lambda>(series, samples_by_timestamp).
      ebind (samples_of_map samples_by_timestamp) (\<lambda>samples. Inr (MemTableSeriesSnapshot series samples))) e =
    Inr (entry_snapshot e)"
    by (simp add: ks entry_snapshot_def)
qed

lemma memtable_snapshot_merged: "memtable_snapshot m = merged_snapshots (mt_series m)"
  by (simp add: memtable_snapshot_def merged_snapshots_def)

lemma snapshots_count_correct:
  "snapshots_count (map entry_snapshot m) = of_nat (sm_size m)"
proof -
  have "fold (\<lambda>s n. n + of_nat (length (snapshot_samples s))) (map entry_snapshot m) c = (c + of_nat (sm_size m) :: u64)" for c
    by (induction m arbitrary: c) (simp_all add: entry_snapshot_def sm_size_def)
  then show ?thesis by (simp add: snapshots_count_def)
qed

definition blocks_for :: "series_map \<Rightarrow> SegmentBlock list \<Rightarrow> bool" where
  "blocks_for m bs \<longleftrightarrow>
     list_all block_wf bs \<and> sorted_wrt block_before bs \<and>
     (\<forall>k x. (\<exists>b\<in>set bs. block_series b = k \<and> x \<in> set (block_samples b)) \<longleftrightarrow>
            (\<exists>s. (k, s) \<in> set m \<and> (timestamp x, sample_value x) \<in> set s))"

lemma entry_blocks:
  assumes "series_wf k" "om_inv s" "\<And>t v. (t, v) \<in> set s \<Longrightarrow> isfinite v"
  shows "\<exists>bs. snapshot_blocks (snapshot_series (entry_snapshot (k, s))) (snapshot_samples (entry_snapshot (k, s))) = Inr bs \<and>
    blocks_of k (map (\<lambda>(t, v). Sample t v) s) bs"
proof -
  have "list_all sample_wf (map (\<lambda>(t, v). Sample t v) s)"
    using assms(3) by (auto simp: list_all_iff sample_wf_def)
  moreover have "sorted_wrt (<) (map timestamp (map (\<lambda>(t, v). Sample t v) s))"
    using assms(2) by (simp only: timestamps_of_samples)
  ultimately show ?thesis
    using snapshot_blocks_correct[OF assms(1)] by (simp add: entry_snapshot_def)
qed

lemma sm_content_Some: "sm_content m k t = Some v \<Longrightarrow> \<exists>s. (k, s) \<in> set m \<and> (t, v) \<in> set s"
  by (cases "map_of m k") (auto simp: sm_content_def sm_samples_def dest!: map_of_SomeD)

lemma sm_wf_tl: "sm_wf (e # m) \<Longrightarrow> sm_wf m"
proof -
  assume wf: "sm_wf (e # m)"
  have inv: "sm_inv m" using wf by (auto simp: sm_wf_def sm_inv_def)
  have "isfinite v" if c: "sm_content m k t = Some v" for k t v
  proof -
    obtain s where s: "(k, s) \<in> set m" "(t, v) \<in> set s"
      using sm_content_Some[OF c] by blast
    then show ?thesis using sm_wf_entry(5)[OF wf, of k s t v] by simp
  qed
  then show ?thesis using wf inv by (auto simp: sm_wf_def sm_nonempty_def store_finite_values_def)
qed

lemma blocks_for_Cons:
  assumes "blocks_of k (map (\<lambda>(t, v). Sample t v) s) bs" "blocks_for m cs" "\<forall>k'\<in>fst ` set m. k < k'"
    and "s \<noteq> []"
  shows "blocks_for ((k, s) # m) (bs @ cs)"
proof -
  have later: "k < block_series c" if "c \<in> set cs" for c
  proof -
    have "block_samples c \<noteq> []" using that assms(2) by (auto simp: blocks_for_def list_all_iff block_wf_def)
    then obtain x where "x \<in> set (block_samples c)" by (meson last_in_set)
    then have "block_series c \<in> fst ` set m" using that assms(2) by (force simp: blocks_for_def)
    then show ?thesis using assms(3) by blast
  qed
  have here: "(\<exists>b\<in>set bs. block_series b = k' \<and> x \<in> set (block_samples b)) \<longleftrightarrow>
      k' = k \<and> (timestamp x, sample_value x) \<in> set s" for k' x
  proof -
    have "x \<in> set (concat (map block_samples bs)) \<longleftrightarrow> (timestamp x, sample_value x) \<in> set s"
      using assms(1) by (cases x) (auto simp: blocks_of_def)
    then show ?thesis using assms(1) by (auto simp: blocks_of_def)
  qed
  show ?thesis
    using assms(1,2) later here
    by (auto simp: blocks_for_def blocks_of_def sorted_wrt_append block_before_def bex_Un)
qed

lemma blocks_from_snapshots_correct:
  "sm_wf m \<Longrightarrow> \<exists>bs. blocks_from_snapshots (map entry_snapshot m) = Inr bs \<and> blocks_for m bs"
proof (induction m)
  case Nil
  then show ?case by (simp add: blocks_from_snapshots_def blocks_for_def)
next
  case (Cons e m)
  obtain k s where e: "e = (k, s)" by force
  note wf = sm_wf_entry[OF Cons.prems, of k s, unfolded e, simplified]
  from Cons.IH[OF sm_wf_tl[OF Cons.prems]] obtain bs where
    bs: "blocks_from_snapshots (map entry_snapshot m) = Inr bs" "blocks_for m bs" by blast
  obtain hs where hs: "snapshot_blocks (snapshot_series (entry_snapshot e)) (snapshot_samples (entry_snapshot e)) = Inr hs"
    "blocks_of k (map (\<lambda>(t, v). Sample t v) s) hs"
    using entry_blocks[of k s] wf e by blast
  have "\<forall>k'\<in>fst ` set m. k < k'"
    using Cons.prems by (simp add: sm_wf_def sm_inv_def e)
  from blocks_for_Cons[OF hs(2) bs(2) this wf(2)]
  have "blocks_for (e # m) (hs @ bs)" by (simp add: e)
  moreover have "blocks_from_snapshots (map entry_snapshot (e # m)) = Inr (hs @ bs)"
    using bs(1) hs(1) by (auto simp: blocks_from_snapshots_def ebind_def split: sum.splits)
  ultimately show ?case by blast
qed

lemma blocks_for_store:
  assumes "sm_wf m" "blocks_for m bs"
  shows "blocks_store bs = sm_content m"
proof (intro ext)
  fix k t
  have "blocks_store bs k t = Some v \<longleftrightarrow> sm_content m k t = Some v" for v
  proof -
    have "blocks_store bs k t = Some v \<longleftrightarrow> (\<exists>s. (k, s) \<in> set m \<and> (t, v) \<in> set s)"
      using assms(2) blocks_store_Some[of bs k t v] by (simp add: blocks_for_def)
    also have "\<dots> \<longleftrightarrow> sm_content m k t = Some v"
    proof
      assume "\<exists>s. (k, s) \<in> set m \<and> (t, v) \<in> set s"
      then show "sm_content m k t = Some v"
        using sm_wf_entry(3,4)[OF assms(1)] smap.set_entries by metis
    next
      assume "sm_content m k t = Some v"
      then show "\<exists>s. (k, s) \<in> set m \<and> (t, v) \<in> set s"
        by (rule sm_content_Some)
    qed
    finally show ?thesis .
  qed
  then show "blocks_store bs k t = sm_content m k t" by (metis not_Some_eq)
qed

lemma blocks_for_nonempty: "sm_wf m \<Longrightarrow> blocks_for m bs \<Longrightarrow> m \<noteq> [] \<Longrightarrow> bs \<noteq> []"
proof
  assume wf: "sm_wf m" and bs: "blocks_for m bs" "bs = []" and m: "m \<noteq> []"
  obtain k s where "hd m = (k, s)" by force
  then have ks: "(k, s) \<in> set m" using m by (metis hd_in_set)
  obtain t v where "(t, v) \<in> set s" using sm_wf_entry(2)[OF wf ks] by (metis last_in_set surj_pair)
  with ks have "\<exists>s. (k, s) \<in> set m \<and> (timestamp (Sample t v), sample_value (Sample t v)) \<in> set s" by auto
  then show False using bs unfolding blocks_for_def by fastforce
qed

text \<open>The blocks of the MemTable at a flush.\<close>

lemma memtable_wf: "memtable_inv m \<Longrightarrow> sm_wf (mt_series m)"
  by (auto simp: memtable_inv_def sm_wf_def)

lemma make_memtable_blocks_correct:
  assumes "memtable_inv (se_memtable E)"
  shows "\<exists>bs. make_memtable_blocks E = Inr bs \<and> list_all block_wf bs \<and> sorted_wrt block_before bs \<and>
    blocks_store bs = memtable_content (se_memtable E) \<and> (\<not> memtable_empty (se_memtable E) \<longrightarrow> bs \<noteq> [])"
proof -
  note wf = memtable_wf[OF assms]
  obtain bs where bs: "blocks_from_snapshots (map entry_snapshot (mt_series (se_memtable E))) = Inr bs"
    "blocks_for (mt_series (se_memtable E)) bs"
    using blocks_from_snapshots_correct[OF wf] by blast
  have "\<not> memtable_empty (se_memtable E) \<Longrightarrow> mt_series (se_memtable E) \<noteq> []"
    using assms by (auto simp: memtable_empty_def memtable_inv_def)
  then show ?thesis
    using bs blocks_for_store[OF wf bs(2)] blocks_for_nonempty[OF wf bs(2)] merged_snapshots_correct[OF wf]
    by (auto simp: make_memtable_blocks_def memtable_snapshot_merged memtable_content_def blocks_for_def)
qed

end
