(* ===== verification/EngineQueries.thy ===== *)
theory EngineQueries
  imports EngineBlocks
begin

text \<open>
  The queries of the storage engine.  In a usable state whose segments can be read, the
  engine implements the contract \<open>sample_source\<close> for the store that its segments, in
  manifest order, and the MemTable on top of them denote.
\<close>

section \<open>What a usable engine holds\<close>

definition segs_view :: "fs \<Rightarrow> SegmentReader list \<Rightarrow> store" where
  "segs_view f rs = fold (\<lambda>r S. store_overlay S (segment_store (f, r))) rs (\<lambda>_. Map.empty)"

definition segs_ready :: "fs \<Rightarrow> SegmentReader list \<Rightarrow> bool" where
  "segs_ready f rs \<longleftrightarrow> list_all (\<lambda>r. segment_inv (f, r)) rs"

definition engine_ready :: "engine_state \<Rightarrow> bool" where
  "engine_ready s \<longleftrightarrow> \<not> se_failed (fst s) \<and> memtable_inv (se_memtable (fst s)) \<and>
     segs_ready (snd s) (se_segments (fst s))"

definition engine_store :: "engine_state \<Rightarrow> store" where
  "engine_store s =
     store_overlay (segs_view (snd s) (se_segments (fst s))) (memtable_content (se_memtable (fst s)))"

lemma segs_view_simps [simp]:
  "segs_view f [] = (\<lambda>_. Map.empty)"
  "segs_view f (rs @ [r]) = store_overlay (segs_view f rs) (segment_store (f, r))"
  by (simp_all add: segs_view_def)

lemma segs_ready_simps [simp]:
  "segs_ready f []" "segs_ready f (rs @ [r]) \<longleftrightarrow> segs_ready f rs \<and> segment_inv (f, r)"
  by (simp_all add: segs_ready_def)

section \<open>Point queries\<close>

lemma overlay_lookup:
  "map_option (Sample t) (store_overlay S N k t) =
     (if N k t \<noteq> None then map_option (Sample t) (N k t) else map_option (Sample t) (S k t))"
  by (auto simp: store_overlay_def map_add_def split: option.splits)

lemma get_loop_correct:
  "segs_ready f rs \<Longrightarrow> get_loop f k t (rev rs) = Inr (map_option (Sample t) (segs_view f rs k t))"
proof (induction rs rule: rev_induct)
  case (snoc r rs)
  then have "segment_get r f k t = Inr (map_option (Sample t) (segment_store (f, r) k t))"
    using segment.get_content[of "(f, r)" k t] by simp
  with snoc show ?case by (simp add: overlay_lookup)
qed simp

lemma contains_loop_correct:
  "segs_ready f rs \<Longrightarrow> contains_in_segments rs f k t = Inr (segs_view f rs k t \<noteq> None)"
  unfolding contains_in_segments_def
proof (induction rs rule: rev_induct)
  case (snoc r rs)
  then have "segment_get r f k t = Inr (map_option (Sample t) (segment_store (f, r) k t))"
    using segment.get_content[of "(f, r)" k t] by simp
  with snoc show ?case by (auto simp: store_overlay_def map_add_def split: option.splits)
qed simp

lemma engine_contains_correct:
  assumes "engine_ready s"
  shows "engine_contains s k t = Inr (engine_store s k t \<noteq> None)"
  using assms contains_loop_correct[of "snd s" "se_segments (fst s)" k t]
  by (auto simp: engine_contains_def engine_ready_def engine_store_def memtable_get_correct
      store_overlay_def map_add_def split: option.splits)

lemma engine_get_correct:
  assumes "engine_ready s"
  shows "engine_get s k t = Inr (map_option (Sample t) (engine_store s k t))"
  using assms get_loop_correct[of "snd s" "se_segments (fst s)" k t]
  by (simp add: engine_get_def engine_ready_def engine_ensure_usable_def engine_store_def
      memtable_get_correct overlay_lookup)

section \<open>Latest\<close>

lemma newer_latest:
  assumes "is_latest S k r" "is_latest N k c"
  shows "is_latest (store_overlay S N) k (newer r c)"
proof (cases r; cases c)
  fix x y assume r: "r = Some x" and c: "c = Some y"
  show ?thesis
  proof (cases "timestamp x \<le> timestamp y")
    case True
    then show ?thesis
      using assms r c by (auto simp: newer_def is_latest_Some store_overlay_def map_add_def
          split: option.splits intro: order_trans)
  next
    case False
    have "N k (timestamp x) = None"
      using assms(2) False by (auto simp: c is_latest_Some)
    then show ?thesis
      using assms r c False by (fastforce simp: newer_def is_latest_Some store_overlay_def map_add_def
          split: option.splits)
  qed
qed (use assms in \<open>auto simp: newer_def is_latest_def store_overlay_def map_add_def split: option.splits\<close>)

lemma latest_loop_correct:
  "segs_ready f rs \<Longrightarrow>
   \<exists>x. efold (\<lambda>r res. ebind (segment_latest r f k) (\<lambda>c. Inr (newer res c))) rs None = Inr x \<and>
     is_latest (segs_view f rs) k x"
proof (induction rs rule: rev_induct)
  case (snoc r rs)
  obtain c where "segment_latest r f k = Inr c" "is_latest (segment_store (f, r)) k c"
    using segment.latest_content[of "(f, r)" k] snoc.prems by auto
  with snoc show ?case by (auto simp: efold_append intro: newer_latest)
qed (simp add: is_latest_def)

lemma engine_latest_correct:
  assumes "engine_ready s"
  shows "\<exists>x. engine_latest s k = Inr x \<and> is_latest (engine_store s) k x"
proof -
  obtain x where x: "efold (\<lambda>r res. ebind (segment_latest r (snd s) k) (\<lambda>c. Inr (newer res c)))
      (se_segments (fst s)) None = Inr x" "is_latest (segs_view (snd s) (se_segments (fst s))) k x"
    using latest_loop_correct[of "snd s" "se_segments (fst s)" k] assms by (auto simp: engine_ready_def)
  obtain c where "memtable_latest (se_memtable (fst s)) k = Inr c"
    "is_latest (memtable_content (se_memtable (fst s))) k c"
    using memtable_latest_correct assms by (auto simp: engine_ready_def)
  with x assms show ?thesis
    by (auto simp: engine_latest_def engine_ready_def engine_ensure_usable_def engine_store_def
        intro: newer_latest)
qed

section \<open>Range\<close>

definition window :: "Timestamp \<Rightarrow> Timestamp \<Rightarrow> (Timestamp \<rightharpoonup> double) \<Rightarrow> (Timestamp \<rightharpoonup> double)" where
  "window a b m = (\<lambda>t. if a \<le> t \<and> t < b then m t else None)"

lemma window_overlay: "window a b (store_overlay S N k) = window a b (S k) ++ window a b (N k)"
  by (auto simp: window_def store_overlay_def map_add_def fun_eq_iff)

lemma map_of_rev_distinct: "distinct (map fst al) \<Longrightarrow> map_of (rev al) = map_of al"
proof
  fix k assume d: "distinct (map fst al)"
  then have "distinct (map fst (rev al))" by (simp add: rev_map [symmetric])
  with d have "map_of (rev al) k = Some v \<longleftrightarrow> map_of al k = Some v" for v by simp
  then show "map_of (rev al) k = map_of al k" by (metis not_Some_eq)
qed

lemma merge_samples_correct:
  assumes "om_inv m" "map_of m = window a b (S k)" "is_range N k a b xs"
  shows "om_inv (merge_samples xs m) \<and> map_of (merge_samples xs m) = window a b (store_overlay S N k)"
proof -
  have srt: "sorted_wrt (<) (map timestamp xs)" using assms(3) by (simp add: is_range_def)
  then have dist: "distinct (map fst (map (\<lambda>s. (timestamp s, sample_value s)) xs))"
    by (simp add: comp_def strict_sorted_distinct)
  have "map_of (rev (map (\<lambda>s. (timestamp s, sample_value s)) xs)) = samples_map xs"
    unfolding samples_map_def by (rule map_of_rev_distinct[OF dist])
  moreover have "samples_map xs = window a b (N k)"
  proof
    fix t
    have "samples_map xs t = Some v \<longleftrightarrow> window a b (N k) t = Some v" for v
      using samples_map_Some[OF srt, of t v] assms(3) by (auto simp: is_range_def window_def)
    then show "samples_map xs t = window a b (N k) t" by (metis not_Some_eq)
  qed
  ultimately show ?thesis
    using assms(1,2) smap.find_fold_put[OF assms(1), of timestamp sample_value xs]
      smap.invar_fold_put[OF assms(1), of timestamp sample_value xs]
    by (simp add: merge_samples_def window_overlay)
qed

lemma range_loop_correct:
  "segs_ready f rs \<Longrightarrow> a \<le> b \<Longrightarrow>
   \<exists>m. efold (\<lambda>r merged. ebind (segment_range r f k a b) (\<lambda>xs. Inr (merge_samples xs merged))) rs [] = Inr m \<and>
     om_inv m \<and> map_of m = window a b (segs_view f rs k)"
proof (induction rs rule: rev_induct)
  case (snoc r rs)
  then obtain m where m: "efold (\<lambda>r merged. ebind (segment_range r f k a b) (\<lambda>xs. Inr (merge_samples xs merged))) rs [] = Inr m"
    "om_inv m" "map_of m = window a b (segs_view f rs k)" by auto
  obtain xs where "segment_range r f k a b = Inr xs" "is_range (segment_store (f, r)) k a b xs"
    using segment.range_content[of "(f, r)" a b k] snoc.prems by auto
  with m merge_samples_correct[of m a b "segs_view f rs" k] show ?case by (simp add: efold_append)
qed (simp add: window_def fun_eq_iff)

lemma segment_store_finite: "segment_inv (f, r) \<Longrightarrow> store_finite_values (segment_store (f, r))"
  unfolding store_finite_values_def
proof (intro allI impI)
  fix k t v assume inv: "segment_inv (f, r)" and c: "segment_store (f, r) k t = Some v"
  from segment_invD[OF inv] obtain bs where "segment_store (f, r) = blocks_store bs"
    "list_all block_wf bs" "sorted_wrt block_before bs" by auto
  with c blocks_store_Some[of bs k t v] obtain b where "block_wf b" "Sample t v \<in> set (block_samples b)"
    by (auto simp: list_all_iff)
  then show "isfinite v" by (force simp: block_wf_def list_all_iff sample_wf_def)
qed

lemma overlay_finite: "store_finite_values S \<Longrightarrow> store_finite_values N \<Longrightarrow> store_finite_values (store_overlay S N)"
  by (auto simp: store_finite_values_def store_overlay_def map_add_def split: option.splits)

lemma segs_view_finite: "segs_ready f rs \<Longrightarrow> store_finite_values (segs_view f rs)"
  by (induction rs rule: rev_induct)
    (auto simp: overlay_finite segment_store_finite store_finite_values_def[of "\<lambda>_. Map.empty"])

lemma engine_store_finite: "engine_ready s \<Longrightarrow> store_finite_values (engine_store s)"
  unfolding engine_store_def engine_ready_def memtable_content_def memtable_inv_def
  by (intro overlay_finite segs_view_finite) simp_all

lemma window_is_range:
  assumes "om_inv m" "map_of m = window a b (S k)"
  shows "is_range S k a b (map (\<lambda>(t, v). Sample t v) m)"
proof -
  have "set (map (\<lambda>(t, v). Sample t v) m) = {Sample t v |t v. S k t = Some v \<and> a \<le> t \<and> t < b}"
  proof -
    have "(t, v) \<in> set m \<longleftrightarrow> S k t = Some v \<and> a \<le> t \<and> t < b" for t v
      using smap.set_entries[OF assms(1), of t v] assms(2) by (simp add: window_def)
    then show ?thesis by force
  qed
  moreover have "sorted_wrt (<) (map timestamp (map (\<lambda>(t, v). Sample t v) m))"
    unfolding timestamps_of_samples by (rule assms(1))
  ultimately show ?thesis by (simp add: is_range_def)
qed

lemma engine_range_correct:
  assumes "engine_ready s" "a \<le> b"
  shows "\<exists>xs. engine_range s k a b = Inr xs \<and> is_range (engine_store s) k a b xs"
proof -
  obtain m where m: "efold (\<lambda>r merged. ebind (segment_range r (snd s) k a b) (\<lambda>xs. Inr (merge_samples xs merged)))
      (se_segments (fst s)) [] = Inr m" "om_inv m"
    "map_of m = window a b (segs_view (snd s) (se_segments (fst s)) k)"
    using range_loop_correct assms by (force simp: engine_ready_def)
  obtain xs where xs: "memtable_range (se_memtable (fst s)) k a b = Inr xs"
    "is_range (memtable_content (se_memtable (fst s))) k a b xs"
    using memtable_range_correct assms by (force simp: engine_ready_def)
  let ?m = "merge_samples xs m"
  have merged: "om_inv ?m" "map_of ?m = window a b (engine_store s k)"
    using merge_samples_correct[OF m(2) _ xs(2), of "segs_view (snd s) (se_segments (fst s))"] m(3)
    by (simp_all add: engine_store_def)
  have "isfinite v" if "(t, v) \<in> set ?m" for t v
    using that smap.set_entries[OF merged(1), of t v] merged(2) engine_store_finite[OF assms(1)]
    by (auto simp: window_def store_finite_values_def split: if_splits)
  then have "samples_of_map ?m = Inr (map (\<lambda>(t, v). Sample t v) ?m)"
    by (rule samples_of_map_finite)
  then show ?thesis
    using m(1) xs(1) assms window_is_range[of ?m a b "engine_store s" k] merged
    by (simp add: engine_range_def engine_ready_def engine_ensure_usable_def)
qed

lemma engine_range_reversed:
  "engine_ready s \<Longrightarrow> b < a \<Longrightarrow> \<exists>msg. engine_range s k a b = Inl (InvalidArgument msg)"
  by (simp add: engine_range_def engine_ready_def engine_ensure_usable_def)

interpretation engine: sample_source engine_ready engine_store engine_get engine_latest engine_range
  by unfold_locales
    (simp_all add: engine_get_correct engine_latest_correct engine_range_correct engine_range_reversed)

section \<open>Series\<close>

lemma index_series:
  assumes "segment_inv (f, r)"
  shows "ie_series ` set (sr_index r) = {k. \<exists>t. segment_store (f, r) k t \<noteq> None}"
proof -
  obtain bs where bs: "segment_blocks r f = Inr bs" "segment_store (f, r) = blocks_store bs"
    "list_all block_wf bs" "sorted_wrt block_before bs"
    using segment_invD[OF assms] by auto
  have "ie_series ` set es = block_series ` set cs" if "list_all2 (reads r f) es cs" for es cs
    using that by induction (auto simp: reads_block(3))
  then have "ie_series ` set (sr_index r) = block_series ` set bs"
    using bs(1) segment_blocks_reads by blast
  moreover have "(\<exists>t. blocks_store bs k t \<noteq> None) \<longleftrightarrow> k \<in> block_series ` set bs" for k
  proof
    assume "k \<in> block_series ` set bs"
    then obtain b where b: "b \<in> set bs" "block_series b = k" by blast
    then have "hd (block_samples b) \<in> set (block_samples b)"
      using bs(3) by (auto simp: list_all_iff block_wf_def)
    then have "blocks_store bs k (timestamp (hd (block_samples b))) = Some (sample_value (hd (block_samples b)))"
      using b blocks_store_Some[OF bs(3,4)] by (metis Sample.collapse)
    then show "\<exists>t. blocks_store bs k t \<noteq> None" by blast
  qed (use blocks_store_Some[OF bs(3,4)] in force)
  ultimately show ?thesis using bs(2) by auto
qed

lemma memtable_series_set:
  assumes "memtable_inv m"
  shows "set (memtable_series m) = {k. \<exists>t. memtable_content m k t \<noteq> None}"
proof -
  have wf: "sm_wf (mt_series m)" by (rule memtable_wf[OF assms])
  have "(\<exists>t. sm_content (mt_series m) k t \<noteq> None) \<longleftrightarrow> k \<in> fst ` set (mt_series m)" for k
  proof
    assume "k \<in> fst ` set (mt_series m)"
    then obtain s where s: "(k, s) \<in> set (mt_series m)" by force
    then obtain t v where "(t, v) \<in> set s" using sm_wf_entry(2)[OF wf s] by (metis last_in_set surj_pair)
    then show "\<exists>t. sm_content (mt_series m) k t \<noteq> None"
      using sm_wf_entry(3,4)[OF wf s] smap.set_entries by (metis option.distinct(1))
  qed (use sm_content_Some in force)
  then show ?thesis by (auto simp: memtable_series_def memtable_content_def)
qed

lemma overlay_series: "(\<exists>t y. store_overlay S N k t = Some y) \<longleftrightarrow> (\<exists>t y. N k t = Some y) \<or> (\<exists>t y. S k t = Some y)"
proof -
  have "(\<exists>y. store_overlay S N k t = Some y) \<longleftrightarrow> (\<exists>y. N k t = Some y) \<or> (\<exists>y. S k t = Some y)" for t
    by (auto simp: store_overlay_def map_add_def split: option.splits)
  then show ?thesis by blast
qed

lemma segs_series:
  "segs_ready f rs \<Longrightarrow>
     set (fold (\<lambda>r u. fold (\<lambda>e. os_insert (ie_series e)) (sr_index r) u) rs []) =
       {k. \<exists>t. segs_view f rs k t \<noteq> None} \<and>
     sorted_wrt (<) (fold (\<lambda>r u. fold (\<lambda>e. os_insert (ie_series e)) (sr_index r) u) rs [])"
proof (induction rs rule: rev_induct)
  case (snoc r rs)
  have f: "fold (\<lambda>e. os_insert (ie_series e)) es u = fold os_insert (map ie_series es) u" for es u
    by (simp add: fold_map comp_def)
  show ?case
    using snoc index_series[of f r] by (auto simp: f sorted_fold_os_insert overlay_series)
qed simp

lemma engine_series_correct:
  assumes "engine_ready s"
  shows "\<exists>ks. engine_series s = Inr ks \<and> sorted_wrt (<) ks \<and> set ks = {k. \<exists>t. engine_store s k t \<noteq> None}"
proof -
  have r: "segs_ready (snd s) (se_segments (fst s))" "memtable_inv (se_memtable (fst s))"
    using assms by (simp_all add: engine_ready_def)
  show ?thesis
    using segs_series[OF r(1)] memtable_series_set[OF r(2)] assms
    by (fastforce simp: engine_series_def engine_ready_def engine_ensure_usable_def Let_def
        sorted_fold_os_insert engine_store_def store_overlay_def map_add_def split: option.splits)
qed

section \<open>Engines in their invariant\<close>

lemma readers_ready:
  assumes "\<forall>(name, bs)\<in>set segs. segment_at f name bs"
  shows "segs_ready f (readers segs) \<and> segs_view f (readers segs) = segs_store segs"
  using assms
proof (induction segs rule: rev_induct)
  case (snoc x segs)
  obtain name bs where x: "x = (name, bs)" by force
  then have "segment_at f name bs" using snoc.prems by auto
  with snoc segment_at_inv[of f name bs] show ?case by (simp add: readers_def x segs_store_append)
qed (simp add: readers_def)

lemma engine_inv_ready:
  assumes "engine_inv path s segs recs"
  shows "engine_ready s" "engine_store s = db_store segs recs"
proof -
  have "\<forall>(name, bs)\<in>set segs. segment_at (snd s) name bs"
    using assms by (simp add: engine_inv_def disk_state_def segs_ok_def)
  from readers_ready[OF this] assms show "engine_ready s" "engine_store s = db_store segs recs"
    by (simp_all add: engine_inv_def engine_ready_def engine_store_def db_store_def)
qed

end
