(* ===== verification/EngineRecovery.thy ===== *)
theory EngineRecovery
  imports EngineQueries
begin

text \<open>
  Opening a database.  From every directory that is in a \<open>disk_state\<close>, recovery rebuilds an
  engine for the store the directory denotes; if it is stopped at any system call, the
  directory still denotes the same store.
\<close>

section \<open>Stale files\<close>

lemma sys_unlink_touches:
  assumes "sys_unlink name f = (r, f')"
  shows "touches {name} f f' \<and> (fs_script f = [] \<longrightarrow> r = Ret 0)"
proof -
  let ?eff = "\<lambda>f. (fs_delete name f)\<lparr>fs_pending := fs_pending f @ [(name, None)]\<rparr>"
  obtain g where g: "later f g" "f' = g \<or> f' = ?eff g" "fs_script f = [] \<longrightarrow> r = Ret 0"
    using sys_atomic_cases[OF assms[unfolded sys_unlink_def]] by blast
  have "touches {name} g (?eff g)"
    by (auto simp: touches_def fs_file_def fs_delete_def map_of_om_del fs_wf_def om_del_inv)
  then have "touches {name} f (?eff g)"
    using touches_trans[OF touches_later[OF g(1), of "{}"], of "{name}"] by simp
  then show ?thesis using g touches_later[OF g(1)] by blast
qed

lemma remove_stale_touches:
  "remove_stale live fault names f = (r, f') \<Longrightarrow>
     touches {n. is_stale live n} f f' \<and> (fs_script f = [] \<and> fault = None \<longrightarrow> r = Inr ())"
proof (induction live fault names f rule: remove_stale.induct)
  case (2 live fault filename rest f)
  obtain r1 f1 where u: "sys_unlink filename f = (r1, f1)" by force
  note t = sys_unlink_touches[OF u]
  show ?case
  proof (cases "fault \<noteq> Some 0 \<and> is_stale live filename")
    case True
    then have t1: "touches {n. is_stale live n} f f1" using t touches_mono by blast
    have q: "fs_script f = [] \<Longrightarrow> fs_script f1 = []" using t by (simp add: touches_def)
    show ?thesis
    proof (cases "r1 = Died")
      case True
      then show ?thesis using "2.prems" u t t1 \<open>fault \<noteq> Some 0 \<and> is_stale live filename\<close> by auto
    next
      case False
      then have rest: "remove_stale live (map_option (\<lambda>n. n - 1) fault) rest f1 = (r, f')"
        using "2.prems" u True by (cases r1) auto
      have "touches {n. is_stale live n} f1 f' \<and> (fs_script f1 = [] \<and> fault = None \<longrightarrow> r = Inr ())"
        using False True "2.IH"(1,2,3)[OF _ _ u[symmetric] _ rest] by (cases r1) simp_all
      then show ?thesis using touches_trans[OF t1, of "{n. is_stale live n}" f'] q by auto
    qed
  qed (use "2" in \<open>auto split: if_splits\<close>)
qed (auto split: if_splits)

section \<open>Segments and their counts\<close>

lemma recover_segments_correct:
  assumes "disk_state path f mf segs recs torn"
  shows "recover_segments f = Inr \<lparr>rs_memtable = empty_memtable, rs_manifest = mf, rs_segments = readers segs,
    rs_logical_sample_count = mf_logical_sample_count mf, rs_wal_size = 0\<rparr>"
proof -
  have nf: "\<And>n. readable f n" using assms no_read_faults_readable by (auto simp: disk_state_def)
  have lm: "load_manifest f = Inr mf"
    using assms nf load_manifest_stored[of mf f] load_manifest_absent[of f]
    by (auto simp: disk_state_def manifest_at_def)
  have opened: "emap (\<lambda>filename. open_segment filename f) (map fst ss) = Inr (readers ss)"
    if "\<forall>(name, bs)\<in>set ss. segment_at f name bs" for ss
    using that by (induction ss) (auto simp: readers_def open_segment_written)
  have "map fst segs = mf_segment_files mf" "\<forall>(name, bs)\<in>set segs. segment_at f name bs"
    using assms by (auto simp: disk_state_def segs_ok_def)
  with opened[of segs] have "emap (\<lambda>filename. open_segment filename f) (mf_segment_files mf) = Inr (readers segs)"
    by simp
  then show ?thesis using lm by (simp add: recover_segments_def)
qed

definition segs_samples :: "named_blocks list \<Rightarrow> nat" where
  "segs_samples segs = sum_list (map (\<lambda>(name, bs). sum_list (map (length \<circ> block_samples) bs)) segs)"

lemma physical_readers: "physical_segment_samples (readers segs) = of_nat (segs_samples segs)"
proof -
  have "fold (\<lambda>r n. n + sr_sample_count r) (readers segs) c = (c + of_nat (segs_samples segs) :: u64)" for c
    by (induction segs arbitrary: c) (auto simp: readers_def segs_samples_def written_reader_def)
  then show ?thesis by (simp add: physical_segment_samples_def)
qed

lemma card_blocks_keys: "card (store_keys (blocks_store bs)) \<le> sum_list (map (length \<circ> block_samples) bs)"
proof (induction bs)
  case (Cons b bs)
  have "store_keys (blocks_store [b]) = Pair (block_series b) ` dom (samples_map (block_samples b))"
    by (auto simp: store_keys_def blocks_store_single split: if_splits)
  then have "card (store_keys (blocks_store [b])) \<le> card (dom (samples_map (block_samples b)))"
    by (simp add: card_image_le finite_samples_map)
  also have "\<dots> \<le> length (block_samples b)"
    using card_length[of "map timestamp (block_samples b)"]
    by (simp add: samples_map_def dom_map_of_conv_image_fst image_image)
  finally have "card (store_keys (blocks_store [b])) \<le> length (block_samples b)" .
  moreover have "store_keys (blocks_store (b # bs)) = store_keys (blocks_store [b]) \<union> store_keys (blocks_store bs)"
    by (simp only: blocks_store_Cons[of b bs] store_keys_overlay)
  ultimately show ?case
    using Cons card_Un_le[of "store_keys (blocks_store [b])" "store_keys (blocks_store bs)"] by simp
qed simp

lemma card_segs_keys: "card (store_keys (segs_store segs)) \<le> segs_samples segs"
proof -
  have "sum_list (map (length \<circ> block_samples) (concat (map snd segs))) = segs_samples segs"
    by (induction segs) (auto simp: segs_samples_def comp_def)
  then show ?thesis using card_blocks_keys[of "concat (map snd segs)"] by (simp add: segs_store_def)
qed

lemma segment_samples_bound:
  assumes "segment_ok bs"
  shows "sum_list (map (length \<circ> block_samples) bs) \<le> 256000000"
proof -
  have "sum_list (map (length \<circ> block_samples) bs) \<le> length bs * 256"
    if "list_all block_wf bs" for bs :: "SegmentBlock list"
    using that by (induction bs) (auto simp: block_wf_def max_samples_per_segment_block_def)
  then show ?thesis
    using assms segment_ok_fits(2)[OF assms]
    by (fastforce simp: segment_ok_def max_segment_block_count_def)
qed

lemma segs_samples_bound:
  assumes "segs_ok f mf segs"
  shows "segs_samples segs < 2 ^ 64"
proof -
  have "segs_samples ss \<le> length ss * 256000000" if "\<forall>(name, bs)\<in>set ss. segment_at f name bs" for ss
    using that
  proof (induction ss)
    case (Cons x ss)
    obtain name bs where x: "x = (name, bs)" by force
    then have "sum_list (map (length \<circ> block_samples) bs) \<le> 256000000"
      using Cons.prems segment_samples_bound by (simp add: segment_at_def)
    then show ?case using Cons x by (simp add: segs_samples_def)
  qed (simp add: segs_samples_def)
  moreover have "length segs = length (mf_segment_files mf)"
    using assms by (metis length_map segs_ok_def)
  ultimately have "segs_samples segs \<le> 100000 * 256000000"
    using assms by (fastforce simp: segs_ok_def max_manifest_segments_def)
  then show ?thesis by simp
qed

lemma counts_consistent:
  assumes "segs_ok f mf segs"
  shows "mf_logical_sample_count mf \<le> physical_segment_samples (readers segs)"
    "readers segs = [] \<Longrightarrow> mf_logical_sample_count mf = 0"
proof -
  show "mf_logical_sample_count mf \<le> physical_segment_samples (readers segs)"
    using assms card_segs_keys[of segs] segs_samples_bound[OF assms]
    by (simp add: segs_ok_def physical_readers word_le_nat_alt unat_of_nat_u64)
  show "mf_logical_sample_count mf = 0" if "readers segs = []"
    using assms that by (simp add: segs_ok_def readers_def)
qed

section \<open>Replaying the log\<close>

text \<open>The state of recovery after the records \<open>recs\<close> of the log.\<close>

definition replay_inv :: "fs \<Rightarrow> ManifestState \<Rightarrow> named_blocks list \<Rightarrow> WalPutRecord list \<Rightarrow> RecoveryState \<Rightarrow> bool" where
  "replay_inv f mf segs recs st \<longleftrightarrow>
     rs_manifest st = mf \<and> rs_segments st = readers segs \<and> rs_wal_size st = 0 \<and>
     memtable_inv (rs_memtable st) \<and> memtable_content (rs_memtable st) = records_store recs \<and>
     rs_logical_sample_count st = of_nat (card (store_keys (db_store segs recs)))"

lemma card_keys_put:
  "finite (store_keys S) \<Longrightarrow>
     card (store_keys (store_put k s S)) = card (store_keys S) + (if S k (timestamp s) = None then 1 else 0)"
  by (auto simp: store_keys_put card_insert_if) (auto simp: store_keys_def)

lemma replay_record_step:
  assumes "replay_inv f mf segs recs st" "record_ok r" "\<forall>(name, bs)\<in>set segs. segment_at f name bs"
  shows "\<exists>st'. replay_record f r st = Inr st' \<and> replay_inv f mf segs (recs @ [r]) st'"
proof -
  let ?k = "wal_series r" and ?s = "wal_sample r"
  have wf: "series_wf ?k" "sample_wf ?s" using assms(2) by (auto simp: record_ok_def record_wf_def)
  have "contains_in_segments (rs_segments st) f ?k (timestamp ?s) = Inr (segs_store segs ?k (timestamp ?s) \<noteq> None)"
    using assms(1) readers_ready[OF assms(3)] contains_loop_correct[of f "readers segs"] by (simp add: replay_inv_def)
  moreover have "memtable_get (rs_memtable st) ?k (timestamp ?s) =
      Inr (map_option (Sample (timestamp ?s)) (records_store recs ?k (timestamp ?s)))"
    using assms(1) by (simp add: replay_inv_def memtable_get_correct)
  moreover have "db_store segs recs ?k (timestamp ?s) = None \<longleftrightarrow>
      records_store recs ?k (timestamp ?s) = None \<and> segs_store segs ?k (timestamp ?s) = None"
    by (auto simp: db_store_def store_overlay_def map_add_def split: option.splits)
  ultimately show ?thesis
    using assms(1) wf card_keys_put[OF finite_store_keys_db, of ?k ?s segs recs]
    by (auto simp: replay_record_def replay_inv_def memtable_put_inv memtable_content_put
        records_store_append db_store_append Let_def)
qed

lemma replay_records:
  assumes "replay_inv f mf segs done_recs st" "list_all record_ok recs"
    and "\<forall>(name, bs)\<in>set segs. segment_at f name bs"
  shows "\<exists>st'. efold (replay_record f) recs st = Inr st' \<and> replay_inv f mf segs (done_recs @ recs) st'"
  using assms(1,2)
proof (induction recs arbitrary: st done_recs)
  case (Cons r recs)
  obtain st1 where st1: "replay_record f r st = Inr st1" "replay_inv f mf segs (done_recs @ [r]) st1"
    using replay_record_step[OF Cons.prems(1) _ assms(3)] Cons.prems(2) by auto
  with Cons.IH[OF st1(2)] Cons.prems(2) show ?case by auto
qed simp

lemma replay_from_torn:
  assumes "list_all record_ok recs" "torn_tail torn" "efold replay recs s = Inr s'"
  shows "replay_from replay \<lparr>records_replayed = 0, valid_bytes = 0, incomplete_tail_bytes = 0\<rparr>
      (log_bytes recs @ torn) s =
    Inr (\<lparr>records_replayed = of_nat (length recs), valid_bytes = of_nat (length (log_bytes recs)),
          incomplete_tail_bytes = of_nat (length torn)\<rparr>, s')"
proof (cases "torn = []")
  case True
  then show ?thesis
    using wal_log.scan_clean[OF assms(1)] assms(3) by (simp add: replay_from_def log_bytes_def)
next
  case False
  then obtain r n where t: "record_ok r" "n < length (wal_record_bytes r)" "torn = take n (wal_record_bytes r)"
    using assms(2) by (auto simp: torn_tail_def)
  then have "n \<noteq> 0" "length torn = n" using False by auto
  then show ?thesis
    using wal_log.scan_torn[OF assms(1) t(1,2)] assms(3) by (simp add: replay_from_def log_bytes_def t(3))
qed

section \<open>Changes of the log file\<close>

lemma log_change:
  assumes "disk_state path f mf segs recs torn" "touches {path} f f'" "log_at path f' recs' torn'"
  shows "disk_state path f' mf segs recs' torn'"
proof -
  have wp: "wal_path_ok path" using assms(1) by (simp add: disk_state_def)
  have nf: "no_read_faults f'" "fs_wf f'"
    using assms(1,2) no_read_faults_touches by (auto simp: disk_state_def touches_def)
  have same: "fs_file f' n = fs_file f n" if "n \<noteq> path" for n
    using assms(2) that by (auto simp: touches_def)
  have "manifest_at f' mf"
    using assms(1) same[of manifest_path] names_distinct(7)[OF wp] manifest_at_cong[of f' f mf]
    by (auto simp: disk_state_def)
  moreover have "segs_ok f' mf segs"
  proof (rule segs_ok_cong[of f mf segs f'])
    fix name assume "name \<in> set (mf_segment_files mf)"
    then obtain g where "name = segment_filename g" using live_names[OF assms(1)] by blast
    then show "fs_file f' name = fs_file f name" using same names_distinct(5)[OF wp] by metis
  qed (use assms(1) nf in \<open>simp_all add: disk_state_def\<close>)
  ultimately show ?thesis using assms(3) wp nf by (simp add: disk_state_def)
qed

lemma disk_state_readable: "disk_state path f mf segs recs torn \<Longrightarrow> readable f n"
  by (simp add: disk_state_def no_read_faults_readable)

lemma disk_state_log_size: "disk_state path f mf segs recs torn \<Longrightarrow> length (log_bytes recs @ torn) < 2 ^ 64"
  by (simp add: disk_state_def log_at_def)

section \<open>Recovery of the log\<close>

lemma recover_wal_absent:
  assumes ds: "disk_state path f mf segs recs torn" and none: "fs_file f path = None"
    and run: "recover_wal path st f = (r, f')"
  shows "recs = [] \<and> (\<exists>torn'. disk_state path f' mf segs recs torn') \<and>
    (\<forall>st'. r = Inr st' \<longrightarrow> st' = st \<and> disk_state path f' mf segs recs []) \<and>
    (fs_script f = [] \<longrightarrow> fs_script f' = [] \<and> (\<exists>st'. r = Inr st'))"
proof -
  have emp: "recs = []" "torn = []" using ds none by (auto simp: disk_state_def log_at_def)
  have ex: "std_exists path f = Inr False"
    using disk_state_readable[OF ds] none by (simp add: std_exists_def readable_def)
  obtain r1 f1 where o: "open_wal path buffered f = (r1, f1)" by force
  note oe = open_wal_effect[OF o]
  have at: "log_at path f1 [] []"
    using oe none by (auto simp: log_at_def opened_content_def)
  have ds1: "disk_state path f1 mf segs [] []"
    using log_change[OF ds _ at] oe by blast
  show ?thesis
  proof (cases r1)
    case (Inl e)
    then show ?thesis
      using run o ex ds1 emp oe by (auto simp: recover_wal_def act_bind_def)
  next
    case (Inr w)
    obtain r2 w2 f2 where s: "wal_sync (w, f1) = (r2, (w2, f2))" by (metis surj_pair)
    note se = wal_sync_effect[OF s]
    have ds2: "disk_state path f2 mf segs [] []" using disk_state_keeps[OF ds1] se by blast
    have q: "fs_script f = [] \<Longrightarrow> fs_script f1 = [] \<and> fs_script f2 = []"
      using oe se by (auto simp: touches_def keeps_files_def)
    show ?thesis
      using run o ex Inr s ds2 emp se oe q by (cases r2) (auto simp: recover_wal_def act_bind_def)
  qed
qed

lemma recover_wal_present:
  assumes ds: "disk_state path f mf segs recs torn" and c: "fs_file f path \<noteq> None"
    and st: "replay_inv f mf segs [] st" and run: "recover_wal path st f = (r, f')"
  shows "(\<exists>torn'. disk_state path f' mf segs recs torn') \<and>
    (\<forall>st'. r = Inr st' \<longrightarrow> disk_state path f' mf segs recs [] \<and>
       rs_wal_size st' = of_nat (length (log_bytes recs)) \<and> replay_inv f mf segs recs (st'\<lparr>rs_wal_size := 0\<rparr>)) \<and>
    (fs_script f = [] \<longrightarrow> fs_script f' = [] \<and> (\<exists>st'. r = Inr st'))"
proof -
  have content: "fs_file f path = Some (log_bytes recs @ torn)" "list_all record_ok recs" "torn_tail torn"
    using ds c by (auto simp: disk_state_def log_at_def)
  have ex: "std_exists path f = Inr True"
    using disk_state_readable[OF ds] c by (simp add: std_exists_def readable_def)
  have segs: "\<forall>(name, bs)\<in>set segs. segment_at f name bs" using ds by (auto simp: disk_state_def segs_ok_def)
  obtain st1 where st1: "efold (replay_record f) recs st = Inr st1" "replay_inv f mf segs recs st1"
    using replay_records[OF st content(2) segs] by auto
  let ?res = "\<lparr>records_replayed = of_nat (length recs), valid_bytes = of_nat (length (log_bytes recs)),
          incomplete_tail_bytes = of_nat (length torn)\<rparr>"
  have rep: "replay_wal_file path (replay_record f) f st = Inr (?res, st1)"
    unfolding replay_wal_file_readable[OF content(1) disk_state_readable[OF ds]]
    by (rule replay_from_torn[OF content(2,3) st1(1)])
  obtain r1 f1 where rp: "repair_wal_tail path ?res f = (r1, f1)" by force
  note re = repair_wal_tail_effect[OF rp content(1) disk_state_log_size[OF ds]]
  have at: "log_at path f1 recs torn \<or> log_at path f1 recs []" "r1 = Inr () \<Longrightarrow> log_at path f1 recs []"
    using re ds content by (auto simp: log_at_def disk_state_def)
  then have ds1: "\<exists>torn'. disk_state path f1 mf segs recs torn'" "r1 = Inr () \<Longrightarrow> disk_state path f1 mf segs recs []"
    using log_change[OF ds] re by blast+
  have q: "fs_script f = [] \<Longrightarrow> fs_script f1 = []" using re by (auto simp: touches_def)
  have "replay_inv f mf segs recs (st1\<lparr>rs_wal_size := 0\<rparr>)" using st1(2) by (simp add: replay_inv_def)
  then show ?thesis
    using q run ex rep rp ds1 st1(2) re disk_state_readable[OF ds]
    by (cases r1) (auto simp: recover_wal_def act_bind_def)
qed

section \<open>Opening\<close>

lemma replay_inv_start:
  assumes "segs_ok f mf segs"
  shows "replay_inv g mf segs [] \<lparr>rs_memtable = empty_memtable, rs_manifest = mf, rs_segments = readers segs,
    rs_logical_sample_count = mf_logical_sample_count mf, rs_wal_size = 0\<rparr>"
  using assms by (simp add: replay_inv_def segs_ok_def)

lemma replay_inv_any: "replay_inv f mf segs recs st \<Longrightarrow> replay_inv g mf segs recs st"
  by (simp add: replay_inv_def)

lemma stale_disjoint:
  assumes "disk_state path f mf segs recs torn"
  shows "{n. is_stale (mf_segment_files mf) n} \<inter> db_files path mf = {}"
proof -
  have "\<not> is_stale (mf_segment_files mf) n" if "n \<in> set (mf_segment_files mf)" for n
    using live_names[OF assms that] live_not_stale that by metis
  then show ?thesis
    using assms wal_path_not_stale manifest_not_stale by (auto simp: db_files_def disk_state_def)
qed

text \<open>What recovery returns: the database of the log and the segments, and the size of the log.\<close>

lemma recover_effect:
  assumes ds: "disk_state path f mf segs recs torn" and run: "recover path f = (r, f')"
  shows "(\<exists>torn'. disk_state path f' mf segs recs torn') \<and>
    (\<forall>st. r = Inr st \<longrightarrow> disk_state path f' mf segs recs [] \<and>
       rs_wal_size st = of_nat (length (log_bytes recs)) \<and> replay_inv f' mf segs recs (st\<lparr>rs_wal_size := 0\<rparr>)) \<and>
    (fs_script f = [] \<longrightarrow> fs_script f' = [] \<and> (\<exists>st. r = Inr st))"
proof -
  let ?st = "\<lparr>rs_memtable = empty_memtable, rs_manifest = mf, rs_segments = readers segs,
    rs_logical_sample_count = mf_logical_sample_count mf, rs_wal_size = 0\<rparr>"
  have so: "segs_ok f mf segs" and nf: "fs_dir_fault f = None"
    using ds by (auto simp: disk_state_def no_read_faults_def)
  obtain r1 f1 where rm: "remove_stale (mf_segment_files mf) (fs_dir_fault f) (map fst (fs_files f)) f = (r1, f1)" by force
  note t = remove_stale_touches[OF rm]
  have ds1: "disk_state path f1 mf segs recs torn"
    using disk_state_frame[OF ds _ stale_disjoint[OF ds]] t by blast
  have q: "fs_script f = [] \<Longrightarrow> fs_script f1 = []" using t by (simp add: touches_def)
  have cnt: "\<not> (mf_logical_sample_count mf > physical_segment_samples (readers segs) \<or>
      (readers segs = [] \<and> mf_logical_sample_count mf \<noteq> 0))"
    using counts_consistent[OF so] by auto
  show ?thesis
  proof (cases r1)
    case (Inl e)
    then show ?thesis
      using run ds1 t recover_segments_correct[OF ds] nf rm
      by (auto simp: recover_def act_bind_def)
  next
    case (Inr u)
    then have rw: "recover_wal path ?st f1 = (r, f')"
      using run recover_segments_correct[OF ds] nf rm cnt by (simp add: recover_def act_bind_def)
    show ?thesis
    proof (cases "fs_file f1 path")
      case None
      have "replay_inv f' mf segs [] ?st" by (rule replay_inv_start[OF so])
      with recover_wal_absent[OF ds1 None rw] q show ?thesis by auto
    next
      case (Some c)
      have "replay_inv f1 mf segs [] ?st" by (rule replay_inv_start[OF so])
      from recover_wal_present[OF ds1 _ this rw] Some q show ?thesis
        by (auto intro: replay_inv_any)
    qed
  qed
qed

lemma open_engine_effect:
  assumes ds: "disk_state path f mf segs recs torn" and run: "open_engine path d f = (r, f')"
  shows "(\<exists>torn'. disk_state path f' mf segs recs torn') \<and>
    (\<forall>E. r = Inr E \<longrightarrow> engine_inv path (E, f') segs recs \<and> se_manifest E = mf \<and> ww_durability (se_wal E) = d) \<and>
    (fs_script f = [] \<longrightarrow> (\<exists>E. r = Inr E))"
proof -
  obtain r1 f1 where rec: "recover path f = (r1, f1)" by force
  note re = recover_effect[OF ds rec]
  show ?thesis
  proof (cases r1)
    case (Inl e)
    then show ?thesis using run rec re by (auto simp: open_engine_def act_bind_def)
  next
    case (Inr st)
    then have ds1: "disk_state path f1 mf segs recs []" and st: "rs_wal_size st = of_nat (length (log_bytes recs))"
      "replay_inv f1 mf segs recs (st\<lparr>rs_wal_size := 0\<rparr>)" using re by auto
    obtain r2 f2 where o: "open_wal path d f1 = (r2, f2)" by force
    note oe = open_wal_effect[OF o]
    have oc: "opened_content (fs_file f1 path) = log_bytes recs"
      using ds1 by (auto simp: disk_state_def log_at_def opened_content_def)
    have at: "log_at path f2 recs []"
      using oe ds1 unfolding oc by (auto simp: disk_state_def log_at_def)
    have ds2: "disk_state path f2 mf segs recs []" using log_change[OF ds1 _ at] oe by blast
    have q: "fs_script f = [] \<Longrightarrow> fs_script f1 = []" using re by blast
    show ?thesis
    proof (cases r2)
      case (Inl e)
      then show ?thesis using run rec Inr o ds2 oe q by (auto simp: open_engine_def act_bind_def)
    next
      case w: (Inr w)
      have "log_holds (w, f2) recs \<and> ww_path w = path \<and> ww_durability w = d"
        using oe w ds2 disk_state_log_size[OF ds2] unfolding oc by (auto simp: log_holds_def disk_state_def log_at_def)
      then show ?thesis
        using run rec Inr o w ds2 st oe
        by (auto simp: open_engine_def act_bind_def engine_inv_def replay_inv_def oc)
    qed
  qed
qed

lemma open_engine_quiet:
  assumes ds: "disk_state path f mf segs recs torn" and run: "open_engine path d f = (r, f')" and q: "fs_script f = []"
  shows "fs_script f' = []"
proof -
  obtain r1 f1 where rec: "recover path f = (r1, f1)" by force
  then have q1: "fs_script f1 = []" "\<exists>st. r1 = Inr st" using recover_effect[OF ds rec] q by blast+
  obtain r2 f2 where o: "open_wal path d f1 = (r2, f2)" by force
  have "fs_script f2 = []" using open_wal_effect[OF o] q1(1) by (auto simp: touches_def)
  then show ?thesis using run rec o q1 by (auto simp: open_engine_def act_bind_def split: sum.splits if_splits)
qed

end
