(* ===== verification/EngineWrites.thy ===== *)
theory EngineWrites
  imports EngineRecovery
begin

text \<open>
  Writing and synchronising.  On every behaviour of the operating system a write leaves a
  directory that denotes the store before or after it, and after a return the store after it.
\<close>

section \<open>Failing operations\<close>

text \<open>The state after an exception: a process that died runs no handler.\<close>

definition after_error :: "exn \<Rightarrow> engine_state \<Rightarrow> engine_state" where
  "after_error e s = (if e = Crashed then s else engine_fail s)"

lemma act_on_error_fail: "act_on_error m engine_fail s = (case m s of (Inl e, s) \<Rightarrow> (Inl e, after_error e s) | q \<Rightarrow> q)"
  by (simp add: act_on_error_def after_error_def split: prod.splits sum.splits)

lemma after_error_simps [simp]:
  "snd (after_error e s) = snd s" "se_failed (fst (after_error e s)) \<longleftrightarrow> se_failed (fst s) \<or> e \<noteq> Crashed"
  by (simp_all add: after_error_def engine_fail_def)

lemma engine_inv_usable: "engine_inv path s segs recs \<Longrightarrow> engine_ensure_usable (fst s) = Inr ()"
  by (simp add: engine_inv_def engine_ensure_usable_def)

section \<open>Put\<close>

lemma log_at_appended:
  assumes "list_all record_ok recs" "length (log_bytes recs) < 2 ^ 64"
    and "fs_file f path = Some (log_bytes recs @ take n (wal_record_bytes r))" "n \<le> length (wal_record_bytes r)"
    and "n = 0 \<or> record_ok r \<and> length (log_bytes recs) + length (wal_record_bytes r) < 2 ^ 64"
  shows "\<exists>recs' torn. (recs' = recs \<or> recs' = recs @ [r]) \<and> log_at path f recs' torn"
proof (cases "n = 0 \<or> n = length (wal_record_bytes r)")
  case True
  then consider "n = 0" | "n = length (wal_record_bytes r)" "n \<noteq> 0" by blast
  then show ?thesis
  proof cases
    case 1
    then have "log_at path f recs []" using assms(1-3) by (simp add: log_at_def)
    then show ?thesis by blast
  next
    case 2
    then have "log_at path f (recs @ [r]) []" using assms(1,3,5) by (simp add: log_at_def)
    then show ?thesis by blast
  qed
next
  case False
  then have "torn_tail (take n (wal_record_bytes r))" "length (log_bytes recs @ take n (wal_record_bytes r)) < 2 ^ 64"
    using assms(4,5) unfolding torn_tail_def by (auto intro!: exI[of _ r] exI[of _ n])
  then show ?thesis
    using assms(1,3) by (intro exI[of _ recs] exI[of _ "take n (wal_record_bytes r)"]) (simp add: log_at_def)
qed

lemma engine_put_run:
  assumes inv: "engine_inv path (E, f) segs recs"
    and ap: "wal_append (WalPutRecord k x) (se_wal E, f) = (res, (w', f'))"
  shows "engine_put k x (E, f) =
    (case res of
       Inl e \<Rightarrow> (Inl e, after_error e (E\<lparr>se_wal := w'\<rparr>, f'))
     | Inr _ \<Rightarrow> (Inr (), (E\<lparr>se_wal := w', se_memtable := memtable_put k x (se_memtable E),
         se_logical_sample_count := se_logical_sample_count E +
           (if db_store segs recs k (timestamp x) = None then 1 else 0)\<rparr>, f')))"
proof -
  have c: "engine_contains (E, f) k (timestamp x) = Inr (db_store segs recs k (timestamp x) \<noteq> None)"
    using engine_contains_correct[OF engine_inv_ready(1)[OF inv]] engine_inv_ready(2)[OF inv] by simp
  show ?thesis
    using engine_inv_usable[OF inv] c ap
    by (cases res) (auto simp: engine_put_def act_bind_def act_on_error_fail on_wal_def modify_def)
qed

lemma engine_put_effect:
  assumes inv: "engine_inv path s segs recs" and wf: "series_wf k" "sample_wf x"
    and run: "engine_put k x s = (r, s')"
  shows "(\<exists>recs' torn. (recs' = recs \<or> recs' = recs @ [WalPutRecord k x]) \<and>
       disk_state path (snd s') (se_manifest (fst s)) segs recs' torn) \<and>
    (r = Inr () \<longrightarrow> engine_inv path s' segs (recs @ [WalPutRecord k x]) \<and>
       se_manifest (fst s') = se_manifest (fst s) \<and> ww_durability (se_wal (fst s')) = ww_durability (se_wal (fst s)) \<and>
       (ww_durability (se_wal (fst s)) = sync_on_append \<longrightarrow> fs_durable (snd s') path = fs_file (snd s') path)) \<and>
    (\<forall>e. r = Inl e \<longrightarrow> e = Crashed \<or> se_failed (fst s')) \<and>
    (fs_script (snd s) = [] \<and> record_fits (WalPutRecord k x) \<and>
     length (log_bytes (recs @ [WalPutRecord k x])) < 2 ^ 64 \<longrightarrow> r = Inr ())"
proof -
  let ?r = "WalPutRecord k x"
  obtain E f where s: "s = (E, f)" by force
  obtain res w' f' where ap: "wal_append ?r (se_wal E, f) = (res, (w', f'))" by (rule prod_cases3)
  have lh: "log_holds (se_wal E, f) recs" and p: "ww_path (se_wal E) = path"
    and ds: "disk_state path f (se_manifest E) segs recs []"
    using inv by (auto simp: engine_inv_def s)
  have rwf: "record_wf ?r" using wf by (simp add: record_wf_def)
  note ae = wal_append_effect[OF lh rwf ap, unfolded p]
  have recs: "list_all record_ok recs" "length (log_bytes recs) < 2 ^ 64" using lh by (auto simp: log_holds_def)
  obtain n where n: "n \<le> length (wal_record_bytes ?r)" "fs_file f' path = Some (log_bytes recs @ take n (wal_record_bytes ?r))"
    "n = 0 \<or> record_ok ?r \<and> length (log_bytes recs) + length (wal_record_bytes ?r) < 2 ^ 64"
    using ae by blast
  obtain recs' torn where rt: "recs' = recs \<or> recs' = recs @ [?r]" "log_at path f' recs' torn"
    using log_at_appended[OF recs n(2,1,3)] by blast
  have disk: "disk_state path f' (se_manifest E) segs recs' torn"
    using log_change[OF ds _ rt(2)] ae by blast
  have run': "(r, s') = (case res of
       Inl e \<Rightarrow> (Inl e, after_error e (E\<lparr>se_wal := w'\<rparr>, f'))
     | Inr _ \<Rightarrow> (Inr (), (E\<lparr>se_wal := w', se_memtable := memtable_put k x (se_memtable E),
         se_logical_sample_count := se_logical_sample_count E +
           (if db_store segs recs k (timestamp x) = None then 1 else 0)\<rparr>, f')))"
    using run engine_put_run[OF inv[unfolded s] ap] s by simp
  show ?thesis
  proof (cases res)
    case (Inl e)
    then show ?thesis using run' disk rt(1) ae s by auto
  next
    case (Inr u)
    then have lh': "log_holds (w', f') (recs @ [?r])" and sw: "same_writer (se_wal E) w'"
      and dur: "ww_durability (se_wal E) = sync_on_append \<longrightarrow> fs_durable f' path = Some (log_bytes (recs @ [?r]))"
      using ae by auto
    have at: "log_at path f' (recs @ [?r]) []"
      using lh' sw p by (auto simp: log_at_def log_holds_def same_writer_def)
    have disk': "disk_state path f' (se_manifest E) segs (recs @ [?r]) []"
      using log_change[OF ds _ at] ae by blast
    have "engine_inv path s' segs (recs @ [?r])"
      using inv run' Inr disk' lh' sw wf card_keys_put[OF finite_store_keys_db, of k x segs recs]
      by (auto simp: engine_inv_def s same_writer_def memtable_put_inv memtable_content_put
          records_store_append db_store_append)
    moreover have "fs_file f' path = Some (log_bytes (recs @ [?r]))"
      using lh' sw p by (simp add: log_holds_def same_writer_def)
    ultimately show ?thesis using run' Inr disk' sw dur s by (auto simp: same_writer_def)
  qed
qed

section \<open>Sync\<close>

lemma wal_sync_engine:
  assumes inv: "engine_inv path s segs recs" and run: "act_on_error (on_wal wal_sync) engine_fail s = (r, s')"
  shows "disk_state path (snd s') (se_manifest (fst s)) segs recs [] \<and>
    (r = Inr () \<longrightarrow> engine_inv path s' segs recs \<and> fst s' = fst s \<and> fs_durable (snd s') path = Some (log_bytes recs)) \<and>
    (\<forall>e. r = Inl e \<longrightarrow> e = Crashed \<or> se_failed (fst s')) \<and>
    (fs_script (snd s) = [] \<longrightarrow> r = Inr ())"
proof -
  obtain E f where s: "s = (E, f)" by force
  obtain res w' f' where sy: "wal_sync (se_wal E, f) = (res, (w', f'))" by (rule prod_cases3)
  note se = wal_sync_effect[OF sy]
  have lh: "log_holds (se_wal E, f) recs" and p: "ww_path (se_wal E) = path"
    and ds: "disk_state path f (se_manifest E) segs recs []"
    using inv by (auto simp: engine_inv_def s)
  have disk: "disk_state path f' (se_manifest E) segs recs []" using disk_state_keeps[OF ds] se by blast
  have ff: "fs_file f' = fs_file f" using se keeps_filesD by blast
  have run': "(r, s') = (case res of Inl e \<Rightarrow> (Inl e, after_error e (E\<lparr>se_wal := w'\<rparr>, f'))
      | Inr u \<Rightarrow> (Inr u, (E\<lparr>se_wal := w'\<rparr>, f')))"
    using run sy s by (auto simp: act_on_error_fail on_wal_def split: sum.splits)
  show ?thesis
  proof (cases res)
    case (Inl e)
    then show ?thesis using run' disk se lh s by (auto simp: log_holds_def)
  next
    case (Inr u)
    then have "w' = se_wal E" using se by simp
    then show ?thesis
      using run' Inr inv disk se s p lh ff by (auto simp: engine_inv_def log_holds_def)
  qed
qed

lemma engine_sync_effect:
  assumes inv: "engine_inv path s segs recs" and run: "engine_sync s = (r, s')"
  shows "disk_state path (snd s') (se_manifest (fst s)) segs recs [] \<and>
    (r = Inr () \<longrightarrow> engine_inv path s' segs recs \<and> fst s' = fst s \<and> fs_durable (snd s') path = Some (log_bytes recs)) \<and>
    (\<forall>e. r = Inl e \<longrightarrow> e = Crashed \<or> se_failed (fst s')) \<and>
    (fs_script (snd s) = [] \<longrightarrow> r = Inr ())"
proof (rule wal_sync_engine[OF inv])
  show "act_on_error (on_wal wal_sync) engine_fail s = (r, s')"
    using run engine_inv_usable[OF inv] by (simp add: engine_sync_def act_bind_def)
qed

end
