(* ===== verification/EngineFlush.thy ===== *)
theory EngineFlush
  imports EngineWrites
begin

text \<open>
  Publishing a new segment, as a flush and a compaction do it: write the segment file, open
  it, and replace the manifest.  At every system call the directory denotes the same store;
  the manifest decides which files count.
\<close>

section \<open>A new segment and a new manifest\<close>

lemma touches_unchanged:
  "touches A f f' \<Longrightarrow> fs_file f' n = fs_file f n \<Longrightarrow> touches (A - {n}) f f'"
  by (auto simp: touches_def)

lemma next_name:
  assumes "mf_generation mf \<noteq> 0xFFFFFFFFFFFFFFFF"
  shows "next_segment_filename mf = Inr (segment_filename (mf_generation mf + 1))"
    "g \<le> mf_generation mf \<Longrightarrow> g < mf_generation mf + 1" "mf_generation mf < mf_generation mf + 1"
proof -
  show lt: "mf_generation mf < mf_generation mf + 1"
    using assms by (unat_arith; simp)
  show "g \<le> mf_generation mf \<Longrightarrow> g < mf_generation mf + 1" using lt by simp
  show "next_segment_filename mf = Inr (segment_filename (mf_generation mf + 1))"
    using assms by (simp add: next_segment_filename_def)
qed

text \<open>The database after the new manifest: the segments it keeps and the new one.\<close>

definition next_db :: "ManifestState \<Rightarrow> ManifestState \<Rightarrow> named_blocks list \<Rightarrow> SegmentBlock list \<Rightarrow> bool" where
  "next_db mf nm kept bs \<longleftrightarrow>
     mf_generation mf \<noteq> 0xFFFFFFFFFFFFFFFF \<and> mf_generation nm = mf_generation mf + 1 \<and>
     mf_segment_files nm = map fst kept @ [segment_filename (mf_generation nm)] \<and>
     mf_logical_sample_count nm =
       of_nat (card (store_keys (segs_store (kept @ [(segment_filename (mf_generation nm), bs)]))))"

lemma new_segment_fresh:
  assumes "disk_state path f mf segs recs torn" "mf_generation mf \<noteq> 0xFFFFFFFFFFFFFFFF"
  shows "{segment_filename (mf_generation mf + 1), segment_filename (mf_generation mf + 1) @ ''.tmp''} \<inter>
    db_files path mf = {}"
proof -
  have wp: "wal_path_ok path" using assms(1) by (simp add: disk_state_def)
  have "n \<noteq> segment_filename (mf_generation mf + 1) \<and> n \<noteq> segment_filename (mf_generation mf + 1) @ ''.tmp''"
    if n: "n \<in> set (mf_segment_files mf)" for n
  proof -
    obtain g where g: "g \<le> mf_generation mf" "n = segment_filename g" using live_names[OF assms(1) n] by blast
    then show ?thesis
      using next_name(2)[OF assms(2) g(1)] names_distinct(4)[of "mf_generation mf + 1" g] by auto
  qed
  then show ?thesis
    using names_distinct(1,3,5,6) wp unfolding db_files_def by blast
qed

lemma write_new_segment:
  assumes ds: "disk_state path f mf segs recs torn" and gen: "mf_generation mf \<noteq> 0xFFFFFFFFFFFFFFFF"
    and wf: "list_all block_wf bs"
    and w: "write_segment_file (segment_filename (mf_generation mf + 1)) bs f = (r, f')"
  shows "disk_state path f' mf segs recs torn \<and>
    (\<forall>md. r = Inr md \<longrightarrow> segment_at f' (segment_filename (mf_generation mf + 1)) bs) \<and>
    (fs_script f = [] \<longrightarrow> fs_script f' = []) \<and> (fs_script f = [] \<and> segment_ok bs \<longrightarrow> (\<exists>md. r = Inr md))"
proof -
  note we = write_segment_file_effect[OF wf w]
  have ds': "disk_state path f' mf segs recs torn"
    using disk_state_frame[OF ds _ new_segment_fresh[OF ds gen]] we by blast
  have "segment_at f' (segment_filename (mf_generation mf + 1)) bs" if "r = Inr md" for md
    using we that disk_state_readable[OF ds'] unfolding segment_at_def by blast
  moreover have "fs_script f = [] \<Longrightarrow> fs_script f' = []" using we unfolding touches_def by blast
  ultimately show ?thesis using ds' we by blast
qed

lemma manifest_tmp_not_db: "disk_state path f mf segs recs torn \<Longrightarrow> manifest_path @ ''.tmp'' \<notin> db_files path mf"
proof -
  assume ds: "disk_state path f mf segs recs torn"
  have "manifest_path @ ''.tmp'' \<notin> set (mf_segment_files mf)"
    using live_names[OF ds] names_distinct(2) by metis
  moreover have "manifest_path @ ''.tmp'' \<noteq> path" using ds names_distinct(8) by (metis disk_state_def)
  ultimately show ?thesis by (simp add: db_files_def)
qed

lemma store_new_manifest:
  assumes ds: "disk_state path f mf segs recs torn" and kept: "set kept \<subseteq> set segs"
    and nx: "next_db mf nm kept bs" and at: "segment_at f (segment_filename (mf_generation mf + 1)) bs"
    and st: "store_manifest nm f = (r, f')"
  shows "(disk_state path f' mf segs recs torn \<or>
      disk_state path f' nm (kept @ [(segment_filename (mf_generation nm), bs)]) recs torn) \<and>
    (r = Inr () \<longrightarrow> disk_state path f' nm (kept @ [(segment_filename (mf_generation nm), bs)]) recs torn) \<and>
    (fs_script f = [] \<longrightarrow> fs_script f' = []) \<and> (fs_script f = [] \<and> manifest_ok nm \<longrightarrow> r = Inr ())"
proof -
  let ?name = "segment_filename (mf_generation nm)" and ?mt = "manifest_path @ ''.tmp''"
  note se = store_manifest_effect[OF st]
  have t: "touches {manifest_path, ?mt} f f'" using se by blast
  have gen: "mf_generation mf \<noteq> 0xFFFFFFFFFFFFFFFF" "mf_generation nm = mf_generation mf + 1" using nx by (auto simp: next_db_def)
  have wp: "wal_path_ok path" using ds by (simp add: disk_state_def)
  have old: "disk_state path f' mf segs recs torn" if "fs_file f' manifest_path = fs_file f manifest_path"
    using disk_state_frame[OF ds touches_unchanged[OF t that]] manifest_tmp_not_db[OF ds] by auto
  have new: "disk_state path f' nm (kept @ [(?name, bs)]) recs torn"
    if ok: "manifest_ok nm" and c: "fs_file f' manifest_path = Some (manifest_bytes nm)"
  proof -
    have nf: "no_read_faults f'" "fs_wf f'"
      using ds t no_read_faults_touches by (auto simp: disk_state_def touches_def)
    have same: "fs_file f' (segment_filename g) = fs_file f (segment_filename g)" for g
      using t names_distinct(1,2) by (auto simp: touches_def)
    have at': "segment_at f' ?name bs"
      using at same nf(1) by (simp add: segment_at_def gen(2) no_read_faults_readable)
    have names: "\<exists>g\<le>mf_generation mf. fst x = segment_filename g" "segment_at f' (fst x) (snd x)" if "x \<in> set kept" for x
    proof -
      have x: "x \<in> set segs" using that kept by blast
      then have "fst x \<in> set (mf_segment_files mf)" using ds by (metis disk_state_def image_eqI segs_ok_def set_map)
      then show g: "\<exists>g\<le>mf_generation mf. fst x = segment_filename g" using live_names[OF ds] by blast
      have "segment_at f (fst x) (snd x)" using disk_state_segments[OF ds] x by (metis prod.collapse)
      then show "segment_at f' (fst x) (snd x)"
        using g same nf(1) by (auto simp: segment_at_def no_read_faults_readable)
    qed
    have bounds: "g \<le> mf_generation nm" if "g \<le> mf_generation mf" for g
      using next_name(2)[OF gen(1) that] gen(2) by simp
    have "segs_ok f' nm (kept @ [(?name, bs)])"
      unfolding segs_ok_def
    proof (intro conjI)
      show "map fst (kept @ [(?name, bs)]) = mf_segment_files nm" using nx by (simp add: next_db_def)
      show "\<forall>(name, bs)\<in>set (kept @ [(?name, bs)]). segment_at f' name bs" using names(2) at' by fastforce
      show "\<forall>name\<in>set (mf_segment_files nm). \<exists>g\<le>mf_generation nm. name = segment_filename g"
        using nx names(1) bounds by (fastforce simp: next_db_def)
      show "distinct (mf_segment_files nm)" "length (mf_segment_files nm) \<le> max_manifest_segments"
        using ok by (auto simp: manifest_ok_def manifest_wf_def)
      show "mf_logical_sample_count nm = of_nat (card (store_keys (segs_store (kept @ [(?name, bs)]))))"
        using nx by (simp add: next_db_def)
    qed
    moreover have "log_at path f' recs torn"
      using ds t names_distinct(7,8)[OF wp] log_at_cong[of f' path f] by (auto simp: disk_state_def touches_def)
    ultimately show ?thesis using wp nf ok c by (simp add: disk_state_def manifest_at_def)
  qed
  show ?thesis using se old new t by (auto simp: touches_def)
qed

lemma next_manifest_ok:
  assumes ds: "disk_state path f mf segs recs torn" and nx: "next_db mf nm kept bs" and kept: "set kept \<subseteq> set segs"
    and d: "distinct (map fst kept)" and room: "length kept < max_manifest_segments"
  shows "manifest_ok nm"
proof -
  have names: "\<exists>g\<le>mf_generation mf. n = segment_filename g" if "n \<in> set (map fst kept)" for n
  proof -
    have "n \<in> set (map fst segs)" using that kept by auto
    then show ?thesis using live_names[OF ds] ds by (metis disk_state_def segs_ok_def)
  qed
  have files: "\<exists>g. n = segment_filename g" if "n \<in> set (mf_segment_files nm)" for n
    using that names nx by (auto simp: next_db_def)
  have "segment_filename (mf_generation mf + 1) \<notin> set (map fst kept)"
    using names next_name(2) nx by (force simp: next_db_def)
  then have "distinct (mf_segment_files nm)" using nx d by (auto simp: next_db_def)
  moreover have "list_all valid_segment_filename (mf_segment_files nm)"
    using files segment_filename_valid by (force simp: list_all_iff)
  moreover have "length (manifest_payload_bytes ns) = 36 * length ns" if "\<forall>n\<in>set ns. \<exists>g. n = segment_filename g" for ns
    using that by (induction ns) (auto simp: manifest_payload_bytes_def length_segment_filename)
  moreover have "length (mf_segment_files nm) \<le> 100000"
    using nx room by (simp add: next_db_def max_manifest_segments_def)
  ultimately show ?thesis
    using files by (simp add: manifest_ok_def manifest_wf_def max_manifest_segments_def max_manifest_payload_size_def)
qed

end
