(* ===== verification/EngineOps.thy ===== *)
theory EngineOps
  imports EngineFlush
begin

text \<open>
  Flush and compaction.  Both keep the store of the database, whatever the operating system
  does; a flush that returns leaves an empty log, a compaction that returns one segment.
\<close>

section \<open>Flush\<close>

lemma overlay_idem: "store_overlay (store_overlay S N) N = store_overlay S N"
  by (auto simp: store_overlay_def fun_eq_iff map_add_def split: option.splits)

lemma records_store_empty: "records_store recs = (\<lambda>_. Map.empty) \<longleftrightarrow> recs = []"
proof (cases recs rule: rev_cases)
  case (snoc rs r)
  have "records_store recs (wal_series r) (timestamp (wal_sample r)) \<noteq> None"
    by (simp add: snoc records_store_append store_put_same)
  then show ?thesis using snoc by auto
qed simp

lemma memtable_empty_log:
  assumes "engine_inv path s segs recs"
  shows "memtable_empty (se_memtable (fst s)) \<longleftrightarrow> recs = []"
proof -
  have "memtable_inv (se_memtable (fst s))" "memtable_content (se_memtable (fst s)) = records_store recs"
    using assms by (auto simp: engine_inv_def)
  then have "mt_sample_count (se_memtable (fst s)) = card (store_keys (records_store recs))"
    using memtable_count_card by metis
  then have "memtable_empty (se_memtable (fst s)) \<longleftrightarrow> store_keys (records_store recs) = {}"
    using finite_store_keys_records[of recs] by (simp add: memtable_empty_def)
  also have "\<dots> \<longleftrightarrow> records_store recs = (\<lambda>_. Map.empty)"
    by (auto simp: store_keys_def fun_eq_iff)
  finally show ?thesis by (simp add: records_store_empty)
qed

definition flush_manifest :: "StorageEngine \<Rightarrow> ManifestState" where
  "flush_manifest E = (se_manifest E)
     \<lparr>mf_generation := mf_generation (se_manifest E) + 1,
      mf_logical_sample_count := se_logical_sample_count E,
      mf_segment_files := mf_segment_files (se_manifest E) @ [segment_filename (mf_generation (se_manifest E) + 1)]\<rparr>"

lemma flush_next_db:
  assumes inv: "engine_inv path (E, f) segs recs" and bs: "blocks_store bs = memtable_content (se_memtable E)"
    and gen: "mf_generation (se_manifest E) \<noteq> 0xFFFFFFFFFFFFFFFF"
  shows "next_db (se_manifest E) (flush_manifest E) segs bs"
    "segs_store (segs @ [(name, bs)]) = db_store segs recs" "db_store (segs @ [(name, bs)]) recs = db_store segs recs"
proof -
  have c: "blocks_store bs = records_store recs" using inv bs by (simp add: engine_inv_def)
  have st: "segs_store (segs @ [(n, bs)]) = db_store segs recs" for n
    by (simp add: segs_store_append c db_store_def)
  then show "segs_store (segs @ [(name, bs)]) = db_store segs recs" .
  show "db_store (segs @ [(name, bs)]) recs = db_store segs recs"
    using st[of name] by (simp add: db_store_def[of "segs @ _"]) (simp add: db_store_def overlay_idem)
  show "next_db (se_manifest E) (flush_manifest E) segs bs"
    using inv gen by (simp add: next_db_def flush_manifest_def st engine_inv_def disk_state_def segs_ok_def)
qed

text \<open>The steps of a flush of a non-empty MemTable, one result for each point it can stop at.\<close>

lemma engine_flush_run:
  assumes inv: "engine_inv path (E, f) segs recs" and ne: "\<not> memtable_empty (se_memtable E)"
    and gen: "mf_generation (se_manifest E) \<noteq> 0xFFFFFFFFFFFFFFFF"
    and bs: "make_memtable_blocks E = Inr bs"
    and w: "write_segment_file (segment_filename (mf_generation (se_manifest E) + 1)) bs f = (r1, f1)"
  shows "r1 = Inl e \<Longrightarrow> engine_flush (E, f) = (Inl e, after_error e (E, f1))"
    and "r1 = Inr md \<Longrightarrow> open_segment (segment_filename (mf_generation (se_manifest E) + 1)) f1 = Inr rd \<Longrightarrow>
      store_manifest (flush_manifest E) f1 = (Inl e, f2) \<Longrightarrow> engine_flush (E, f) = (Inl e, after_error e (E, f2))"
    and "r1 = Inr md \<Longrightarrow> open_segment (segment_filename (mf_generation (se_manifest E) + 1)) f1 = Inr rd \<Longrightarrow>
      store_manifest (flush_manifest E) f1 = (Inr (), f2) \<Longrightarrow> wal_reset (se_wal E, f2) = (r3, (w3, f3)) \<Longrightarrow>
      engine_flush (E, f) = (let E' = E\<lparr>se_segments := se_segments E @ [rd], se_manifest := flush_manifest E, se_wal := w3\<rparr>
        in case r3 of Inl e \<Rightarrow> (Inl e, after_error e (E', f3))
           | Inr _ \<Rightarrow> (Inr (), (E'\<lparr>se_memtable := memtable_clear (se_memtable E)\<rparr>, f3)))"
  using engine_inv_usable[OF inv] ne bs next_name(1)[OF gen] w
  by (auto simp: engine_flush_def act_bind_def act_on_error_fail on_fs_def on_wal_def modify_def flush_manifest_def
      Let_def split: sum.splits)

text \<open>The last step: emptying the log once its records are in a published segment.\<close>

lemma reset_published:
  assumes ds: "disk_state path f mf segs recs []" and lh: "log_holds (w, f) recs" and p: "ww_path w = path"
    and same: "segs_store segs = db_store segs recs" and run: "wal_reset (w, f) = (r, (w', f'))"
  shows "(\<exists>recs'. disk_state path f' mf segs recs' [] \<and> db_store segs recs' = db_store segs recs) \<and>
    (r = Inr () \<longrightarrow> disk_state path f' mf segs [] [] \<and> log_holds (w', f') [] \<and> same_writer w w') \<and>
    (fs_script f = [] \<longrightarrow> r = Inr ())"
proof -
  note re = wal_reset_effect[OF lh run, unfolded p]
  have at: "log_at path f' recs [] \<or> log_at path f' [] []" "r = Inr () \<Longrightarrow> log_at path f' [] []"
    using re ds p by (auto simp: disk_state_def log_at_def log_holds_def same_writer_def)
  then have "disk_state path f' mf segs recs [] \<or> disk_state path f' mf segs [] []"
    "r = Inr () \<Longrightarrow> disk_state path f' mf segs [] []"
    using log_change[OF ds] re by blast+
  then show ?thesis using re same by auto
qed

lemma flush_published:
  assumes inv: "engine_inv path (E, f) segs recs" and ne: "\<not> memtable_empty (se_memtable E)"
    and nx: "segs_store segs' = db_store segs recs" "db_store segs' recs = db_store segs recs"
    and ds: "disk_state path f2 mf' segs' recs []" and rs: "wal_reset (se_wal E, f2) = (r3, (w3, f3))"
    and rd: "readers segs' = se_segments E @ [rd]"
    and out: "(r, s') = (let E' = E\<lparr>se_segments := se_segments E @ [rd], se_manifest := mf', se_wal := w3\<rparr>
        in case r3 of Inl e \<Rightarrow> (Inl e, after_error e (E', f3))
           | Inr _ \<Rightarrow> (Inr (), (E'\<lparr>se_memtable := memtable_clear (se_memtable E)\<rparr>, f3)))"
  shows "(\<exists>mf' segs' recs'. disk_state path (snd s') mf' segs' recs' [] \<and> db_store segs' recs' = db_store segs recs) \<and>
    (r = Inr () \<longrightarrow> (\<exists>segs'. engine_inv path s' segs' [] \<and> db_store segs' [] = db_store segs recs) \<and> se_manifest (fst s') = mf') \<and>
    (\<forall>e. r = Inl e \<longrightarrow> e = Crashed \<or> se_failed (fst s')) \<and> (fs_script f2 = [] \<longrightarrow> r = Inr ())"
proof -
  have p: "ww_path (se_wal E) = path" using inv by (simp add: engine_inv_def)
  have "recs \<noteq> []" using memtable_empty_log[OF inv] ne by simp
  then have lh: "log_holds (se_wal E, f2) recs"
    using inv ds by (auto simp: engine_inv_def log_holds_def disk_state_def log_at_def)
  note rp = reset_published[OF ds lh p _ rs]
  have db: "segs_store segs' = db_store segs' recs" "db_store segs' [] = db_store segs recs" using nx by simp_all
  show ?thesis
  proof (cases r3)
    case (Inl e)
    then show ?thesis using out rp[OF db(1)] nx(2) by (auto simp: Let_def)
  next
    case (Inr v)
    have "engine_inv path s' segs' []"
      using out Inr rp[OF db(1)] inv p db rd
      by (simp add: engine_inv_def Let_def same_writer_def)
    then show ?thesis using out Inr rp[OF db(1)] db by (auto simp: Let_def)
  qed
qed

lemma flush_nonempty:
  assumes inv: "engine_inv path (E, f) segs recs" and ne: "\<not> memtable_empty (se_memtable E)"
    and gen: "mf_generation (se_manifest E) \<noteq> 0xFFFFFFFFFFFFFFFF"
    and bs: "make_memtable_blocks E = Inr bs" and run: "engine_flush (E, f) = (r, s')"
  shows "(\<exists>mf' segs' recs'. disk_state path (snd s') mf' segs' recs' [] \<and> db_store segs' recs' = db_store segs recs) \<and>
    (r = Inr () \<longrightarrow> (\<exists>segs'. engine_inv path s' segs' [] \<and> db_store segs' [] = db_store segs recs) \<and>
       se_manifest (fst s') = flush_manifest E) \<and>
    (\<forall>e. r = Inl e \<longrightarrow> e = Crashed \<or> se_failed (fst s')) \<and>
    (fs_script f = [] \<and> segment_ok bs \<and> length segs < max_manifest_segments \<longrightarrow> r = Inr ())"
proof -
  let ?mf = "se_manifest E" and ?name = "segment_filename (mf_generation (se_manifest E) + 1)"
  have ds: "disk_state path f ?mf segs recs []" and m: "memtable_inv (se_memtable E)"
    and rds: "se_segments E = readers segs" using inv by (auto simp: engine_inv_def)
  have b: "list_all block_wf bs" "blocks_store bs = memtable_content (se_memtable E)"
    using make_memtable_blocks_correct[OF m] bs by auto
  note nx = flush_next_db[OF inv b(2) gen]
  obtain r1 f1 where w: "write_segment_file ?name bs f = (r1, f1)" by force
  note we = write_new_segment[OF ds gen b(1) w]
  note steps = engine_flush_run[OF inv ne gen bs w]
  show ?thesis
  proof (cases r1)
    case (Inl e)
    then have "(r, s') = (Inl e, after_error e (E, f1))" using steps(1) run by simp
    then show ?thesis using we Inl by auto
  next
    case md: (Inr md)
    have at: "segment_at f1 ?name bs" and ds1: "disk_state path f1 ?mf segs recs []" using we md by auto
    note rd = open_segment_written[OF at]
    obtain r2 f2 where st: "store_manifest (flush_manifest E) f1 = (r2, f2)" by force
    note se = store_new_manifest[OF ds1 subset_refl nx(1) at st]
    have gn: "mf_generation (flush_manifest E) = mf_generation ?mf + 1" by (simp add: flush_manifest_def)
    have ok: "manifest_ok (flush_manifest E)" if "length segs < max_manifest_segments"
    proof (rule next_manifest_ok[OF ds nx(1) subset_refl _ that])
      show "distinct (map fst segs)" using ds by (simp add: disk_state_def segs_ok_def)
    qed
    show ?thesis
    proof (cases r2)
      case (Inl e)
      then have "(r, s') = (Inl e, after_error e (E, f2))" using steps(2)[OF md rd] st run by simp
      then show ?thesis using se nx(3) ok we Inl by auto
    next
      case u: (Inr u)
      have ds2: "disk_state path f2 (flush_manifest E) (segs @ [(?name, bs)]) recs []" using se u gn by simp
      obtain r3 w3 f3 where rs: "wal_reset (se_wal E, f2) = (r3, (w3, f3))" by (rule prod_cases3)
      have "readers (segs @ [(?name, bs)]) = se_segments E @ [written_reader ?name bs]" by (simp add: readers_def rds)
      from flush_published[OF inv ne nx(2,3) ds2 rs this, of r s'] steps(3)[OF md rd _ rs] st run u se we
      show ?thesis by auto
    qed
  qed
qed

lemma engine_flush_effect:
  assumes inv: "engine_inv path s segs recs" and run: "engine_flush s = (r, s')"
  shows "(\<exists>mf' segs' recs'. disk_state path (snd s') mf' segs' recs' [] \<and> db_store segs' recs' = db_store segs recs) \<and>
    (r = Inr () \<longrightarrow> (\<exists>segs'. engine_inv path s' segs' [] \<and> db_store segs' [] = db_store segs recs) \<and>
       se_manifest (fst s') = (if recs = [] then se_manifest (fst s) else flush_manifest (fst s))) \<and>
    (\<forall>e. r = Inl e \<longrightarrow> e = Crashed \<or> se_failed (fst s')) \<and>
    (fs_script (snd s) = [] \<and> (\<forall>bs. make_memtable_blocks (fst s) = Inr bs \<longrightarrow> bs = [] \<or> segment_ok bs) \<and>
     length segs < max_manifest_segments \<and> mf_generation (se_manifest (fst s)) \<noteq> 0xFFFFFFFFFFFFFFFF \<longrightarrow> r = Inr ())"
proof -
  obtain E f where s: "s = (E, f)" by force
  have inv': "engine_inv path (E, f) segs recs" using inv s by simp
  have ds: "disk_state path f (se_manifest E) segs recs []" and m: "memtable_inv (se_memtable E)"
    using inv' by (auto simp: engine_inv_def)
  obtain bs where bs: "make_memtable_blocks E = Inr bs" "\<not> memtable_empty (se_memtable E) \<Longrightarrow> bs \<noteq> []"
    using make_memtable_blocks_correct[OF m] by blast
  consider "memtable_empty (se_memtable E)"
    | "\<not> memtable_empty (se_memtable E)" "mf_generation (se_manifest E) = 0xFFFFFFFFFFFFFFFF"
    | "\<not> memtable_empty (se_memtable E)" "mf_generation (se_manifest E) \<noteq> 0xFFFFFFFFFFFFFFFF" by blast
  then show ?thesis
  proof cases
    case 1
    then have "recs = []" using memtable_empty_log[OF inv] s by simp
    have "act_on_error (on_wal wal_sync) engine_fail s = (r, s')"
      using run engine_inv_usable[OF inv] 1 s by (simp add: engine_flush_def act_bind_def)
    note sync = wal_sync_engine[OF inv this, unfolded \<open>recs = []\<close>]
    then have "r = Inr () \<longrightarrow> se_manifest (fst s') = se_manifest (fst s)" by simp
    then show ?thesis using sync \<open>recs = []\<close> by (simp only: if_True simp_thms) blast
  next
    case 2
    then have "(r, s') = (Inl (OverflowError ''segment generation is exhausted''),
        after_error (OverflowError ''segment generation is exhausted'') (E, f))"
      using run s engine_inv_usable[OF inv] bs(1)
      by (simp add: engine_flush_def act_bind_def act_on_error_fail next_segment_filename_def)
    then show ?thesis using ds 2 s by auto
  next
    case 3
    then have "recs \<noteq> []" using memtable_empty_log[OF inv] s by simp
    with flush_nonempty[OF inv' 3 bs(1)] run s bs 3(1) show ?thesis by auto
  qed
qed

end
