(* ===== verification/EngineCompact.thy ===== *)
theory EngineCompact
  imports EngineOps
begin

text \<open>
  Compaction: the merged map holds exactly the live version of every sample of the segments,
  its count is the count of the manifest, and replacing all segments by one keeps the store.
\<close>

section \<open>Merging the segments\<close>

lemma merge_block_content:
  assumes "sm_wf m" "block_wf b"
  shows "sm_content (merge_block b m) = store_overlay (sm_content m) (blocks_store [b])"
proof -
  let ?k = "block_series b" and ?xs = "block_samples b"
  have inv: "om_inv (sm_samples m ?k)" using assms(1) sm_samples_inv by (auto simp: sm_wf_def)
  have d: "distinct (map fst (map (\<lambda>s. (timestamp s, sample_value s)) ?xs))"
    using assms(2) by (simp add: block_wf_def comp_def strict_sorted_distinct)
  have "map_of (fold (\<lambda>s. om_put (timestamp s) (sample_value s)) ?xs (sm_samples m ?k)) =
      map_of (sm_samples m ?k) ++ samples_map ?xs"
    unfolding samples_map_def map_of_rev_distinct[OF d, symmetric]
    by (rule smap.find_fold_put[OF inv])
  then show ?thesis
    by (auto simp: sm_content_def sm_samples_def merge_block_def map_of_om_put store_overlay_def
        blocks_store_single fun_eq_iff)
qed

lemma merge_block_wf:
  assumes "sm_wf m" "block_wf b"
  shows "sm_wf (merge_block b m)"
proof -
  let ?s = "fold (\<lambda>s. om_put (timestamp s) (sample_value s)) (block_samples b) (sm_samples m (block_series b))"
  have inv: "sm_inv m" "om_inv (sm_samples m (block_series b))"
    using assms(1) sm_samples_inv by (auto simp: sm_wf_def)
  have s: "om_inv ?s" using smap.invar_fold_put[OF inv(2), of timestamp sample_value] by simp
  have ne: "?s \<noteq> []"
    using assms(2) by (cases "block_samples b" rule: rev_cases) (auto simp: block_wf_def)
  have set: "set (merge_block b m) \<subseteq> insert (block_series b, ?s) (set m)"
    using set_om_put[of m] inv(1) by (auto simp: merge_block_def sm_inv_def)
  have "store_finite_values (blocks_store [b])"
    using assms(2) by (auto simp: store_finite_values_def blocks_store_Some block_wf_def list_all_iff sample_wf_def)
  then have fin: "store_finite_values (sm_content (merge_block b m))"
    unfolding merge_block_content[OF assms] using assms(1) by (intro overlay_finite) (simp_all add: sm_wf_def)
  have "om_inv (merge_block b m)" using inv(1) by (simp add: merge_block_def sm_inv_def om_put_inv)
  then show ?thesis
    using set s ne fin assms inv(1) by (fastforce simp: sm_wf_def sm_inv_def sm_nonempty_def block_wf_def)
qed

lemma merge_blocks:
  "list_all block_wf bs \<Longrightarrow> sm_wf m \<Longrightarrow>
     sm_wf (fold merge_block bs m) \<and> sm_content (fold merge_block bs m) = store_overlay (sm_content m) (blocks_store bs)"
proof (induction bs arbitrary: m)
  case (Cons b bs)
  then show ?case
    using merge_block_wf[of m b] merge_block_content[of m b] blocks_store_Cons[of b bs]
    by (simp add: store_overlay_assoc)
qed simp

lemma merge_segments_correct:
  assumes "\<forall>(name, bs)\<in>set segs. segment_at f name bs"
  shows "\<exists>m. merge_segments (readers segs) f = Inr m \<and> sm_wf m \<and> sm_content m = segs_store segs"
  using assms
proof (induction segs rule: rev_induct)
  case Nil
  then show ?case by (simp add: merge_segments_def readers_def)
next
  case (snoc x segs)
  obtain name bs where x: "x = (name, bs)" by force
  then have at: "segment_at f name bs" using snoc.prems by auto
  then have wf: "list_all block_wf bs" using segment_ok_fits(2) by (simp add: segment_at_def)
  obtain m where m: "merge_segments (readers segs) f = Inr m" "sm_wf m" "sm_content m = segs_store segs"
    using snoc by auto
  then have "merge_segments (readers (segs @ [x])) f = Inr (fold merge_block bs m)"
    using segment_at_blocks[OF at] by (simp add: merge_segments_def readers_def x efold_append)
  then show ?case
    using merge_blocks[OF wf m(2)] m(3) by (auto simp: x segs_store_append)
qed

section \<open>Compaction\<close>

definition compact_manifest :: "ManifestState \<Rightarrow> ManifestState" where
  "compact_manifest mf =
     \<lparr>mf_generation = mf_generation mf + 1, mf_logical_sample_count = mf_logical_sample_count mf,
      mf_segment_files = [segment_filename (mf_generation mf + 1)]\<rparr>"

text \<open>The blocks a compaction writes: the merge and its count check cannot fail.\<close>

lemma compact_blocks:
  assumes "disk_state path f mf segs recs torn"
  obtains m bs where "merge_segments (readers segs) f = Inr m" "merged_snapshots m = Inr (map entry_snapshot m)"
    "snapshots_count (map entry_snapshot m) = mf_logical_sample_count mf"
    "blocks_from_snapshots (map entry_snapshot m) = Inr bs" "list_all block_wf bs" "blocks_store bs = segs_store segs"
proof -
  obtain m where m: "merge_segments (readers segs) f = Inr m" "sm_wf m" "sm_content m = segs_store segs"
    using merge_segments_correct[of segs f] assms by (auto simp: disk_state_def segs_ok_def)
  obtain bs where bs: "blocks_from_snapshots (map entry_snapshot m) = Inr bs" "blocks_for m bs"
    using blocks_from_snapshots_correct[OF m(2)] by blast
  have "sm_size m = card (store_keys (segs_store segs))"
    using sm_size_card[of m] m by (simp add: sm_wf_def)
  then have "snapshots_count (map entry_snapshot m) = mf_logical_sample_count mf"
    using assms by (simp add: snapshots_count_correct disk_state_def segs_ok_def)
  then show thesis
    using that[OF m(1) merged_snapshots_correct[OF m(2)] _ bs(1)] bs(2) blocks_for_store[OF m(2) bs(2)] m(3)
    by (simp add: blocks_for_def)
qed

lemma compact_next_db:
  assumes ds: "disk_state path f mf segs recs torn" and bs: "blocks_store bs = segs_store segs"
    and gen: "mf_generation mf \<noteq> 0xFFFFFFFFFFFFFFFF"
  shows "next_db mf (compact_manifest mf) [] bs" "db_store [(name, bs)] recs = db_store segs recs"
  using ds bs gen by (simp_all add: next_db_def compact_manifest_def disk_state_def segs_ok_def db_store_def)

lemma remove_obsolete_touches:
  "remove_obsolete names f = (r, f') \<Longrightarrow>
     touches (set names) f f' \<and> (r = Inr () \<or> r = Inl Crashed) \<and> (fs_script f = [] \<longrightarrow> r = Inr ())"
proof (induction names f rule: remove_obsolete.induct)
  case (2 path rest f)
  obtain r1 f1 where u: "sys_unlink path f = (r1, f1)" by force
  note t = sys_unlink_touches[OF u]
  show ?case
  proof (cases "r1 = Died")
    case True
    then show ?thesis using "2.prems" u t touches_mono[of "{path}" f f1] by auto
  next
    case False
    then have rest: "remove_obsolete rest f1 = (r, f')" using "2.prems" u by (cases r1) auto
    have "touches (set rest) f1 f' \<and> (r = Inr () \<or> r = Inl Crashed) \<and> (fs_script f1 = [] \<longrightarrow> r = Inr ())"
      using False "2.IH"(1,2,3)[OF u[symmetric] _ rest] by (cases r1) simp_all
    then show ?thesis using t touches_trans[of "{path}" f f1 "set rest" f'] by (auto simp: touches_def)
  qed
qed simp

lemma engine_compact_run:
  assumes inv: "engine_inv path (E, f) segs recs" and many: "1 < length (se_segments E)"
    and gen: "mf_generation (se_manifest E) \<noteq> 0xFFFFFFFFFFFFFFFF"
    and bs: "merge_segments (readers segs) f = Inr m" "merged_snapshots m = Inr snaps"
      "snapshots_count snaps = mf_logical_sample_count (se_manifest E)" "blocks_from_snapshots snaps = Inr bs"
    and w: "write_segment_file (segment_filename (mf_generation (se_manifest E) + 1)) bs f = (r1, f1)"
  shows "r1 = Inl e \<Longrightarrow> engine_compact (E, f) = (Inl e, after_error e (E, f1))"
    and "r1 = Inr md \<Longrightarrow> open_segment (segment_filename (mf_generation (se_manifest E) + 1)) f1 = Inr rd \<Longrightarrow>
      store_manifest (compact_manifest (se_manifest E)) f1 = (Inl e, f2) \<Longrightarrow>
      engine_compact (E, f) = (Inl e, after_error e (E, f2))"
    and "r1 = Inr md \<Longrightarrow> open_segment (segment_filename (mf_generation (se_manifest E) + 1)) f1 = Inr rd \<Longrightarrow>
      store_manifest (compact_manifest (se_manifest E)) f1 = (Inr (), f2) \<Longrightarrow>
      remove_obsolete (mf_segment_files (se_manifest E)) f2 = (r3, f3) \<Longrightarrow>
      engine_compact (E, f) = (let E' = E\<lparr>se_segments := [rd], se_manifest := compact_manifest (se_manifest E)\<rparr>
        in case r3 of Inl e \<Rightarrow> (Inl e, after_error e (E', f3)) | Inr _ \<Rightarrow> (Inr (), (E', f3)))"
proof -
  have sg: "se_segments E = readers segs" using inv by (simp add: engine_inv_def)
  have n1: "\<not> length (readers segs) \<le> Suc 0" using many sg by simp
  note base = engine_inv_usable[OF inv] n1 sg bs next_name(1)[OF gen] w
  show "r1 = Inl e \<Longrightarrow> engine_compact (E, f) = (Inl e, after_error e (E, f1))"
    using base by (simp add: engine_compact_def act_bind_def act_on_error_fail on_fs_def)
  show "r1 = Inr md \<Longrightarrow> open_segment (segment_filename (mf_generation (se_manifest E) + 1)) f1 = Inr rd \<Longrightarrow>
      store_manifest (compact_manifest (se_manifest E)) f1 = (Inl e, f2) \<Longrightarrow>
      engine_compact (E, f) = (Inl e, after_error e (E, f2))"
    using base by (simp add: engine_compact_def act_bind_def act_on_error_fail on_fs_def compact_manifest_def)
  show "r1 = Inr md \<Longrightarrow> open_segment (segment_filename (mf_generation (se_manifest E) + 1)) f1 = Inr rd \<Longrightarrow>
      store_manifest (compact_manifest (se_manifest E)) f1 = (Inr (), f2) \<Longrightarrow>
      remove_obsolete (mf_segment_files (se_manifest E)) f2 = (r3, f3) \<Longrightarrow>
      engine_compact (E, f) = (let E' = E\<lparr>se_segments := [rd], se_manifest := compact_manifest (se_manifest E)\<rparr>
        in case r3 of Inl e \<Rightarrow> (Inl e, after_error e (E', f3)) | Inr _ \<Rightarrow> (Inr (), (E', f3)))"
    using base
    by (simp add: engine_compact_def act_bind_def act_on_error_fail on_fs_def modify_def compact_manifest_def
        Let_def split: sum.splits)
qed

text \<open>After the new manifest only the new segment counts; the old files can go.\<close>

lemma compact_published:
  assumes inv: "engine_inv path (E, f) segs recs" and gen: "mf_generation (se_manifest E) \<noteq> 0xFFFFFFFFFFFFFFFF"
    and db: "db_store [(segment_filename (mf_generation (se_manifest E) + 1), bs)] recs = db_store segs recs"
    and ds: "disk_state path f2 (compact_manifest (se_manifest E))
       [(segment_filename (mf_generation (se_manifest E) + 1), bs)] recs []"
    and ff: "fs_file f2 path = fs_file f path"
    and rm: "remove_obsolete (mf_segment_files (se_manifest E)) f2 = (r3, f3)"
    and out: "(r, s') = (let E' = E\<lparr>se_segments := [written_reader (segment_filename (mf_generation (se_manifest E) + 1)) bs],
          se_manifest := compact_manifest (se_manifest E)\<rparr>
        in case r3 of Inl e \<Rightarrow> (Inl e, after_error e (E', f3)) | Inr _ \<Rightarrow> (Inr (), (E', f3)))"
  shows "(\<exists>mf' segs'. disk_state path (snd s') mf' segs' recs [] \<and> db_store segs' recs = db_store segs recs) \<and>
    (r = Inr () \<longrightarrow> (\<exists>x. engine_inv path s' [x] recs \<and> db_store [x] recs = db_store segs recs)) \<and>
    (\<forall>e. r = Inl e \<longrightarrow> e = Crashed) \<and> (fs_script f2 = [] \<longrightarrow> r = Inr ())"
proof -
  let ?mf = "se_manifest E"
  note t = remove_obsolete_touches[OF rm]
  have ds0: "disk_state path f ?mf segs recs []" using inv by (simp add: engine_inv_def)
  have wp: "wal_path_ok path" using ds by (simp add: disk_state_def)
  have names: "\<exists>g. g \<le> mf_generation ?mf \<and> n = segment_filename g" if "n \<in> set (mf_segment_files ?mf)" for n
    using live_names[OF ds0 that] by blast
  have disj: "set (mf_segment_files ?mf) \<inter> db_files path (compact_manifest ?mf) = {}"
  proof -
    have "n \<noteq> path \<and> n \<noteq> manifest_path \<and> n \<noteq> segment_filename (mf_generation ?mf + 1)"
      if "n \<in> set (mf_segment_files ?mf)" for n
      using names[OF that] names_distinct(1) names_distinct(5)[OF wp] next_name(2)[OF gen] by fastforce
    then show ?thesis by (auto simp: db_files_def compact_manifest_def)
  qed
  have ds3: "disk_state path f3 (compact_manifest ?mf) [(segment_filename (mf_generation ?mf + 1), bs)] recs []"
    using disk_state_frame[OF ds _ disj] t by blast
  have ff3: "fs_file f3 path = fs_file f path"
    using t ff disj by (auto simp: touches_def db_files_def)
  show ?thesis
  proof (cases r3)
    case (Inl e)
    then show ?thesis using out ds3 db t by (auto simp: Let_def)
  next
    case (Inr u)
    have "log_holds (se_wal E, f3) recs"
      using inv ff3 by (auto simp: engine_inv_def log_holds_def)
    then have "engine_inv path s' [(segment_filename (mf_generation ?mf + 1), bs)] recs"
      using out Inr ds3 inv db by (simp add: engine_inv_def Let_def readers_def)
    then show ?thesis using out Inr ds3 db by (auto simp: Let_def)
  qed
qed

definition compacted_blocks :: "engine_state \<Rightarrow> SegmentBlock list result" where
  "compacted_blocks s =
     ebind (merge_segments (se_segments (fst s)) (snd s)) (\<lambda>m. ebind (merged_snapshots m) blocks_from_snapshots)"

definition compact_outcome :: "string \<Rightarrow> named_blocks list \<Rightarrow> WalPutRecord list \<Rightarrow> unit result \<Rightarrow> engine_state \<Rightarrow> bool" where
  "compact_outcome path segs recs r s \<longleftrightarrow>
     (\<exists>mf' segs'. disk_state path (snd s) mf' segs' recs [] \<and> db_store segs' recs = db_store segs recs) \<and>
     (r = Inr () \<longrightarrow> (\<exists>segs'. engine_inv path s segs' recs \<and> db_store segs' recs = db_store segs recs \<and> length segs' \<le> 1)) \<and>
     (\<forall>e. r = Inl e \<longrightarrow> e = Crashed \<or> se_failed (fst s))"

text \<open>A compaction of several segments whose generation is not exhausted.\<close>

lemma compact_many:
  assumes inv: "engine_inv path (E, f) segs recs" and run: "engine_compact (E, f) = (r, s')"
    and many: "1 < length (se_segments E)" "mf_generation (se_manifest E) \<noteq> 0xFFFFFFFFFFFFFFFF"
    and m: "merge_segments (readers segs) f = Inr m" "merged_snapshots m = Inr (map entry_snapshot m)"
      "snapshots_count (map entry_snapshot m) = mf_logical_sample_count (se_manifest E)"
      "blocks_from_snapshots (map entry_snapshot m) = Inr bs" "list_all block_wf bs" "blocks_store bs = segs_store segs"
  shows "compact_outcome path segs recs r s' \<and> (fs_script f = [] \<and> segment_ok bs \<longrightarrow> r = Inr ())"
proof -
  let ?mf = "se_manifest E" and ?name = "segment_filename (mf_generation (se_manifest E) + 1)"
  have ds: "disk_state path f ?mf segs recs []" using inv by (simp add: engine_inv_def)
  note nx = compact_next_db[OF ds m(6) many(2)]
  obtain r1 f1 where w: "write_segment_file ?name bs f = (r1, f1)" by force
  note we = write_new_segment[OF ds many(2) m(5) w]
  note steps = engine_compact_run[OF inv many m(1-4) w]
  show ?thesis
  proof (cases r1)
    case (Inl e)
    then have "(r, s') = (Inl e, after_error e (E, f1))" using steps(1) run by simp
    then show ?thesis using we Inl by (auto simp: compact_outcome_def)
  next
    case md: (Inr md)
    have at: "segment_at f1 ?name bs" and ds1: "disk_state path f1 ?mf segs recs []" using we md by auto
    note rd = open_segment_written[OF at]
    obtain r2 f2 where st: "store_manifest (compact_manifest ?mf) f1 = (r2, f2)" by force
    note se = store_new_manifest[OF ds1 _ nx(1) at st, simplified]
    have ok: "manifest_ok (compact_manifest ?mf)" "mf_generation (compact_manifest ?mf) = mf_generation ?mf + 1"
      using next_manifest_ok[OF ds nx(1)] by (simp_all add: max_manifest_segments_def compact_manifest_def)
    show ?thesis
    proof (cases r2)
      case (Inl e)
      then have "(r, s') = (Inl e, after_error e (E, f2))" using steps(2)[OF md rd] st run by simp
      then show ?thesis using se nx(2) ok(1) we Inl by (auto simp: compact_outcome_def)
    next
      case u: (Inr u)
      have ds2: "disk_state path f2 (compact_manifest ?mf) [(?name, bs)] recs []" using se u ok(2) by simp
      have ff: "fs_file f2 path = fs_file f path"
        using write_segment_file_effect[OF m(5) w] store_manifest_effect[OF st] ds
          names_distinct(5,6,7,8) by (auto simp: touches_def disk_state_def)
      obtain r3 f3 where rm: "remove_obsolete (mf_segment_files ?mf) f2 = (r3, f3)" by force
      have out: "(r, s') = (let E' = E\<lparr>se_segments := [written_reader ?name bs], se_manifest := compact_manifest ?mf\<rparr>
          in case r3 of Inl e \<Rightarrow> (Inl e, after_error e (E', f3)) | Inr _ \<Rightarrow> (Inr (), (E', f3)))"
        using steps(3)[OF md rd _ rm] st run u by simp
      note cp = compact_published[OF inv many(2) nx(2) ds2 ff rm out]
      have "\<exists>segs'. engine_inv path s' segs' recs \<and> db_store segs' recs = db_store segs recs \<and> length segs' \<le> 1"
        if "r = Inr ()" using cp that by (metis One_nat_def le_refl length_Cons list.size(3))
      moreover have "fs_script f = [] \<longrightarrow> fs_script f2 = []" using se we by simp
      ultimately show ?thesis using cp unfolding compact_outcome_def by blast
    qed
  qed
qed

lemma engine_compact_effect:
  assumes inv: "engine_inv path s segs recs" and run: "engine_compact s = (r, s')"
  shows "(\<exists>mf' segs'. disk_state path (snd s') mf' segs' recs [] \<and> db_store segs' recs = db_store segs recs) \<and>
    (r = Inr () \<longrightarrow> (\<exists>segs'. engine_inv path s' segs' recs \<and> db_store segs' recs = db_store segs recs \<and> length segs' \<le> 1)) \<and>
    (\<forall>e. r = Inl e \<longrightarrow> e = Crashed \<or> se_failed (fst s')) \<and>
    (fs_script (snd s) = [] \<and> (\<forall>bs. compacted_blocks s = Inr bs \<longrightarrow> segment_ok bs) \<and>
     mf_generation (se_manifest (fst s)) \<noteq> 0xFFFFFFFFFFFFFFFF \<longrightarrow> r = Inr ())"
proof -
  obtain E f where s: "s = (E, f)" by force
  have inv': "engine_inv path (E, f) segs recs" and run': "engine_compact (E, f) = (r, s')" using inv run s by simp_all
  let ?mf = "se_manifest E"
  have ds: "disk_state path f ?mf segs recs []" and sg: "se_segments E = readers segs"
    using inv' by (auto simp: engine_inv_def)
  have len: "length (readers segs) = length segs" by (simp add: readers_def)
  obtain m bs where mb: "merge_segments (readers segs) f = Inr m" "merged_snapshots m = Inr (map entry_snapshot m)"
    "snapshots_count (map entry_snapshot m) = mf_logical_sample_count ?mf"
    "blocks_from_snapshots (map entry_snapshot m) = Inr bs" "list_all block_wf bs" "blocks_store bs = segs_store segs"
    using compact_blocks[OF ds] by blast
  consider "length (se_segments E) \<le> 1"
    | "1 < length (se_segments E)" "mf_generation ?mf = 0xFFFFFFFFFFFFFFFF"
    | "1 < length (se_segments E)" "mf_generation ?mf \<noteq> 0xFFFFFFFFFFFFFFFF" by linarith
  then show ?thesis
  proof cases
    case 1
    then have "(r, s') = (Inr (), (E, f))"
      using run s engine_inv_usable[OF inv] by (simp add: engine_compact_def act_bind_def)
    then show ?thesis using inv' ds 1 sg len by auto
  next
    case 2
    then have "(r, s') = (Inl (OverflowError ''segment generation is exhausted''),
        after_error (OverflowError ''segment generation is exhausted'') (E, f))"
      using run s engine_inv_usable[OF inv] mb(1-4) sg
      by (simp add: engine_compact_def act_bind_def act_on_error_fail next_segment_filename_def)
    then show ?thesis using ds 2(2) s by auto
  next
    case 3
    have cb: "compacted_blocks s = Inr bs" using mb(1,2,4) s sg by (simp add: compacted_blocks_def)
    show ?thesis using compact_many[OF inv' run' 3 mb] cb s by (simp add: compact_outcome_def)
  qed
qed

end
