(* ===== verification/EngineMachine.thy ===== *)
theory EngineMachine
  imports EngineCompact
begin

text \<open>
  The engine as a state machine.  A database is closed, with nothing but its directory, or
  open, with an engine on it; it is opened, runs operations that return, fail or die with
  the process at any system call, and is closed.  The specification is a store on which a
  returned write takes effect, a failed or interrupted write takes effect or not, and every
  other step has no effect; the engine refines it.
\<close>

section \<open>Operations and steps\<close>

datatype engine_op = Put SeriesKey Sample | Sync | Flush | Compact

fun op_wf :: "engine_op \<Rightarrow> bool" where
  "op_wf (Put k x) \<longleftrightarrow> series_wf k \<and> sample_wf x"
| "op_wf _ \<longleftrightarrow> True"

fun run_op :: "engine_op \<Rightarrow> (engine_state, unit) act" where
  "run_op (Put k x) = engine_put k x"
| "run_op Sync = engine_sync"
| "run_op Flush = engine_flush"
| "run_op Compact = engine_compact"

datatype db_state = Closed fs | Opened engine_state

datatype event = Open | OpenFailed | Returned engine_op | Failed engine_op | Interrupted_op engine_op | Close | Environment

text \<open>
  The operating system's future behaviour, a script of outcomes, may change at any time.
\<close>

inductive step :: "string \<Rightarrow> WalDurability \<Rightarrow> db_state \<Rightarrow> event \<Rightarrow> db_state \<Rightarrow> bool"
  for path :: string and d :: WalDurability where
  step_open: "open_engine path d f = (Inr E, f') \<Longrightarrow> step path d (Closed f) Open (Opened (E, f'))"
| step_open_failed: "open_engine path d f = (Inl e, f') \<Longrightarrow> step path d (Closed f) OpenFailed (Closed f')"
| step_returned: "op_wf p \<Longrightarrow> run_op p s = (Inr (), s') \<Longrightarrow> step path d (Opened s) (Returned p) (Opened s')"
| step_failed: "op_wf p \<Longrightarrow> run_op p s = (Inl e, s') \<Longrightarrow> e \<noteq> Crashed \<Longrightarrow>
    step path d (Opened s) (Failed p) (Opened s')"
| step_crashed: "op_wf p \<Longrightarrow> run_op p s = (Inl Crashed, s') \<Longrightarrow>
    step path d (Opened s) (Interrupted_op p) (Closed (snd s'))"
| step_close: "step path d (Opened s) Close (Closed (snd s))"
| step_env_closed: "step path d (Closed f) Environment (Closed (f\<lparr>fs_script := os\<rparr>))"
| step_env_opened: "step path d (Opened s) Environment (Opened (fst s, (snd s)\<lparr>fs_script := os\<rparr>))"

inductive steps :: "string \<Rightarrow> WalDurability \<Rightarrow> db_state \<Rightarrow> event list \<Rightarrow> db_state \<Rightarrow> bool"
  for path :: string and d :: WalDurability where
  steps_Nil: "steps path d c [] c"
| steps_Cons: "step path d c ev c1 \<Longrightarrow> steps path d c1 evs c2 \<Longrightarrow> steps path d c (ev # evs) c2"

inductive_simps steps_simps: "steps path d c [] c'" "steps path d c (ev # evs) c'"

section \<open>Specification\<close>

fun spec_next :: "event \<Rightarrow> store \<Rightarrow> store set" where
  "spec_next (Returned (Put k x)) S = {store_put k x S}"
| "spec_next (Failed (Put k x)) S = {S, store_put k x S}"
| "spec_next (Interrupted_op (Put k x)) S = {S, store_put k x S}"
| "spec_next _ S = {S}"

fun spec_run :: "event list \<Rightarrow> store \<Rightarrow> store set" where
  "spec_run [] S = {S}"
| "spec_run (ev # evs) S = (\<Union>S'\<in>spec_next ev S. spec_run evs S')"

text \<open>The abstraction relation: what the files, and for a usable engine also the memory, denote.\<close>

definition disk_denotes :: "string \<Rightarrow> fs \<Rightarrow> store \<Rightarrow> bool" where
  "disk_denotes path f S \<longleftrightarrow>
     (\<exists>mf segs recs torn. disk_state path f mf segs recs torn \<and> db_store segs recs = S)"

fun denotes :: "string \<Rightarrow> db_state \<Rightarrow> store \<Rightarrow> bool" where
  "denotes path (Closed f) S \<longleftrightarrow> disk_denotes path f S"
| "denotes path (Opened s) S \<longleftrightarrow>
     (if se_failed (fst s) then disk_denotes path (snd s) S
      else \<exists>segs recs. engine_inv path s segs recs \<and> db_store segs recs = S)"

section \<open>Refinement\<close>

lemma disk_denotesI: "disk_state path f mf segs recs torn \<Longrightarrow> db_store segs recs = S \<Longrightarrow> disk_denotes path f S"
  by (auto simp: disk_denotes_def)

lemma denotes_disk: "denotes path (Opened s) S \<Longrightarrow> disk_denotes path (snd s) S"
  by (auto simp: engine_inv_def intro: disk_denotesI split: if_splits)

text \<open>A failed engine refuses every operation and stays as it is.\<close>

lemma failed_refuses:
  "se_failed (fst s) \<Longrightarrow>
     run_op p s = (Inl (RuntimeError ''storage engine is in a failed state; restart is required''), s)"
  by (cases p) (simp_all add: engine_put_def engine_sync_def engine_flush_def engine_compact_def act_bind_def
      engine_ensure_usable_def)

lemma run_op_effect:
  assumes den: "denotes path (Opened s) S" and wf: "op_wf p" and run: "run_op p s = (r, s')"
  shows "r = Inr () \<Longrightarrow> \<exists>S'\<in>spec_next (Returned p) S. denotes path (Opened s') S'"
    and "r = Inl e \<Longrightarrow> \<exists>S'\<in>spec_next (Failed p) S. disk_denotes path (snd s') S'"
    and "r = Inl e \<Longrightarrow> e \<noteq> Crashed \<Longrightarrow> se_failed (fst s')"
proof -
  have "(r = Inr () \<longrightarrow> (\<exists>S'\<in>spec_next (Returned p) S. denotes path (Opened s') S')) \<and>
    (\<forall>e. r = Inl e \<longrightarrow> (\<exists>S'\<in>spec_next (Failed p) S. disk_denotes path (snd s') S') \<and> (e \<noteq> Crashed \<longrightarrow> se_failed (fst s')))"
  proof (cases "se_failed (fst s)")
    case True
    then have "r = Inl (RuntimeError ''storage engine is in a failed state; restart is required'')" "s' = s"
      using failed_refuses[OF True, of p] run by auto
    moreover have "S \<in> spec_next (Failed p) S" by (cases p) auto
    ultimately show ?thesis using True denotes_disk[OF den] by auto
  next
    case False
    then obtain segs recs where inv: "engine_inv path s segs recs" and S: "db_store segs recs = S"
      using den by auto
    have up: "denotes path (Opened s') S'" if "engine_inv path s' segs' recs'" "db_store segs' recs' = S'" for segs' recs' S'
      using that by (auto simp: engine_inv_def)
    show ?thesis
    proof (cases p)
      case (Put k x)
      then show ?thesis
        using engine_put_effect[OF inv, of k x r s'] run wf S
        by (auto simp del: denotes.simps simp: db_store_append intro: up disk_denotesI)
    next
      case Sync
      then show ?thesis
        using engine_sync_effect[OF inv, of r s'] run S by (auto simp del: denotes.simps intro: up disk_denotesI)
    next
      case Flush
      then show ?thesis
        using engine_flush_effect[OF inv, of r s'] run S
        by (auto simp del: denotes.simps db_store_Nil intro: up disk_denotesI)
    next
      case Compact
      then show ?thesis
        using engine_compact_effect[OF inv, of r s'] run S
        by (auto simp del: denotes.simps intro: up disk_denotesI)
    qed
  qed
  then show "r = Inr () \<Longrightarrow> \<exists>S'\<in>spec_next (Returned p) S. denotes path (Opened s') S'"
    "r = Inl e \<Longrightarrow> \<exists>S'\<in>spec_next (Failed p) S. disk_denotes path (snd s') S'"
    "r = Inl e \<Longrightarrow> e \<noteq> Crashed \<Longrightarrow> se_failed (fst s')" by blast+
qed

lemma script_frame:
  "disk_state path f mf segs recs torn \<Longrightarrow> disk_state path (f\<lparr>fs_script := os\<rparr>) mf segs recs torn"
  unfolding disk_state_def no_read_faults_def fs_wf_def manifest_at_def log_at_def segs_ok_def fs_file_def
    segment_at_def readable_def by (simp; fastforce)

lemma disk_denotes_script: "disk_denotes path f S \<Longrightarrow> disk_denotes path (f\<lparr>fs_script := os\<rparr>) S"
  unfolding disk_denotes_def using script_frame by blast

lemma step_refines:
  assumes "step path d c ev c'" "denotes path c S"
  shows "\<exists>S'\<in>spec_next ev S. denotes path c' S'"
  using assms(1)
proof cases
  case (step_open f E f')
  then show ?thesis
    using assms(2) open_engine_effect by (fastforce simp: disk_denotes_def engine_inv_def)
next
  case (step_open_failed f e f')
  then show ?thesis
    using assms(2) open_engine_effect by (fastforce simp: disk_denotes_def)
next
  case (step_returned p s s')
  then show ?thesis using run_op_effect(1)[of path s S p "Inr ()" s'] assms(2) by simp
next
  case (step_failed p s e s')
  then show ?thesis using run_op_effect(2,3)[of path s S p "Inl e" s' e] assms(2) by auto
next
  case (step_crashed p s s')
  moreover have "spec_next (Interrupted_op p) S = spec_next (Failed p) S" by (cases p) auto
  ultimately show ?thesis using run_op_effect(2)[of path s S p "Inl Crashed" s' Crashed] assms(2) by auto
next
  case (step_close s)
  then show ?thesis using denotes_disk[of path s S] assms(2) by auto
next
  case (step_env_closed f os)
  then show ?thesis using assms(2) disk_denotes_script by auto
next
  case (step_env_opened s os)
  then show ?thesis
    using assms(2) script_frame disk_denotes_script
    by (fastforce simp: engine_inv_def log_holds_def fs_file_def split: if_splits)
qed

lemma steps_refine:
  "steps path d c evs c' \<Longrightarrow> denotes path c S \<Longrightarrow> \<exists>S'\<in>spec_run evs S. denotes path c' S'"
proof (induction arbitrary: S rule: steps.induct)
  case (steps_Cons c ev c1 evs c2)
  then show ?case using step_refines by fastforce
qed simp

section \<open>New databases\<close>

definition new_directory :: "fs \<Rightarrow> bool" where
  "new_directory f \<longleftrightarrow> no_read_faults f \<and> fs_files f = []"

lemma new_directory_denotes:
  assumes "new_directory f" "wal_path_ok path"
  shows "disk_denotes path f (\<lambda>_. Map.empty)"
proof (rule disk_denotesI)
  show "disk_state path f empty_manifest [] [] []"
    using assms by (simp add: new_directory_def disk_state_def manifest_at_def segs_ok_def log_at_def fs_file_def
        fs_wf_def empty_manifest_def max_manifest_segments_def)
qed simp

end
