(* ===== verification/WalProperties.thy ===== *)
theory WalProperties
  imports WalFile
begin

text \<open>
  The properties of the write-ahead log: its codec, the detection of damage, the streaming
  replay, and appending and repairing under every behaviour of the operating system.
\<close>

section \<open>A record for the witnesses\<close>

definition demo_record :: WalPutRecord where
  "demo_record = WalPutRecord (SeriesKey ''cpu'' []) (Sample (Timestamp 5) 0)"

lemma demo_record_ok: "record_wf demo_record" "record_fits demo_record" "record_ok demo_record"
  by (simp_all add: demo_record_def record_ok_def record_wf_def record_fits_def series_wf_def sample_wf_def
      isfinite_def wal_payload_bytes_def series_bytes_def max_payload_size_def)

lemma length_demo_record: "length (wal_record_bytes demo_record) = 45"
  by (simp add: demo_record_def wal_record_bytes_def wal_payload_bytes_def series_bytes_def)

lemma encode_demo_record: "encode_wal_record demo_record = Inr (wal_record_bytes demo_record)"
  by (simp add: encode_wal_record_Inr demo_record_ok)

section \<open>Records\<close>

text \<open>
  Claim C28.  An encoded log record decodes to the record it was made from, whatever bytes
  follow it, and every proper prefix of it is reported as an incomplete record, never as
  another record or as corruption.
\<close>

theorem wal_record_roundtrip:
  assumes "record_wf r" "encode_wal_record r = Inr bytes"
  shows "decode_wal_record (bytes @ rest) =
      \<lparr>wal_record = Some r, wal_error = wal_none, wal_bytes_consumed = length bytes\<rparr> \<and>
    (\<forall>n. n < length bytes \<longrightarrow> decode_wal_record (take n bytes) = wal_decode_failure wal_incomplete_record)"
  using assms by (auto simp: encode_wal_record_Inr decode_wal_record_bytes decode_wal_record_prefix)

theorem wal_record_roundtrip_witness:
  "\<exists>bytes. encode_wal_record demo_record = Inr bytes \<and> length bytes = 45 \<and>
     wal_record (decode_wal_record (bytes @ [1, 2, 3])) = Some demo_record \<and>
     decode_wal_record (take 30 bytes) = wal_decode_failure wal_incomplete_record"
  using wal_record_roundtrip[OF demo_record_ok(1) encode_demo_record, of "[1, 2, 3]"]
  by (auto simp: encode_demo_record length_demo_record)

text \<open>
  Claim C29.  Every change of an encoded record within a window of four bytes is detected:
  the decoder neither accepts the changed bytes nor asks for more input.
\<close>

theorem wal_damage_detected:
  assumes "encode_wal_record r = Inr bytes" "burst bytes bad"
  shows "\<not> wal_success (decode_wal_record bad) \<and> wal_error (decode_wal_record bad) \<noteq> wal_incomplete_record"
  using wal_burst_corrupt[of r bad] assms
  by (auto simp: encode_wal_record_Inr wal_frame_def Let_def split: if_splits)

lemma burst_update:
  assumes "i < length xs" "xs ! i \<noteq> b"
  shows "burst xs (xs[i := b])"
proof -
  have "xs \<noteq> xs[i := b]" using assms by (metis nth_list_update_eq)
  moreover have "\<forall>j<length xs. j < i \<or> i + 4 \<le> j \<longrightarrow> xs ! j = xs[i := b] ! j" by auto
  ultimately show ?thesis unfolding burst_def by (metis length_list_update)
qed

lemma magic_bytes: "u32_bytes wal_magic = [0x43, 0x53, 0x57, 0x4C]"
  by code_simp

lemma demo_record_first: "wal_record_bytes demo_record ! 0 = 0x43"
  by (simp add: wal_record_bytes_def wal_frame_bytes_def wal_protected_bytes_def wal_header_bytes_def magic_bytes)

lemma demo_burst: "burst (wal_record_bytes demo_record) ((wal_record_bytes demo_record)[0 := 0x42])"
  by (rule burst_update) (simp_all add: length_demo_record demo_record_first)

theorem wal_damage_detected_witness:
  "\<exists>bytes. encode_wal_record demo_record = Inr bytes \<and> burst bytes (bytes[0 := 0x42]) \<and>
     \<not> wal_success (decode_wal_record (bytes[0 := 0x42]))"
  using wal_damage_detected[OF encode_demo_record demo_burst] encode_demo_record demo_burst by blast

section \<open>Replay\<close>

text \<open>
  Claim C30.  Reading the log in 64 KiB chunks is invisible: on every file, valid or not, and
  for every callback, the streaming loop has the outcome of scanning the whole file at once,
  and it always ends with a result.
\<close>

theorem replay_chunks_invisible:
  "replay_wal replay \<lparr>is_rest = bytes, is_good_reads = None\<rparr> s =
   replay_from replay \<lparr>records_replayed = 0, valid_bytes = 0, incomplete_tail_bytes = 0\<rparr> bytes s"
  by (rule replay_wal_scan)

text \<open>
  Claim C31.  Replaying a log whose last record is cut off at any byte hands exactly the
  complete records to the callback, in order, and reports the number of records, the bytes
  they take and the bytes of the torn tail.
\<close>

theorem replay_torn_log:
  assumes "list_all record_ok recs" "record_ok r" "n < length (wal_record_bytes r)"
    and "efold replay recs s = Inr s'"
  shows "replay_wal replay \<lparr>is_rest = log_bytes recs @ take n (wal_record_bytes r), is_good_reads = None\<rparr> s =
    Inr (\<lparr>records_replayed = of_nat (length recs), valid_bytes = of_nat (length (log_bytes recs)),
          incomplete_tail_bytes = of_nat n\<rparr>, s')"
  using assms wal_log.scan_torn[OF assms(1-3)]
  by (simp add: replay_wal_scan replay_from_def log_bytes_def)

theorem replay_torn_log_witness:
  "replay_wal (\<lambda>r rs. Inr (rs @ [r]))
     \<lparr>is_rest = log_bytes [demo_record] @ take 7 (wal_record_bytes demo_record), is_good_reads = None\<rparr> [] =
   Inr (\<lparr>records_replayed = 1, valid_bytes = 45, incomplete_tail_bytes = 7\<rparr>, [demo_record])"
  using replay_torn_log[of "[demo_record]" demo_record 7 "\<lambda>r rs. Inr (rs @ [r])" "[]" "[demo_record]"]
  by (simp add: demo_record_ok length_demo_record)

text \<open>
  Claim C32.  Replaying a log in which the bytes of one record were changed within a window of
  four bytes, keeping their number, and whose records before it are intact,
  stops with a format error that carries the byte offset of that record; nothing after it is
  replayed.
\<close>

theorem replay_damaged_log:
  assumes "list_all record_ok recs" "record_ok r" "burst (wal_record_bytes r) bad"
    and "efold replay recs s = Inr s'"
  shows "\<exists>e. e \<noteq> wal_none \<and> e \<noteq> wal_incomplete_record \<and>
    replay_wal replay \<lparr>is_rest = log_bytes recs @ bad @ rest, is_good_reads = None\<rparr> s =
      Inl (WalFormatError (of_nat (length (log_bytes recs))) e)"
proof -
  obtain e where e: "wal_frame bad = Corrupt e"
    using wal_burst_corrupt assms(2,3) by (auto simp: record_ok_def)
  have "bad \<noteq> []"
    using assms(3) by (auto simp: burst_def wal_record_bytes_def)
  with wal_log.scan_damaged[OF assms(1) e] assms(4) e
  have "replay_wal replay \<lparr>is_rest = log_bytes recs @ bad @ rest, is_good_reads = None\<rparr> s =
      Inl (WalFormatError (of_nat (length (log_bytes recs))) e)"
    by (simp add: replay_wal_scan replay_from_def log_bytes_def)
  moreover have "e \<noteq> wal_none \<and> e \<noteq> wal_incomplete_record"
    using e decode_wal_record_error_None[of bad] by (auto simp: wal_frame_def Let_def split: if_splits)
  ultimately show ?thesis by blast
qed

theorem replay_damaged_log_witness:
  "\<exists>e. replay_wal (\<lambda>r rs. Inr (rs @ [r]))
     \<lparr>is_rest = log_bytes [demo_record] @ (wal_record_bytes demo_record)[0 := 0x42] @ log_bytes [demo_record],
      is_good_reads = None\<rparr> [] = Inl (WalFormatError 45 e)"
  using replay_damaged_log[of "[demo_record]" demo_record _ "\<lambda>r rs. Inr (rs @ [r])" "[]" "[demo_record]",
      OF _ demo_record_ok(3) demo_burst]
  by (fastforce simp: demo_record_ok length_demo_record)

section \<open>Appending and repairing\<close>

text \<open>Collecting the records of a file: what a replay with a recording callback sees.\<close>

definition replayed :: "byte list \<Rightarrow> (WalReplayResult \<times> WalPutRecord list) result" where
  "replayed bytes = replay_wal (\<lambda>r rs. Inr (rs @ [r])) \<lparr>is_rest = bytes, is_good_reads = None\<rparr> []"

lemma efold_collect: "efold (\<lambda>r rs. Inr (rs @ [r])) recs acc = Inr (acc @ recs)"
  by (induction recs arbitrary: acc) simp_all

lemma replayed_torn:
  assumes "list_all record_ok recs" "record_ok r" "n < length (wal_record_bytes r)"
  shows "replayed (log_bytes recs @ take n (wal_record_bytes r)) =
    Inr (\<lparr>records_replayed = of_nat (length recs), valid_bytes = of_nat (length (log_bytes recs)),
          incomplete_tail_bytes = of_nat n\<rparr>, recs)"
  using wal_log.scan_torn[OF assms]
  by (simp add: replayed_def replay_wal_scan replay_from_def log_bytes_def efold_collect)

lemma replayed_log:
  assumes "list_all record_ok recs"
  shows "replayed (log_bytes recs) =
    Inr (\<lparr>records_replayed = of_nat (length recs), valid_bytes = of_nat (length (log_bytes recs)),
          incomplete_tail_bytes = 0\<rparr>, recs)"
  using wal_log.scan_clean[OF assms]
  by (simp add: replayed_def replay_wal_scan replay_from_def log_bytes_def efold_collect)

text \<open>
  Claim C27.  Whatever the operating system does during an append (interrupted calls, short
  writes, errors, death of the process at any byte), only the log file changes and a replay
  of it sees the records there were or these and the new one; after an append that returned
  it sees the new record, and with synchronous durability the file is durable.
\<close>

theorem wal_append_crash_safe:
  assumes "log_holds (w, f) recs" "record_wf r" "wal_append r (w, f) = (res, (w', f'))"
  shows "touches {ww_path w} f f' \<and>
    (\<exists>content stats rs. fs_file f' (ww_path w) = Some content \<and> replayed content = Inr (stats, rs) \<and>
       (rs = recs \<or> rs = recs @ [r]) \<and>
       (res = Inr () \<longrightarrow> rs = recs @ [r] \<and> incomplete_tail_bytes stats = 0 \<and>
          (ww_durability w = sync_on_append \<longrightarrow> fs_durable f' (ww_path w) = Some content)))"
proof -
  have recs: "list_all record_ok recs" using assms(1) by (simp add: log_holds_def)
  obtain n where eff: "touches {ww_path w} f f'" "n \<le> length (wal_record_bytes r)" "n = 0 \<or> record_ok r"
    "fs_file f' (ww_path w) = Some (log_bytes recs @ take n (wal_record_bytes r))"
    and fin: "res = Inr () \<Longrightarrow> log_holds (w', f') (recs @ [r]) \<and> same_writer w w' \<and>
      (ww_durability w = sync_on_append \<longrightarrow> fs_durable f' (ww_path w) = Some (log_bytes (recs @ [r])))"
    using wal_append_effect[OF assms] by blast
  show ?thesis
  proof (cases "res = Inr ()")
    case True
    with fin have "list_all record_ok (recs @ [r])" "fs_file f' (ww_path w) = Some (log_bytes (recs @ [r]))"
      by (auto simp: log_holds_def same_writer_def)
    with True fin eff(1) replayed_log[of "recs @ [r]"] show ?thesis by auto
  next
    case False
    show ?thesis
    proof (cases "n = length (wal_record_bytes r) \<and> record_ok r")
      case True
      then show ?thesis
        using False recs eff(1,4) replayed_log[of "recs @ [r]"] by simp
    next
      case F: False
      then consider "n = 0" | "record_ok r" "n < length (wal_record_bytes r)" using eff(2,3) by linarith
      then show ?thesis
        by cases (use False recs eff(1,4) in \<open>simp_all add: replayed_log replayed_torn\<close>)
    qed
  qed
qed

text \<open>A directory with an empty log.\<close>

definition demo_fs :: "os_outcome list \<Rightarrow> fs" where
  "demo_fs script =
     \<lparr>fs_files = [(''chronostore.wal'', [])], fs_durable = Map.empty, fs_pending = [],
      fs_script = script, fs_fault = (\<lambda>_. None), fs_dir_fault = None\<rparr>"

definition demo_writer :: WalWriter where
  "demo_writer = \<lparr>ww_path = ''chronostore.wal'', ww_open = True, ww_durability = sync_on_append,
     ww_size_bytes = 0, ww_failed = False\<rparr>"

lemma demo_log: "log_holds (demo_writer, demo_fs script) []"
  by (simp add: log_holds_def demo_writer_def demo_fs_def fs_file_def)

theorem wal_append_crash_safe_witness:
  "\<exists>content stats. fs_file (snd (snd (wal_append demo_record (demo_writer, demo_fs [])))) ''chronostore.wal'' = Some content \<and>
     replayed content = Inr (stats, [demo_record])"
proof -
  obtain res w' f' where run: "wal_append demo_record (demo_writer, demo_fs []) = (res, (w', f'))"
    by (rule prod_cases3)
  then have "res = Inr ()"
    using wal_append_effect[OF demo_log demo_record_ok(1) run] demo_record_ok(2)
    by (simp add: demo_fs_def length_demo_record)
  with wal_append_crash_safe[OF demo_log demo_record_ok(1) run] run show ?thesis
    by (auto simp: demo_writer_def)
qed

text \<open>
  Claim C33.  Repairing the tail found by a replay leaves the complete records untouched: on
  every behaviour of the operating system the file keeps its torn tail or loses exactly the
  torn bytes, after a repair that returned it holds the complete records only, and when no
  call fails the repair returns.
\<close>

theorem repair_keeps_records:
  assumes "list_all record_ok recs" "record_ok r" "n < length (wal_record_bytes r)"
    and "fs_file f path = Some (log_bytes recs @ take n (wal_record_bytes r))"
    and "length (log_bytes recs) + n < 2 ^ 64"
    and "replayed (log_bytes recs @ take n (wal_record_bytes r)) = Inr (stats, rs)"
    and "repair_wal_tail path stats f = (res, f')"
  shows "rs = recs \<and> touches {path} f f' \<and>
    (fs_file f' path = fs_file f path \<or> fs_file f' path = Some (log_bytes recs)) \<and>
    (res = Inr () \<longrightarrow> fs_file f' path = Some (log_bytes recs)) \<and>
    (fs_script f = [] \<and> readable f path \<longrightarrow> res = Inr ())"
proof -
  have st: "rs = recs" "stats = \<lparr>records_replayed = of_nat (length recs),
      valid_bytes = of_nat (length (log_bytes recs)),
      incomplete_tail_bytes = of_nat (length (take n (wal_record_bytes r)))\<rparr>"
    using assms(6) replayed_torn[OF assms(1-3)] assms(3) by auto
  show ?thesis
    using repair_wal_tail_effect[OF assms(7)[unfolded st(2)] assms(4)] assms(3,4,5) st(1) by auto
qed

theorem repair_keeps_records_witness:
  "\<exists>f'. repair_wal_tail ''chronostore.wal''
      \<lparr>records_replayed = 1, valid_bytes = 45, incomplete_tail_bytes = 7\<rparr>
      (fs_write ''chronostore.wal'' (log_bytes [demo_record] @ take 7 (wal_record_bytes demo_record)) (demo_fs [])) =
        (Inr (), f') \<and> fs_file f' ''chronostore.wal'' = Some (log_bytes [demo_record])"
proof -
  let ?torn = "log_bytes [demo_record] @ take 7 (wal_record_bytes demo_record)"
  let ?f = "fs_write ''chronostore.wal'' ?torn (demo_fs [])"
  obtain res f' where run: "repair_wal_tail ''chronostore.wal''
      \<lparr>records_replayed = 1, valid_bytes = 45, incomplete_tail_bytes = 7\<rparr> ?f = (res, f')"
    by fastforce
  have ok: "list_all record_ok [demo_record]" by (simp add: demo_record_ok)
  have rep: "replayed ?torn =
      Inr (\<lparr>records_replayed = 1, valid_bytes = 45, incomplete_tail_bytes = 7\<rparr>, [demo_record])"
    using replayed_torn[OF ok demo_record_ok(3), of 7] by (simp add: length_demo_record)
  show ?thesis
    using repair_keeps_records[OF ok demo_record_ok(3) _ _ _ rep run] run
    by (auto simp: length_demo_record readable_def demo_fs_def fs_write_fields)
qed

end
