(* ===== verification/SegmentProperties.thy ===== *)
theory SegmentProperties
  imports SegmentOpen Manifest
begin

text \<open>
  The properties of the immutable files: the checksum, the codecs of blocks and manifests,
  atomic replacement, and segment files from the writer to the answers of the reader.
\<close>

section \<open>Checksum and codecs\<close>

text \<open>
  Claim C39.  The checksum separates any two inputs of one length that differ only within a
  window of four bytes.
\<close>

theorem crc32c_detects_bursts:
  assumes "length p = length q" "length p \<le> 4"
  shows "crc32c (a @ p @ c) = crc32c (a @ q @ c) \<longleftrightarrow> p = q"
  by (rule crc32c_run_inj[OF assms])

theorem crc32c_detects_bursts_witness:
  "crc32c ([7] @ [1, 2] @ [9]) \<noteq> crc32c ([7] @ [1, 3] @ [9])"
  using crc32c_detects_bursts[of "[1, 2]" "[1, 3]" "[7]" "[9]"] by simp

text \<open>
  Claim C36.  The block codec is a bijection between valid blocks and the byte strings the
  decoder accepts: the decoder returns a block and a size exactly when that many leading
  bytes are the encoding of the block, so no block has a second encoding.
\<close>

theorem segment_block_codec_bijective:
  "decode_segment_block bytes =
     \<lparr>decoded_block = Some b, block_error = block_none, block_bytes_consumed = n\<rparr> \<longleftrightarrow>
   block_wf b \<and> n \<le> length bytes \<and> encode_segment_block b = Inr (take n bytes)"
  (is "?dec \<longleftrightarrow> ?enc")
proof
  assume dec: ?dec
  then have "block_success (decode_segment_block bytes)" by (simp add: block_success_def)
  from decode_segment_block_canonical[OF this] dec
  have ok: "block_ok b" "take n bytes = segment_block_bytes b" "n = length (segment_block_bytes b)"
    by auto
  then have "n \<le> length bytes" by (metis length_take min.cobounded1)
  with ok show ?enc by (auto simp: block_ok_def encode_segment_block_Inr)
next
  assume enc: ?enc
  then have ok: "block_ok b" and t: "take n bytes = segment_block_bytes b"
    by (auto simp: block_ok_def encode_segment_block_Inr)
  then have "n = length (segment_block_bytes b)" using enc by (metis length_take min.absorb2)
  with ok t show ?dec
    using decode_segment_block_bytes[OF ok, of "drop n bytes"] append_take_drop_id[of n bytes] by simp
qed

text \<open>
  Claim C38.  The manifest codec is a bijection and its decoder total: decoding bytes gives a
  state exactly when the bytes are the encoding of that state, on all other inputs it reports a
  manifest format error, and no other exception escapes.
\<close>

theorem manifest_codec_bijective:
  "(decode_manifest bytes = Inr st \<longleftrightarrow> encode_manifest st = Inr bytes) \<and>
   ((\<exists>st. decode_manifest bytes = Inr st) \<or> (\<exists>msg. decode_manifest bytes = Inl (ManifestFormatError msg)))"
proof
  show "decode_manifest bytes = Inr st \<longleftrightarrow> encode_manifest st = Inr bytes"
    by (auto simp: decode_manifest_Inr encode_manifest_Inr)
  show "(\<exists>st. decode_manifest bytes = Inr st) \<or> (\<exists>msg. decode_manifest bytes = Inl (ManifestFormatError msg))"
    using decode_manifest_error[of bytes] by (cases "decode_manifest bytes") auto
qed

section \<open>Files\<close>

text \<open>
  Claim C37.  Atomic replacement: on every behaviour of the operating system only the file and
  its temporary sibling change, the file has its old or the new contents and nothing in
  between, after a return the new contents are durable, and without failing calls it returns.
\<close>

theorem atomic_write_all_or_nothing:
  assumes "atomic_write_file name bytes f = (r, f')"
  shows "touches {name, name @ ''.tmp''} f f' \<and>
    (fs_file f' name = fs_file f name \<or> fs_file f' name = Some bytes) \<and>
    (r = Inr () \<longrightarrow> fs_file f' name = Some bytes \<and> fs_durable f' name = Some bytes) \<and>
    (fs_script f = [] \<and> length bytes \<le> streamoff_max \<longrightarrow> r = Inr ())"
  by (rule atomic_write_file_effect[OF assms])

definition empty_directory :: "os_outcome list \<Rightarrow> fs" where
  "empty_directory script =
     \<lparr>fs_files = [], fs_durable = Map.empty, fs_pending = [], fs_script = script,
      fs_fault = (\<lambda>_. None), fs_dir_fault = None\<rparr>"

theorem atomic_write_all_or_nothing_witness:
  "\<exists>f'. atomic_write_file ''a'' [1, 2] (empty_directory []) = (Inr (), f') \<and>
     fs_file f' ''a'' = Some [1, 2] \<and> fs_durable f' ''a'' = Some [1, 2]"
proof -
  obtain r f' where run: "atomic_write_file ''a'' [1, 2] (empty_directory []) = (r, f')" by fastforce
  from atomic_write_all_or_nothing[OF run] run show ?thesis
    by (simp add: empty_directory_def streamoff_max_def)
qed

text \<open>
  Claim C34.  Writing valid blocks to a segment file and opening it gives them back: on every
  behaviour of the operating system the path keeps its old contents or holds the complete
  segment; after a return the file is durable, opens, and its reader returns exactly the
  blocks that were written and counts their samples.
\<close>

theorem segment_file_roundtrip:
  assumes "list_all block_wf bs" "write_segment_file path bs f = (res, f')" "readable f path"
  shows "touches {path, path @ ''.tmp''} f f' \<and>
    (fs_file f' path = fs_file f path \<or>
       (\<exists>r. open_segment path f' = Inr r \<and> segment_blocks r f' = Inr bs)) \<and>
    (\<forall>md. res = Inr md \<longrightarrow> fs_durable f' path = fs_file f' path \<and>
       (\<exists>r. open_segment path f' = Inr r \<and> segment_blocks r f' = Inr bs \<and>
            sr_sample_count r = md_sample_count md \<and> sr_file_size r = md_file_size md))"
proof -
  note eff = write_segment_file_effect[OF assms(1,2)]
  have opens: "open_segment path f' = Inr (written_reader path bs) \<and>
      segment_blocks (written_reader path bs) f' = Inr bs"
    if "segment_ok bs" "fs_file f' path = Some (segment_bytes bs)"
  proof -
    have "segment_at f' path bs"
      using that eff assms(3) by (simp add: segment_at_def readable_def touches_def)
    then show ?thesis by (simp add: open_segment_written segment_at_blocks)
  qed
  have "fs_file f' path = fs_file f path \<or> (\<exists>r. open_segment path f' = Inr r \<and> segment_blocks r f' = Inr bs)"
    using eff opens by blast
  moreover have "fs_durable f' path = fs_file f' path \<and>
       (\<exists>r. open_segment path f' = Inr r \<and> segment_blocks r f' = Inr bs \<and>
            sr_sample_count r = md_sample_count md \<and> sr_file_size r = md_file_size md)" if "res = Inr md" for md
  proof -
    have ok: "segment_ok bs" "md = segment_metadata bs" "fs_file f' path = Some (segment_bytes bs)"
      "fs_durable f' path = Some (segment_bytes bs)" using eff that by blast+
    then show ?thesis using opens by (simp add: written_reader_def segment_metadata_def)
  qed
  ultimately show ?thesis using eff by blast
qed

definition demo_block :: SegmentBlock where
  "demo_block = SegmentBlock (SeriesKey ''cpu'' []) [Sample (Timestamp 5) 0, Sample (Timestamp 9) 1]"

lemma demo_block_wf: "block_wf demo_block"
  by (simp add: demo_block_def block_wf_def series_wf_def sample_wf_def isfinite_def
      max_samples_per_segment_block_def less_Timestamp_def)

lemma demo_block_segment_ok: "segment_ok [demo_block]"
  using demo_block_wf
  by (simp add: segment_ok_def block_ok_def block_fits_def demo_block_def block_payload_bytes_def
      series_bytes_def max_segment_block_payload_size_def max_segment_block_count_def
      max_index_payload_size_def index_payload_bytes_def entry_bytes_def)

theorem segment_file_roundtrip_witness:
  "\<exists>f' md r. write_segment_file ''s'' [demo_block] (empty_directory []) = (Inr md, f') \<and>
     open_segment ''s'' f' = Inr r \<and> segment_blocks r f' = Inr [demo_block]"
proof -
  obtain res f' where run: "write_segment_file ''s'' [demo_block] (empty_directory []) = (res, f')" by fastforce
  have wf: "list_all block_wf [demo_block]" by (simp add: demo_block_wf)
  have res: "res = Inr (segment_metadata [demo_block])"
    using write_segment_file_effect[OF wf run, THEN conjunct2, THEN conjunct2, THEN conjunct2]
      demo_block_segment_ok by (auto simp: empty_directory_def)
  have rd: "readable (empty_directory []) ''s''" by (simp add: empty_directory_def readable_def)
  from segment_file_roundtrip[OF wf run rd, THEN conjunct2, THEN conjunct2, rule_format, OF res]
  obtain r where "open_segment ''s'' f' = Inr r" "segment_blocks r f' = Inr [demo_block]"
    by (elim conjE exE)
  with run res show ?thesis by (intro exI conjI) simp_all
qed

text \<open>
  Claim C35.  The queries of a segment reader are right on every file that opens and whose
  blocks can all be read and decoded, whoever wrote it (opening does not look at the blocks): a point query returns the sample stored under its
  series and timestamp, a range query the samples of the half-open range in time order, and
  latest the sample with the greatest timestamp; the binary searches over the index and
  inside blocks find what a linear search would.
\<close>

theorem segment_queries_correct:
  assumes "open_segment path f = Inr r" "segment_blocks r f = Inr bs"
  shows "segment_get r f k t = Inr (map_option (Sample t) (blocks_store bs k t)) \<and>
    (\<exists>x. segment_latest r f k = Inr x \<and> is_latest (blocks_store bs) k x) \<and>
    (if a \<le> b then \<exists>xs. segment_range r f k a b = Inr xs \<and> is_range (blocks_store bs) k a b xs
     else \<exists>msg. segment_range r f k a b = Inl (InvalidArgument msg))"
proof -
  have inv: "segment_inv (f, r)" and store: "segment_store (f, r) = blocks_store bs"
    using open_segment_inv[OF assms] by auto
  show ?thesis
    using segment.get_content[OF inv, of k t] segment.latest_content[OF inv, of k]
      segment.range_content[OF inv, of a b k] segment.range_reversed[OF inv, of b a k] store
    by (auto simp: not_le)
qed

theorem segment_queries_correct_witness:
  "\<exists>f' r. open_segment ''s'' f' = Inr r \<and> segment_get r f' (SeriesKey ''cpu'' []) (Timestamp 9) = Inr (Some (Sample (Timestamp 9) 1))"
proof -
  let ?f = "fs_write ''s'' (segment_bytes [demo_block]) (empty_directory [])"
  have at: "segment_at ?f ''s'' [demo_block]"
    using demo_block_segment_ok by (simp add: segment_at_def readable_def empty_directory_def fs_write_fields)
  show ?thesis
    using segment_queries_correct[OF open_segment_written[OF at] segment_at_blocks[OF at],
        of "SeriesKey ''cpu'' []" "Timestamp 9"] open_segment_written[OF at]
    by (auto simp: blocks_store_single demo_block_def samples_map_def)
qed

end
