(* ===== verification/EngineProperties.thy ===== *)
theory EngineProperties
  imports EngineMachine WalProperties SegmentProperties
begin

text \<open>
  The properties of the storage engine: it refines a map from series and timestamps to
  values, across failures and crashes at every system call.
\<close>

section \<open>Counters\<close>

lemma engine_inv_counts:
  assumes "engine_inv path s segs recs"
  shows "engine_sample_count s = Inr (card (store_keys (db_store segs recs)) mod 2 ^ 64)"
    "engine_segment_count s = Inr (length segs)" "engine_wal_size_bytes s = Inr (of_nat (length (log_bytes recs)))"
    "engine_memtable_sample_count s = Inr (card (store_keys (records_store recs)))"
proof -
  have u: "engine_ensure_usable (fst s) = Inr ()" by (rule engine_inv_usable[OF assms])
  have c: "unat (se_logical_sample_count (fst s)) = card (store_keys (db_store segs recs)) mod 2 ^ 64"
    using assms by (simp add: engine_inv_def unat_of_nat)
  then show "engine_sample_count s = Inr (card (store_keys (db_store segs recs)) mod 2 ^ 64)"
    using u unat_u64_less[of "se_logical_sample_count (fst s)"] by (simp add: engine_sample_count_def)
  show "engine_segment_count s = Inr (length segs)"
    using assms u by (simp add: engine_segment_count_def engine_inv_def readers_def)
  show "engine_wal_size_bytes s = Inr (of_nat (length (log_bytes recs)))"
    using assms u by (simp add: engine_wal_size_bytes_def engine_inv_def log_holds_def)
  show "engine_memtable_sample_count s = Inr (card (store_keys (records_store recs)))"
    using assms u memtable_count_card[of "se_memtable (fst s)"]
    by (simp add: engine_memtable_sample_count_def engine_inv_def memtable_sample_count_def)
qed

section \<open>A run for the witnesses\<close>

abbreviation demo_path :: string where "demo_path \<equiv> ''chronostore.wal''"

lemma demo_path_ok: "wal_path_ok demo_path"
  by (simp add: wal_path_ok_def manifest_path_def path_extension_def)

lemma demo_directory: "new_directory (empty_directory os)"
  by (simp add: new_directory_def no_read_faults_def empty_directory_def)

abbreviation demo_put :: engine_op where
  "demo_put \<equiv> Put (wal_series demo_record) (wal_sample demo_record)"

lemma demo_put_wf: "op_wf demo_put" "series_wf (wal_series demo_record)" "sample_wf (wal_sample demo_record)"
  using demo_record_ok(1) by (auto simp: record_wf_def)

abbreviation demo_trace :: "event list" where
  "demo_trace \<equiv> [Open, Environment, Returned demo_put, Close, Environment]"

text \<open>Opening an empty directory, one write that returns, and closing.\<close>

lemma demo_opened:
  "\<exists>E f. open_engine demo_path sync_on_append (empty_directory []) = (Inr E, f) \<and>
     engine_inv demo_path (E, f) [] [] \<and> se_manifest E = empty_manifest"
proof -
  have ds: "disk_state demo_path (empty_directory []) empty_manifest [] [] []"
    using demo_path_ok demo_directory[of "[]"]
    by (simp add: new_directory_def disk_state_def manifest_at_def segs_ok_def log_at_def fs_file_def
        fs_wf_def empty_manifest_def max_manifest_segments_def)
  obtain r f where o: "open_engine demo_path sync_on_append (empty_directory []) = (r, f)" by force
  from open_engine_effect[OF ds o] o show ?thesis by (auto simp: empty_directory_def)
qed

lemma engine_inv_script: "engine_inv path (E, f) segs recs \<Longrightarrow> engine_inv path (E, f\<lparr>fs_script := os\<rparr>) segs recs"
  using script_frame by (auto simp: engine_inv_def log_holds_def fs_file_def)

lemma demo_open_runs:
  "\<exists>E f. steps demo_path sync_on_append (Closed (empty_directory [])) [Open, Environment] (Opened (E, f)) \<and>
     engine_inv demo_path (E, f) [] [] \<and> se_manifest E = empty_manifest \<and> fs_script f = []"
proof -
  obtain E f where o: "open_engine demo_path sync_on_append (empty_directory []) = (Inr E, f)"
    and inv: "engine_inv demo_path (E, f) [] []" "se_manifest E = empty_manifest" using demo_opened by blast
  have "step demo_path sync_on_append (Opened (E, f)) Environment (Opened (E, f\<lparr>fs_script := []\<rparr>))"
    using step_env_opened[of demo_path sync_on_append "(E, f)" "[]"] by simp
  then show ?thesis
    using step_open[OF o] engine_inv_script[OF inv(1)] inv(2)
    by (intro exI[of _ E] exI[of _ "f\<lparr>fs_script := []\<rparr>"]) (auto simp: steps_simps)
qed

lemma demo_put_runs:
  "\<exists>s s'. steps demo_path sync_on_append (Closed (empty_directory [])) [Open, Environment] (Opened s) \<and>
     engine_put (wal_series demo_record) (wal_sample demo_record) s = (Inr (), s') \<and>
     engine_inv demo_path s' [] [demo_record] \<and> se_manifest (fst s') = empty_manifest"
proof -
  obtain E f where o: "steps demo_path sync_on_append (Closed (empty_directory [])) [Open, Environment] (Opened (E, f))"
    "engine_inv demo_path (E, f) [] []" "se_manifest E = empty_manifest" "fs_script f = []" using demo_open_runs by blast
  obtain r s' where put: "engine_put (wal_series demo_record) (wal_sample demo_record) (E, f) = (r, s')"
    by (metis surj_pair)
  then have "r = Inr () \<and> engine_inv demo_path s' [] [demo_record] \<and> se_manifest (fst s') = empty_manifest"
    using engine_put_effect[OF o(2) demo_put_wf(2,3) put] demo_record_ok(2) length_demo_record o(3,4) by auto
  then show ?thesis using o(1) put by blast
qed

lemma steps_snoc: "steps path d c evs c1 \<Longrightarrow> step path d c1 ev c2 \<Longrightarrow> steps path d c (evs @ [ev]) c2"
  by (induction rule: steps.induct) (auto intro: steps.intros)

lemma demo_engine:
  "\<exists>E f. steps demo_path sync_on_append (Closed (empty_directory [])) [Open, Environment, Returned demo_put] (Opened (E, f)) \<and>
     engine_inv demo_path (E, f) [] [demo_record] \<and> se_manifest E = empty_manifest"
proof -
  obtain s s' where o: "steps demo_path sync_on_append (Closed (empty_directory [])) [Open, Environment] (Opened s)"
    "engine_put (wal_series demo_record) (wal_sample demo_record) s = (Inr (), s')"
    "engine_inv demo_path s' [] [demo_record]" "se_manifest (fst s') = empty_manifest" using demo_put_runs by blast
  have "step demo_path sync_on_append (Opened s) (Returned demo_put) (Opened s')"
    by (rule step_returned) (use demo_put_wf(1) o(2) in auto)
  from steps_snoc[OF o(1) this] o(3,4) show ?thesis by (cases s') auto
qed

lemma demo_run:
  "\<exists>f. steps demo_path sync_on_append (Closed (empty_directory [])) demo_trace (Closed f) \<and> fs_script f = []"
proof -
  obtain E f where s: "steps demo_path sync_on_append (Closed (empty_directory [])) [Open, Environment, Returned demo_put] (Opened (E, f))"
    using demo_engine by blast
  have "step demo_path sync_on_append (Opened (E, f)) Close (Closed f)"
    using step_close[of demo_path sync_on_append "(E, f)"] by simp
  moreover have "step demo_path sync_on_append (Closed f) Environment (Closed (f\<lparr>fs_script := []\<rparr>))"
    by (rule step_env_closed)
  ultimately show ?thesis using s unfolding steps_simps by fastforce
qed

section \<open>What histories write\<close>

fun attempts :: "event \<Rightarrow> (SeriesKey \<times> Sample) set" where
  "attempts (Returned (Put k x)) = {(k, x)}"
| "attempts (Failed (Put k x)) = {(k, x)}"
| "attempts (Interrupted_op (Put k x)) = {(k, x)}"
| "attempts _ = {}"

lemma spec_next_attempts:
  "S' \<in> spec_next ev S \<Longrightarrow> S' = S \<or> (\<exists>(k, x)\<in>attempts ev. S' = store_put k x S)"
  by (cases "(ev, S)" rule: spec_next.cases) auto

lemma spec_run_append: "spec_run (evs @ evs') S = (\<Union>S'\<in>spec_run evs S. spec_run evs' S')"
  by (induction evs arbitrary: S) auto

lemma spec_run_untouched:
  "S' \<in> spec_run evs S \<Longrightarrow> \<forall>ev\<in>set evs. \<forall>y. (k, y) \<in> attempts ev \<longrightarrow> timestamp y \<noteq> t \<Longrightarrow> S' k t = S k t"
proof (induction evs arbitrary: S)
  case (Cons ev evs)
  then obtain S1 where S1: "S1 \<in> spec_next ev S" "S' \<in> spec_run evs S1" by auto
  then have "S' k t = S1 k t" using Cons by simp
  also have "S1 k t = S k t"
    using spec_next_attempts[OF S1(1)] Cons.prems(2) by (auto simp: store_put_def)
  finally show ?case .
qed simp

lemma spec_run_written:
  "S' \<in> spec_run evs S \<Longrightarrow> S' k t = Some v \<Longrightarrow>
     S k t = Some v \<or> (\<exists>ev\<in>set evs. (k, Sample t v) \<in> attempts ev)"
proof (induction evs arbitrary: S)
  case (Cons ev evs)
  then obtain S1 where S1: "S1 \<in> spec_next ev S" "S' \<in> spec_run evs S1" by auto
  from Cons.IH[OF S1(2) Cons.prems(2)] show ?case
    using spec_next_attempts[OF S1(1)]
    by (auto simp: store_put_def split: if_splits)
qed simp

lemma reopened_store:
  assumes "wal_path_ok path" "new_directory f0" "steps path d (Closed f0) evs (Closed f)"
    and "open_engine path d' f = (Inr E, f')"
  obtains S segs recs where "S \<in> spec_run evs (\<lambda>_. Map.empty)" "engine_inv path (E, f') segs recs"
    "db_store segs recs = S"
proof -
  have "denotes path (Closed f0) (\<lambda>_. Map.empty)" using new_directory_denotes[OF assms(2,1)] by simp
  from steps_refine[OF assms(3) this] obtain S where S: "S \<in> spec_run evs (\<lambda>_. Map.empty)" "disk_denotes path f S"
    by auto
  then obtain mf segs recs torn where ds: "disk_state path f mf segs recs torn" "db_store segs recs = S"
    by (auto simp: disk_denotes_def)
  show ?thesis using that S(1) ds(2) open_engine_effect[OF ds(1) assms(4)] by blast
qed

lemma engine_inv_get:
  "engine_inv path s segs recs \<Longrightarrow> engine_get s k t = Inr (map_option (Sample t) (db_store segs recs k t))"
  using engine_get_correct[OF engine_inv_ready(1)] engine_inv_ready(2) by simp

section \<open>Crash safety\<close>

text \<open>
  Claim C1.  Crash recovery.  Take any history of a database that starts with an empty
  directory: opening, writes, syncs, flushes and compactions that return, fail or die with
  the process at any system call, closing, with any behaviour of the operating system.
  Whenever it is then opened again, the queries answer for a store in which every write that
  returned has its effect, every write that failed or was interrupted has its effect entirely
  or not at all, in the order of the history, and nothing else has any effect.
\<close>

theorem crash_recovery:
  assumes "wal_path_ok path" "new_directory f0" "steps path d (Closed f0) evs (Closed f)"
    and "open_engine path d' f = (Inr E, f')"
  shows "\<exists>S\<in>spec_run evs (\<lambda>_. Map.empty).
    (\<forall>k t. engine_get (E, f') k t = Inr (map_option (Sample t) (S k t))) \<and>
    (\<forall>k. \<exists>x. engine_latest (E, f') k = Inr x \<and> is_latest S k x) \<and>
    (\<forall>k a b. a \<le> b \<longrightarrow> (\<exists>xs. engine_range (E, f') k a b = Inr xs \<and> is_range S k a b xs)) \<and>
    engine_sample_count (E, f') = Inr (card (store_keys S) mod 2 ^ 64)"
proof -
  obtain S segs recs where S: "S \<in> spec_run evs (\<lambda>_. Map.empty)"
    and inv: "engine_inv path (E, f') segs recs" "db_store segs recs = S"
    by (rule reopened_store[OF assms])
  note r = engine_inv_ready[OF inv(1), unfolded inv(2)]
  show ?thesis
    using S engine.get_content[OF r(1)] engine.latest_content[OF r(1)] engine.range_content[OF r(1)]
      engine_inv_counts(1)[OF inv(1)] r(2) inv(2) by (intro bexI[of _ S]) auto
qed

text \<open>
  Claim C3.  Recovery succeeds: after any such history, if the operating system makes no
  further call fail, opening the database returns an engine.
\<close>

theorem reopening_succeeds:
  assumes "wal_path_ok path" "new_directory f0" "steps path d (Closed f0) evs (Closed f)" "fs_script f = []"
  shows "\<exists>E f'. open_engine path d' f = (Inr E, f')"
proof -
  have "denotes path (Closed f0) (\<lambda>_. Map.empty)" using new_directory_denotes[OF assms(2,1)] by simp
  from steps_refine[OF assms(3) this] obtain mf segs recs torn where ds: "disk_state path f mf segs recs torn"
    by (auto simp: disk_denotes_def)
  obtain r f' where o: "open_engine path d' f = (r, f')" by force
  from open_engine_effect[OF ds o] o assms(4) show ?thesis by auto
qed

theorem reopening_succeeds_witness:
  "\<exists>f E f'. steps demo_path sync_on_append (Closed (empty_directory [])) demo_trace (Closed f) \<and>
     open_engine demo_path buffered f = (Inr E, f')"
proof -
  obtain f where f: "steps demo_path sync_on_append (Closed (empty_directory [])) demo_trace (Closed f)" "fs_script f = []"
    using demo_run by blast
  from reopening_succeeds[OF demo_path_ok demo_directory f, of buffered] f(1) show ?thesis by blast
qed

lemma demo_reopened:
  "\<exists>f E f'. steps demo_path sync_on_append (Closed (empty_directory [])) demo_trace (Closed f) \<and>
     open_engine demo_path buffered f = (Inr E, f')"
proof -
  obtain f where f: "steps demo_path sync_on_append (Closed (empty_directory [])) demo_trace (Closed f)" "fs_script f = []"
    using demo_run by blast
  have "denotes demo_path (Closed (empty_directory [])) (\<lambda>_. Map.empty)"
    using new_directory_denotes[OF demo_directory demo_path_ok] by simp
  from steps_refine[OF f(1) this] obtain mf segs recs torn where ds: "disk_state demo_path f mf segs recs torn"
    by (auto simp: disk_denotes_def)
  obtain r f' where o: "open_engine demo_path buffered f = (r, f')" by force
  from open_engine_effect[OF ds o] o f show ?thesis by auto
qed

theorem crash_recovery_witness:
  "\<exists>f E f'. steps demo_path sync_on_append (Closed (empty_directory [])) demo_trace (Closed f) \<and>
     open_engine demo_path buffered f = (Inr E, f') \<and>
     engine_get (E, f') (wal_series demo_record) (timestamp (wal_sample demo_record)) = Inr (Some (wal_sample demo_record))"
proof -
  obtain f E f' where r: "steps demo_path sync_on_append (Closed (empty_directory [])) demo_trace (Closed f)"
    "open_engine demo_path buffered f = (Inr E, f')" using demo_reopened by blast
  from crash_recovery[OF demo_path_ok demo_directory r] have
    "engine_get (E, f') (wal_series demo_record) (timestamp (wal_sample demo_record)) = Inr (Some (wal_sample demo_record))"
    by (auto simp: store_put_def)
  with r show ?thesis by blast
qed

text \<open>
  Claim C2.  An acknowledged write survives: if a write returned and the remaining history
  attempts no other write at its series and timestamp, then whatever else happened, crashes
  included, the database returns that sample when it is opened again.
\<close>

theorem acknowledged_write_survives:
  assumes "wal_path_ok path" "new_directory f0"
    and "steps path d (Closed f0) (prior @ Returned (Put k x) # rest) (Closed f)"
    and "\<forall>ev\<in>set rest. \<forall>y. (k, y) \<in> attempts ev \<longrightarrow> timestamp y \<noteq> timestamp x"
    and "open_engine path d' f = (Inr E, f')"
  shows "engine_get (E, f') k (timestamp x) = Inr (Some x)"
proof -
  obtain S segs recs where S: "S \<in> spec_run (prior @ Returned (Put k x) # rest) (\<lambda>_. Map.empty)"
    and inv: "engine_inv path (E, f') segs recs" "db_store segs recs = S"
    by (rule reopened_store[OF assms(1-3,5)])
  then obtain S0 where "S \<in> spec_run rest (store_put k x S0)" by (auto simp: spec_run_append)
  from spec_run_untouched[OF this assms(4)] have "S k (timestamp x) = Some (sample_value x)"
    by (simp add: store_put_def)
  then show ?thesis using engine_inv_get[OF inv(1)] inv(2) by simp
qed

theorem acknowledged_write_survives_witness:
  "\<exists>f E f'. steps demo_path sync_on_append (Closed (empty_directory [])) demo_trace (Closed f) \<and>
     open_engine demo_path buffered f = (Inr E, f') \<and>
     engine_get (E, f') (wal_series demo_record) (timestamp (wal_sample demo_record)) = Inr (Some (wal_sample demo_record))"
proof -
  obtain f E f' where r: "steps demo_path sync_on_append (Closed (empty_directory [])) demo_trace (Closed f)"
    "open_engine demo_path buffered f = (Inr E, f')" using demo_reopened by blast
  from acknowledged_write_survives[OF demo_path_ok demo_directory, of sync_on_append "[]" "[Open, Environment]"
      "wal_series demo_record" "wal_sample demo_record" "[Close, Environment]" f buffered E f'] r
  show ?thesis by auto
qed

text \<open>
  Nothing is made up: every sample a reopened database returns was passed to a
  write of the history that returned, failed or was interrupted.
\<close>

theorem no_invented_samples:
  assumes "wal_path_ok path" "new_directory f0" "steps path d (Closed f0) evs (Closed f)"
    and "open_engine path d' f = (Inr E, f')" "engine_get (E, f') k t = Inr (Some x)"
  shows "timestamp x = t \<and> (\<exists>ev\<in>set evs. (k, x) \<in> attempts ev)"
proof -
  obtain S segs recs where S: "S \<in> spec_run evs (\<lambda>_. Map.empty)"
    and inv: "engine_inv path (E, f') segs recs" "db_store segs recs = S"
    by (rule reopened_store[OF assms(1-4)])
  from engine_inv_get[OF inv(1), of k t] assms(5) inv(2) obtain v where "S k t = Some v" "x = Sample t v"
    by (cases "S k t") auto
  with spec_run_written[OF S] show ?thesis by force
qed

theorem no_invented_samples_witness:
  "\<exists>f E f'. steps demo_path sync_on_append (Closed (empty_directory [])) demo_trace (Closed f) \<and>
     open_engine demo_path buffered f = (Inr E, f') \<and>
     (\<exists>x. engine_get (E, f') (wal_series demo_record) (timestamp (wal_sample demo_record)) = Inr (Some x) \<and>
        (\<exists>ev\<in>set demo_trace. (wal_series demo_record, x) \<in> attempts ev))"
proof -
  obtain f E f' where r: "steps demo_path sync_on_append (Closed (empty_directory [])) demo_trace (Closed f)"
    "open_engine demo_path buffered f = (Inr E, f')" using demo_reopened by blast
  obtain S segs recs where S: "S \<in> spec_run demo_trace (\<lambda>_. Map.empty)"
    and inv: "engine_inv demo_path (E, f') segs recs" "db_store segs recs = S"
    by (rule reopened_store[OF demo_path_ok demo_directory r])
  then have g: "engine_get (E, f') (wal_series demo_record) (timestamp (wal_sample demo_record)) = Inr (Some (wal_sample demo_record))"
    using engine_inv_get[OF inv(1)] by (auto simp: store_put_def)
  from no_invented_samples[OF demo_path_ok demo_directory r g] r g show ?thesis by blast
qed

end
