(* ===== verification/DatabaseSystem.thy ===== *)
theory DatabaseSystem
  imports Database EngineProperties
begin

text \<open>
  Any number of processes on one database path.  Each opens the database, runs operations
  that return, throw or die with the process, and closes it, in any interleaving.  The lock
  admits one at a time, so the system refines the same store as one engine does.
\<close>

section \<open>Steps\<close>

datatype db_op = DbPut SeriesKey Sample | DbSync | DbFlush | DbCompact

fun db_op_wf :: "db_op \<Rightarrow> bool" where
  "db_op_wf (DbPut k x) \<longleftrightarrow> series_wf k \<and> sample_wf x"
| "db_op_wf _ \<longleftrightarrow> True"

fun run_db_op :: "db_op \<Rightarrow> (Database \<times> host, unit) act" where
  "run_db_op (DbPut k x) = database_put k x"
| "run_db_op DbSync = database_sync"
| "run_db_op DbFlush = database_flush"
| "run_db_op DbCompact = database_compact"

text \<open>Every process has a database object, which may be one that owns nothing.\<close>

type_synonym system = "host \<times> (nat \<Rightarrow> Database)"

abbreviation closed :: Database where "closed \<equiv> \<lparr>db_impl = None\<rparr>"

definition owners :: "(nat \<Rightarrow> Database) \<Rightarrow> nat set" where
  "owners objs = {p. db_impl (objs p) \<noteq> None}"

datatype db_event =
    DbOpened nat | DbOpenFailed nat exn | DbOpenDied nat
  | DbReturned nat db_op | DbFailed nat db_op exn | DbDied nat db_op
  | DbClosed nat | DbEnvironment

text \<open>The operating system drops the locks of a process that dies.\<close>

definition drop_locks :: "nat \<Rightarrow> (nat \<Rightarrow> Database) \<Rightarrow> host \<Rightarrow> host" where
  "drop_locks p objs h = h\<lparr>h_locked := (owners objs - {p} \<noteq> {})\<rparr>"

inductive sys_step :: "string \<Rightarrow> system \<Rightarrow> db_event \<Rightarrow> system \<Rightarrow> bool"
  for dir :: string where
  sys_opened: "p \<notin> owners objs \<Longrightarrow> open_database dir opts h = (Inr D, h') \<Longrightarrow>
    sys_step dir (h, objs) (DbOpened p) (h', objs(p := D))"
| sys_open_failed: "p \<notin> owners objs \<Longrightarrow> open_database dir opts h = (Inl e, h') \<Longrightarrow> e \<noteq> Crashed \<Longrightarrow>
    sys_step dir (h, objs) (DbOpenFailed p e) (h', objs)"
| sys_open_died: "p \<notin> owners objs \<Longrightarrow> open_database dir opts h = (Inl Crashed, h') \<Longrightarrow>
    sys_step dir (h, objs) (DbOpenDied p) (drop_locks p objs h', objs)"
| sys_returned: "db_op_wf a \<Longrightarrow> run_db_op a (objs p, h) = (Inr (), (D, h')) \<Longrightarrow>
    sys_step dir (h, objs) (DbReturned p a) (h', objs(p := D))"
| sys_failed: "db_op_wf a \<Longrightarrow> run_db_op a (objs p, h) = (Inl e, (D, h')) \<Longrightarrow> e \<noteq> Crashed \<Longrightarrow>
    sys_step dir (h, objs) (DbFailed p a e) (h', objs(p := D))"
| sys_died: "db_op_wf a \<Longrightarrow> run_db_op a (objs p, h) = (Inl Crashed, (D, h')) \<Longrightarrow>
    sys_step dir (h, objs) (DbDied p a) (drop_locks p objs h', objs(p := closed))"
| sys_closed: "sys_step dir (h, objs) (DbClosed p) (close_database (objs p) h, objs(p := closed))"
| sys_environment: "sys_step dir (h, objs) DbEnvironment
    (h\<lparr>h_fs := (h_fs h)\<lparr>fs_script := os\<rparr>, h_exists_fault := a, h_is_directory_fault := b\<rparr>, objs)"

inductive sys_steps :: "string \<Rightarrow> system \<Rightarrow> db_event list \<Rightarrow> system \<Rightarrow> bool"
  for dir :: string where
  sys_steps_Nil: "sys_steps dir s [] s"
| sys_steps_Cons: "sys_step dir s ev s1 \<Longrightarrow> sys_steps dir s1 evs s2 \<Longrightarrow> sys_steps dir s (ev # evs) s2"

section \<open>Specification\<close>

fun db_spec_next :: "db_event \<Rightarrow> store \<Rightarrow> store set" where
  "db_spec_next (DbReturned p (DbPut k x)) S = {store_put k x S}"
| "db_spec_next (DbFailed p (DbPut k x) e) S = {S, store_put k x S}"
| "db_spec_next (DbDied p (DbPut k x)) S = {S, store_put k x S}"
| "db_spec_next _ S = {S}"

fun db_spec_run :: "db_event list \<Rightarrow> store \<Rightarrow> store set" where
  "db_spec_run [] S = {S}"
| "db_spec_run (ev # evs) S = (\<Union>S'\<in>db_spec_next ev S. db_spec_run evs S')"

definition sys_denotes :: "system \<Rightarrow> store \<Rightarrow> bool" where
  "sys_denotes s S \<longleftrightarrow>
     (\<forall>p\<in>owners (snd s). \<forall>q\<in>owners (snd s). p = q) \<and>
     (h_locked (fst s) \<longleftrightarrow> owners (snd s) \<noteq> {}) \<and>
     disk_denotes wal_filename (h_fs (fst s)) S \<and>
     (\<forall>p I. db_impl (snd s p) = Some I \<longrightarrow> denotes wal_filename (Opened (db_engine I, h_fs (fst s))) S)"

section \<open>The lock\<close>

lemma wal_filename_ok: "wal_path_ok wal_filename"
  by (simp add: wal_filename_def wal_path_ok_def manifest_path_def path_extension_def)

lemma lock_not_db:
  assumes "disk_state wal_filename f mf segs recs torn"
  shows "{lock_path} \<inter> db_files wal_filename mf = {}"
proof -
  have "lock_path \<notin> set (mf_segment_files mf)"
  proof
    assume "lock_path \<in> set (mf_segment_files mf)"
    then obtain g where "lock_path = segment_filename g" using live_names[OF assms] by blast
    then have "length lock_path = 32" using length_segment_filename[of g] by metis
    then show False by (simp add: lock_path_def)
  qed
  then show ?thesis by (simp add: db_files_def lock_path_def wal_filename_def manifest_path_def)
qed

lemma lock_frame:
  assumes "touches {lock_path} f f'"
  shows "disk_denotes wal_filename f S \<Longrightarrow> disk_denotes wal_filename f' S"
    "denotes wal_filename (Opened (E, f)) S \<Longrightarrow> denotes wal_filename (Opened (E, f')) S"
proof -
  have ds: "disk_state wal_filename f' mf segs recs torn" if "disk_state wal_filename f mf segs recs torn" for mf segs recs torn
    by (rule disk_state_frame[OF that assms lock_not_db[OF that]])
  then show dd: "disk_denotes wal_filename f S \<Longrightarrow> disk_denotes wal_filename f' S"
    unfolding disk_denotes_def by blast
  have "fs_file f' wal_filename = fs_file f wal_filename"
    using assms by (simp add: touches_def lock_path_def wal_filename_def)
  then show "denotes wal_filename (Opened (E, f)) S \<Longrightarrow> denotes wal_filename (Opened (E, f')) S"
    using ds dd by (fastforce simp: engine_inv_def log_holds_def)
qed

lemma sys_flock_effect:
  assumes "sys_flock h = (r, h')"
  shows "keeps_files (h_fs h) (h_fs h') \<and> h_entry h' = h_entry h \<and>
    (r = Locked \<longrightarrow> \<not> h_locked h \<and> h_locked h') \<and> (r \<noteq> Locked \<longrightarrow> h_locked h' = h_locked h) \<and>
    (fs_script (h_fs h) = [] \<longrightarrow> r = (if h_locked h then WouldBlock else Locked))"
proof -
  obtain oc f where o: "next_outcome (h_fs h) = (oc, f)" by force
  have "keeps_files (h_fs h) f" by (rule keeps_files_later[OF next_outcome_later[OF o]])
  then show ?thesis
    using assms o next_outcome_quiet[of "h_fs h"]
    by (auto simp: sys_flock_def split: os_outcome.splits if_splits)
qed

lemma on_dir_effect:
  "on_dir m h = (r, h') \<Longrightarrow> m (h_fs h) = (r, h_fs h') \<and> h_entry h' = h_entry h \<and> h_locked h' = h_locked h"
  by (auto simp: on_dir_def split: prod.splits)

lemma acquire_lock_effect:
  assumes "acquire_lock lock_path h = (r, h')"
  shows "touches {lock_path} (h_fs h) (h_fs h') \<and> h_entry h' = h_entry h \<and>
    (r = Inr () \<longrightarrow> \<not> h_locked h \<and> h_locked h') \<and> (\<forall>e. r = Inl e \<longrightarrow> h_locked h' = h_locked h) \<and>
    (fs_script (h_fs h) = [] \<longrightarrow>
       r = (if h_locked h then Inl (DatabaseBusyError ''database directory is already open'') else Inr ()))"
proof -
  obtain r1 f1 where 1: "sys_open_append lock_path (h_fs h) = (r1, f1)" by force
  obtain g where g: "later (h_fs h) g" "f1 = g \<or> f1 = (if fs_file g lock_path = None then fs_write lock_path [] g else g)"
    "fs_script (h_fs h) = [] \<longrightarrow> r1 = Ret 0"
    using sys_atomic_cases[OF 1[unfolded sys_open_append_def]] by blast
  have t1: "touches {lock_path} (h_fs h) f1"
    using g(1,2) touches_trans[OF touches_later[of "h_fs h" g "{}"] touches_write[of lock_path g "[]"]]
    by (auto simp: touches_later split: if_splits)
  obtain r2 h2 where 2: "sys_flock (h\<lparr>h_fs := f1\<rparr>) = (r2, h2)" by force
  note k2 = sys_flock_effect[OF 2, simplified]
  have t2: "touches {lock_path} (h_fs h) (h_fs h2)"
    using touches_trans[OF t1 keeps_files_touches[of f1 "h_fs h2" "{}"]] k2 by simp
  obtain r3 h3 where 3: "on_dir close_ignored h2 = (r3, h3)" by force
  note k3 = on_dir_effect[OF 3]
  have t3: "touches {lock_path} (h_fs h) (h_fs h3)"
    using touches_trans[OF t2 keeps_files_touches[OF close_ignored_keeps, of "h_fs h2" r3 "h_fs h3" "{}"]] k3 by simp
  have q: "r3 = Inr ()" if "fs_script (h_fs h) = []"
  proof -
    have "fs_script (h_fs h2) = []" using t2 that by (simp add: touches_def)
    then show ?thesis using k3 by (auto simp: close_ignored_def sys_close_def sys_atomic_def next_outcome_quiet)
  qed
  have q1: "fs_script f1 = []" if "fs_script (h_fs h) = []" using t1 that by (simp add: touches_def)
  show ?thesis
  proof (cases "\<exists>n. r1 = Ret n")
    case False
    then obtain e where "(r, h') = (Inl e, h\<lparr>h_fs := f1\<rparr>)" using assms 1 by (cases r1) (auto simp: acquire_lock_def)
    then show ?thesis using t1 False g(3) by auto
  next
    case True
    then have out: "(r, h') = (case r2 of Locked \<Rightarrow> (Inr (), h2) | FlockDied \<Rightarrow> (Inl Crashed, h2)
        | _ \<Rightarrow> (case r3 of Inl e \<Rightarrow> (Inl e, h3) | Inr _ \<Rightarrow> (Inl (if r2 = WouldBlock
             then DatabaseBusyError ''database directory is already open'' else SystemError ''failed to lock database directory''), h3)))"
      using assms 1 2 3 by (auto simp: acquire_lock_def act_bind_def split: flock_ret.splits sum.splits)
    show ?thesis
      using out t2 t3 k2 k3 q q1 by (cases r2; cases r3) auto
  qed
qed

lemma release_lock_effect:
  "keeps_files (h_fs h) (h_fs (release_lock h)) \<and> \<not> h_locked (release_lock h) \<and> h_entry (release_lock h) = h_entry h"
  by (auto simp: release_lock_def split: prod.splits dest!: sys_close_keeps intro: keeps_files_trans)

section \<open>Opening\<close>

lemma prepare_effect:
  assumes "prepare_database_directory dir h = (r, h')"
  shows "keeps_files (h_fs h) (h_fs h') \<and> h_locked h' = h_locked h \<and>
    (\<forall>w. r = Inr w \<longrightarrow> w = wal_filename \<and> h_entry h' = Directory)"
proof -
  obtain r1 f1 where 1: "sys_atomic (\<lambda>f. f) (h_fs h) = (r1, f1)" by force
  have "keeps_files (h_fs h) f1" using sys_atomic_cases[OF 1] by (auto intro: keeps_files_later)
  then show ?thesis
    using assms 1
    by (auto simp: prepare_database_directory_def act_bind_def keeps_files_def split: if_splits sysret.splits)
qed

lemma translate_result_simps [simp]:
  "translate_result (Inr x) = Inr x" "translate_result (Inl e) = Inl (translate_error e)"
  by (simp_all add: translate_result_def)

lemma translate_error_Crashed [simp]: "translate_error e = Crashed \<longleftrightarrow> e = Crashed"
  by (cases e) auto

lemma translate_result_Inr [simp]: "translate_result r = Inr x \<longleftrightarrow> r = Inr x"
  by (cases r) auto

lemma make_impl_effect:
  assumes run: "make_impl wal_filename opts h = (r, h')" and den: "disk_denotes wal_filename (h_fs h) S"
  shows "(h_locked h \<longrightarrow> touches {lock_path} (h_fs h) (h_fs h') \<and> h_locked h' \<and> (\<exists>e. r = Inl e)) \<and>
    (\<not> h_locked h \<longrightarrow> disk_denotes wal_filename (h_fs h') S \<and>
       (\<forall>I. r = Inr I \<longrightarrow> h_locked h' \<and> denotes wal_filename (Opened (db_engine I, h_fs h')) S \<and> \<not> se_failed (db_engine I)) \<and>
       (\<forall>e. r = Inl e \<and> e \<noteq> Crashed \<longrightarrow> \<not> h_locked h')) \<and> h_entry h' = h_entry h"
proof -
  obtain r1 h1 where 1: "acquire_lock lock_path h = (r1, h1)" by force
  note a = acquire_lock_effect[OF 1]
  show ?thesis
  proof (cases r1)
    case (Inl e)
    then have "(r, h') = (Inl e, h1)" using run 1 by (simp add: make_impl_def act_bind_def)
    then show ?thesis using a Inl lock_frame(1)[of "h_fs h" "h_fs h1" S] den by auto
  next
    case (Inr u)
    then have lk: "\<not> h_locked h" "h_locked h1" and d1: "disk_denotes wal_filename (h_fs h1) S"
      using a lock_frame(1)[of "h_fs h" "h_fs h1" S] den by auto
    obtain mf segs recs torn where ds: "disk_state wal_filename (h_fs h1) mf segs recs torn" "db_store segs recs = S"
      using d1 by (auto simp: disk_denotes_def)
    obtain r2 h2 where 2: "on_dir (open_engine wal_filename (to_internal_durability (durability opts))) h1 = (r2, h2)" by force
    note e2 = on_dir_effect[OF 2] and eff = open_engine_effect[OF ds(1) on_dir_effect[OF 2, THEN conjunct1]]
    have d2: "disk_denotes wal_filename (h_fs h2) S" using eff ds(2) unfolding disk_denotes_def by blast
    have d3: "disk_denotes wal_filename (h_fs (release_lock h2)) S"
      using lock_frame(1)[OF keeps_files_touches, of "h_fs h2"] release_lock_effect[of h2] d2 by blast
    have out: "(r, h') = (case r2 of Inl e \<Rightarrow> (Inl e, if e = Crashed then h2 else release_lock h2)
        | Inr E \<Rightarrow> (Inr \<lparr>db_engine = E, db_flush_threshold_samples = memtable_flush_threshold_samples opts\<rparr>, h2))"
      using run 1 2 Inr by (cases r2) (auto simp: make_impl_def act_bind_def act_on_error_def)
    show ?thesis
    proof (cases r2)
      case (Inl e)
      then show ?thesis using out lk d2 d3 release_lock_effect[of h2] a e2 by auto
    next
      case (Inr E)
      then have "engine_inv wal_filename (E, h_fs h2) segs recs" using eff by blast
      then have "denotes wal_filename (Opened (E, h_fs h2)) S" "\<not> se_failed E"
        using ds(2) by (auto simp: engine_inv_def)
      then show ?thesis using out Inr lk d2 e2 a by simp
    qed
  qed
qed

lemma open_database_effect:
  assumes run: "open_database dir opts h = (r, h')" and den: "disk_denotes wal_filename (h_fs h) S"
  shows "(h_locked h \<longrightarrow> touches {lock_path} (h_fs h) (h_fs h') \<and> h_locked h' \<and> (\<exists>e. r = Inl e)) \<and>
    (\<not> h_locked h \<longrightarrow> disk_denotes wal_filename (h_fs h') S \<and>
       (\<forall>D. r = Inr D \<longrightarrow> h_locked h' \<and> h_entry h' = Directory \<and> (\<exists>I. db_impl D = Some I \<and>
          denotes wal_filename (Opened (db_engine I, h_fs h')) S \<and> \<not> se_failed (db_engine I))) \<and>
       (\<forall>e. r = Inl e \<and> e \<noteq> Crashed \<longrightarrow> \<not> h_locked h'))"
proof -
  obtain r1 h1 where 1: "prepare_database_directory dir h = (r1, h1)" by force
  note p = prepare_effect[OF 1]
  have d1: "disk_denotes wal_filename (h_fs h1) S" and t1: "touches {lock_path} (h_fs h) (h_fs h1)"
    using lock_frame(1)[OF keeps_files_touches, of "h_fs h" "h_fs h1" S] p den keeps_files_touches by blast+
  show ?thesis
  proof (cases r1)
    case (Inl e)
    then have "(r, h') = (Inl e, h1)" using run 1 by (simp add: open_database_def act_bind_def)
    then show ?thesis using t1 d1 p by simp
  next
    case (Inr w)
    then have w: "w = wal_filename" using p by simp
    obtain r2 h2 where 2: "make_impl wal_filename opts h1 = (r2, h2)" by force
    note m = make_impl_effect[OF 2 d1]
    have out: "(r, h') = (map_sum translate_error (\<lambda>I. \<lparr>db_impl = Some I\<rparr>) r2, h2)"
      using run 1 2 Inr w by (cases r2) (auto simp: open_database_def act_bind_def translate_corruption_def)
    have t2: "touches {lock_path} (h_fs h) (h_fs h2)" if "h_locked h"
      using touches_trans[OF t1, of "{lock_path}" "h_fs h2"] m that p by simp
    show ?thesis
      using out m t2 p Inr by (cases r2) auto
  qed
qed

section \<open>Operations\<close>

lemma on_engine_effect:
  assumes "on_engine (run_op p) (I, h) = (r, (I', h'))"
  shows "run_op p (db_engine I, h_fs h) = (r, (db_engine I', h_fs h'))"
    "h_locked h' = h_locked h" "db_flush_threshold_samples I' = db_flush_threshold_samples I"
  using assms by (auto simp: on_engine_def split: prod.splits)

lemma translated_effect:
  assumes "translate_corruption (on_engine (run_op p)) (I, h) = (r, (I', h'))"
  obtains r0 where "run_op p (db_engine I, h_fs h) = (r0, (db_engine I', h_fs h'))" "r = translate_result r0"
    "h_locked h' = h_locked h" "db_flush_threshold_samples I' = db_flush_threshold_samples I"
  using assms by (cases "on_engine (run_op p) (I, h)") (auto simp: translate_corruption_def dest: on_engine_effect)

text \<open>What one engine operation under the facade does to the store.\<close>

definition op_outcome :: "engine_op \<Rightarrow> store \<Rightarrow> unit result \<Rightarrow> DatabaseImpl \<Rightarrow> host \<Rightarrow> bool" where
  "op_outcome p S r I h \<longleftrightarrow>
     (r = Inr () \<longrightarrow> (\<exists>S'\<in>spec_next (Returned p) S. denotes wal_filename (Opened (db_engine I, h_fs h)) S')) \<and>
     (\<forall>e. r = Inl e \<longrightarrow> (\<exists>S'\<in>spec_next (Failed p) S. disk_denotes wal_filename (h_fs h) S') \<and>
        (e \<noteq> Crashed \<longrightarrow> se_failed (db_engine I)))"

lemma op_outcome_translate: "op_outcome p S r I h \<Longrightarrow> op_outcome p S (translate_result r) I h"
  by (cases r) (auto simp: op_outcome_def)

lemma run_op_outcome:
  assumes "denotes wal_filename (Opened (db_engine I, h_fs h)) S" "op_wf p"
    and "run_op p (db_engine I, h_fs h) = (r, (db_engine I', h_fs h'))"
  shows "op_outcome p S r I' h'"
  using run_op_effect[OF assms] by (simp add: op_outcome_def)

lemma engine_counts_usable:
  "engine_memtable_sample_count s = Inl e \<Longrightarrow> se_failed (fst s)"
  by (auto simp: engine_memtable_sample_count_def engine_ensure_usable_def split: if_splits)

lemma returned_usable:
  assumes "denotes wal_filename (Opened s) S" "op_wf p" "run_op p s = (Inr (), s')"
  shows "\<not> se_failed (fst s')"
proof
  assume f: "se_failed (fst s')"
  have u: "\<not> se_failed (fst s)" using failed_refuses[of s p] assms(3) by auto
  then obtain segs recs where inv: "engine_inv wal_filename s segs recs" using assms(1) by auto
  have "\<exists>segs' recs'. engine_inv wal_filename s' segs' recs'"
  proof (cases p)
    case (Put k x)
    then show ?thesis
      using engine_put_effect[OF inv, of k x "Inr ()" s', THEN conjunct2, THEN conjunct1] assms(2,3) by auto
  next
    case Sync
    then show ?thesis using engine_sync_effect[OF inv, of "Inr ()" s', THEN conjunct2, THEN conjunct1] assms(3) by auto
  next
    case Flush
    then show ?thesis using engine_flush_effect[OF inv, of "Inr ()" s', THEN conjunct2, THEN conjunct1] assms(3) by auto
  next
    case Compact
    then show ?thesis using engine_compact_effect[OF inv, of "Inr ()" s', THEN conjunct2, THEN conjunct1] assms(3) by auto
  qed
  then show False using f by (auto simp: engine_inv_def)
qed

lemma flushed_count:
  assumes "denotes wal_filename (Opened s) S" "\<not> se_failed (fst s)" "run_op Flush s = (Inr (), s')"
  shows "engine_memtable_sample_count s' = Inr 0"
proof -
  obtain segs recs where inv: "engine_inv wal_filename s segs recs" using assms(1,2) by auto
  obtain segs' where "engine_inv wal_filename s' segs' []"
    using engine_flush_effect[OF inv, of "Inr ()" s', THEN conjunct2, THEN conjunct1] assms(3) by auto
  then show ?thesis using engine_inv_counts(4) by (simp add: store_keys_def)
qed

text \<open>A write with its automatic flush.\<close>

lemma impl_put_effect:
  assumes den: "denotes wal_filename (Opened (db_engine I, h_fs h)) S" and wf: "series_wf k" "sample_wf x"
    and run: "impl_put k x (I, h) = (r, (I', h'))"
  shows "op_outcome (Put k x) S r I' h' \<and> h_locked h' = h_locked h \<and>
    (r = Inr () \<and> db_flush_threshold_samples I \<noteq> 0 \<longrightarrow>
       (\<exists>n < db_flush_threshold_samples I. engine_memtable_sample_count (db_engine I', h_fs h') = Inr n))"
proof -
  have opwf: "op_wf (Put k x)" using wf by simp
  obtain r1 I1 h1 where 1: "translate_corruption (on_engine (run_op (Put k x))) (I, h) = (r1, (I1, h1))" by (rule prod_cases3)
  obtain r0 where r0: "run_op (Put k x) (db_engine I, h_fs h) = (r0, (db_engine I1, h_fs h1))" "r1 = translate_result r0"
    "h_locked h1 = h_locked h" "db_flush_threshold_samples I1 = db_flush_threshold_samples I"
    by (rule translated_effect[OF 1])
  have o1: "op_outcome (Put k x) S r1 I1 h1" using run_op_outcome[OF den opwf r0(1)] op_outcome_translate r0(2) by simp
  show ?thesis
  proof (cases r1)
    case (Inl e)
    then have "(r, (I', h')) = (r1, (I1, h1))" using run 1 by (simp add: impl_put_def act_bind_def)
    then show ?thesis using o1 r0(3) Inl by simp
  next
    case (Inr u)
    then have ok: "r0 = Inr ()" using r0(2) by (cases r0) auto
    have us: "\<not> se_failed (db_engine I1)" using returned_usable[OF den opwf] r0(1) ok by fastforce
    then obtain n where n: "engine_memtable_sample_count (db_engine I1, h_fs h1) = Inr n"
      using engine_counts_usable[of "(db_engine I1, h_fs h1)"] by (cases "engine_memtable_sample_count (db_engine I1, h_fs h1)") auto
    let ?T = "db_flush_threshold_samples I"
    show ?thesis
    proof (cases "?T \<noteq> 0 \<and> n \<ge> ?T")
      case False
      then have "(r, (I', h')) = (Inr (), (I1, h1))"
        using run 1 Inr n r0(4) by (auto simp: impl_put_def act_bind_def)
      then show ?thesis using o1 r0(3) Inr n False by auto
    next
      case True
      then have fl: "translate_corruption (on_engine (run_op Flush)) (I1, h1) = (r, (I', h'))"
        using run 1 Inr n r0(4) by (simp add: impl_put_def act_bind_def)
      obtain r2 where r2: "run_op Flush (db_engine I1, h_fs h1) = (r2, (db_engine I', h_fs h'))" "r = translate_result r2"
        "h_locked h' = h_locked h1"
        by (rule translated_effect[OF fl])
      have d1: "denotes wal_filename (Opened (db_engine I1, h_fs h1)) (store_put k x S)"
        using o1 Inr by (simp add: op_outcome_def del: denotes.simps)
      have "op_outcome Flush (store_put k x S) r2 I' h'" by (rule run_op_outcome[OF d1 _ r2(1)]) simp
      then have "op_outcome (Put k x) S r I' h'"
        using op_outcome_translate[of Flush "store_put k x S" r2 I' h'] r2(2)
        by (auto simp: op_outcome_def simp del: denotes.simps)
      moreover have "engine_memtable_sample_count (db_engine I', h_fs h') = Inr 0" if "r = Inr ()"
      proof -
        have "r2 = Inr ()" using that r2(2) by (cases r2) auto
        then show ?thesis using flushed_count[OF d1] us r2(1) by simp
      qed
      ultimately show ?thesis using r0(3) r2(3) True by auto
    qed
  qed
qed

lemma run_db_op_effect:
  assumes den: "denotes wal_filename (Opened (db_engine I, h_fs h)) S" and wf: "db_op_wf a"
    and run: "run_db_op a (\<lparr>db_impl = Some I\<rparr>, h) = (r, (D, h'))"
  shows "\<exists>I'. D = \<lparr>db_impl = Some I'\<rparr> \<and> h_locked h' = h_locked h \<and>
    (r = Inr () \<longrightarrow> (\<exists>S'\<in>db_spec_next (DbReturned p a) S. denotes wal_filename (Opened (db_engine I', h_fs h')) S')) \<and>
    (\<forall>e. r = Inl e \<longrightarrow> (\<exists>S'\<in>db_spec_next (DbFailed p a e) S. disk_denotes wal_filename (h_fs h') S') \<and>
       (e \<noteq> Crashed \<longrightarrow> se_failed (db_engine I')))"
proof -
  have trans: "op_outcome q S r I' h' \<and> h_locked h' = h_locked h"
    if "translate_corruption (on_engine (run_op q)) (I, h) = (r, (I', h'))" "op_wf q" for q r I' h'
    using translated_effect[OF that(1)] run_op_outcome[OF den that(2)] op_outcome_translate by metis
  have plain: "op_outcome q S r I' h' \<and> h_locked h' = h_locked h"
    if "on_engine (run_op q) (I, h) = (r, (I', h'))" "op_wf q" for q r I' h'
    using on_engine_effect[OF that(1)] run_op_outcome[OF den that(2)] by metis
  have impl: "with_impl m (\<lparr>db_impl = Some I\<rparr>, h) = (r, (D, h')) \<Longrightarrow>
      \<exists>I'. D = \<lparr>db_impl = Some I'\<rparr> \<and> m (I, h) = (r, (I', h'))" for m :: "(DatabaseImpl \<times> host, unit) act" and r D h'
    by (auto simp: with_impl_def implementation_def split: prod.splits)
  show ?thesis
  proof (cases a)
    case (DbPut k x)
    then obtain I' where "D = \<lparr>db_impl = Some I'\<rparr>" "impl_put k x (I, h) = (r, (I', h'))"
      using impl[of "impl_put k x" r D h'] run by (auto simp: database_put_def)
    then show ?thesis using impl_put_effect[OF den, of k x r I' h'] wf DbPut by (simp add: op_outcome_def del: denotes.simps)
  next
    case DbSync
    then obtain I' where "D = \<lparr>db_impl = Some I'\<rparr>" "on_engine (run_op Sync) (I, h) = (r, (I', h'))"
      using impl[of "on_engine engine_sync" r D h'] run by (auto simp: database_sync_def)
    then show ?thesis using plain[of Sync] DbSync by (simp add: op_outcome_def del: denotes.simps)
  next
    case DbFlush
    then obtain I' where "D = \<lparr>db_impl = Some I'\<rparr>" "translate_corruption (on_engine (run_op Flush)) (I, h) = (r, (I', h'))"
      using impl[of "translate_corruption (on_engine engine_flush)" r D h'] run by (auto simp: database_flush_def)
    then show ?thesis using trans[of Flush] DbFlush by (simp add: op_outcome_def del: denotes.simps)
  next
    case DbCompact
    then obtain I' where "D = \<lparr>db_impl = Some I'\<rparr>" "translate_corruption (on_engine (run_op Compact)) (I, h) = (r, (I', h'))"
      using impl[of "translate_corruption (on_engine engine_compact)" r D h'] run by (auto simp: database_compact_def)
    then show ?thesis using trans[of Compact] DbCompact by (simp add: op_outcome_def del: denotes.simps)
  qed
qed

lemma run_db_op_closed:
  "db_impl D = None \<Longrightarrow> run_db_op a (D, h) = (Inl (LogicError ''database has been moved from''), (D, h))"
  by (cases a) (simp_all add: database_put_def database_sync_def database_flush_def database_compact_def
      with_impl_def implementation_def)

section \<open>Refinement\<close>

lemma sys_denotes_disk: "sys_denotes (h, objs) S \<Longrightarrow> disk_denotes wal_filename (h_fs h) S"
  by (simp add: sys_denotes_def)

lemma owner_iff: "p \<in> owners objs \<longleftrightarrow> (\<exists>I. objs p = \<lparr>db_impl = Some I\<rparr>)"
  by (cases "objs p") (auto simp: owners_def)

lemma owners_update:
  "owners (objs(p := D)) = (if db_impl D = None then owners objs - {p} else insert p (owners objs))"
  by (auto simp: owners_def)

text \<open>One process owns the database, or none does.\<close>

lemma sys_denotesI_owner:
  assumes "owners objs \<subseteq> {p}" "objs p = \<lparr>db_impl = Some I\<rparr>" "h_locked h"
    and "denotes wal_filename (Opened (db_engine I, h_fs h)) S"
  shows "sys_denotes (h, objs) S"
proof -
  have o: "owners objs = {p}" using assms(1,2) by (auto simp: owner_iff)
  have "objs q = \<lparr>db_impl = Some I\<rparr>" if "db_impl (objs q) = Some J" for q J
    using that o assms(2) by (auto simp: owners_def)
  then show ?thesis
    using assms(2-4) o denotes_disk[OF assms(4)] by (fastforce simp: sys_denotes_def simp del: denotes.simps)
qed

lemma sys_denotesI_free:
  assumes "owners objs = {}" "\<not> h_locked h" "disk_denotes wal_filename (h_fs h) S"
  shows "sys_denotes (h, objs) S"
  using assms by (auto simp: sys_denotes_def owners_def simp del: denotes.simps)

lemma sys_denotes_frame:
  assumes "sys_denotes (h, objs) S" "touches {lock_path} (h_fs h) (h_fs h')" "h_locked h' = h_locked h"
  shows "sys_denotes (h', objs) S"
  using assms lock_frame[OF assms(2)] by (simp add: sys_denotes_def del: denotes.simps)

lemma owned:
  assumes "sys_denotes (h, objs) S" "db_impl (objs p) = Some I"
  shows "owners objs = {p}" "h_locked h" "denotes wal_filename (Opened (db_engine I, h_fs h)) S" "objs p = \<lparr>db_impl = Some I\<rparr>"
proof -
  have p: "p \<in> owners objs" using assms(2) by (simp add: owners_def)
  then show "owners objs = {p}" "h_locked h" using assms(1) by (auto simp: sys_denotes_def simp del: denotes.simps)
  show "denotes wal_filename (Opened (db_engine I, h_fs h)) S"
    using assms by (simp add: sys_denotes_def del: denotes.simps)
  show "objs p = \<lparr>db_impl = Some I\<rparr>" using assms(2) by (cases "objs p") simp
qed

lemma opened_refines:
  assumes den: "sys_denotes (h, objs) S" and "p \<notin> owners objs" and run: "open_database dir opts h = (Inr D, h')"
  shows "sys_denotes (h', objs(p := D)) S"
proof -
  note e = open_database_effect[OF run sys_denotes_disk[OF den]]
  then have nl: "\<not> h_locked h" by auto
  then have no: "owners objs = {}" using den by (simp add: sys_denotes_def)
  obtain I where I: "db_impl D = Some I" "h_locked h'" "denotes wal_filename (Opened (db_engine I, h_fs h')) S"
    using e nl by blast
  show ?thesis
  proof (rule sys_denotesI_owner)
    show "(objs(p := D)) p = \<lparr>db_impl = Some I\<rparr>" using I(1) by (cases D) simp
  qed (use I no in \<open>simp_all add: owners_update del: denotes.simps\<close>)
qed

lemma open_failed_refines:
  assumes den: "sys_denotes (h, objs) S" and p: "p \<notin> owners objs" and run: "open_database dir opts h = (Inl e, h')"
  shows "e \<noteq> Crashed \<Longrightarrow> sys_denotes (h', objs) S" "e = Crashed \<Longrightarrow> sys_denotes (drop_locks p objs h', objs) S"
proof -
  note eff = open_database_effect[OF run sys_denotes_disk[OF den]]
  have np: "owners objs - {p} = owners objs" using p by simp
  have lk: "h_locked h \<longleftrightarrow> owners objs \<noteq> {}" using den by (simp add: sys_denotes_def)
  have dl: "h_locked (drop_locks p objs h') = h_locked h" "h_fs (drop_locks p objs h') = h_fs h'"
    using lk np by (simp_all add: drop_locks_def)
  show "e \<noteq> Crashed \<Longrightarrow> sys_denotes (h', objs) S"
    using eff sys_denotes_frame[OF den, of h'] sys_denotesI_free[of objs h' S] lk by (cases "h_locked h") simp_all
  show "e = Crashed \<Longrightarrow> sys_denotes (drop_locks p objs h', objs) S"
    using eff sys_denotes_frame[OF den, of "drop_locks p objs h'"] sys_denotesI_free[of objs "drop_locks p objs h'" S] lk dl
    by (cases "h_locked h") simp_all
qed

lemma returned_refines:
  assumes den: "sys_denotes (h, objs) S" and wf: "db_op_wf a" and run: "run_db_op a (objs p, h) = (Inr (), (D, h'))"
  shows "\<exists>S'\<in>db_spec_next (DbReturned p a) S. sys_denotes (h', objs(p := D)) S'"
proof -
  obtain I where I: "db_impl (objs p) = Some I" using run_db_op_closed[of "objs p" a h] run by fastforce
  note o = owned[OF den I]
  obtain I' S' where D: "D = \<lparr>db_impl = Some I'\<rparr>" "h_locked h'" "S' \<in> db_spec_next (DbReturned p a) S"
    "denotes wal_filename (Opened (db_engine I', h_fs h')) S'"
    using run_db_op_effect[OF o(3) wf run[unfolded o(4)], of p] o(2) by auto
  have "sys_denotes (h', objs(p := D)) S'"
    by (rule sys_denotesI_owner[of _ p I']) (use D o(1) in \<open>simp_all add: owners_update del: denotes.simps\<close>)
  then show ?thesis using D(3) by blast
qed

lemma failed_refines:
  assumes den: "sys_denotes (h, objs) S" and wf: "db_op_wf a" and run: "run_db_op a (objs p, h) = (Inl e, (D, h'))"
  shows "e \<noteq> Crashed \<Longrightarrow> \<exists>S'\<in>db_spec_next (DbFailed p a e) S. sys_denotes (h', objs(p := D)) S'"
    "e = Crashed \<Longrightarrow> \<exists>S'\<in>db_spec_next (DbDied p a) S. sys_denotes (drop_locks p objs h', objs(p := closed)) S'"
proof -
  have same: "S \<in> db_spec_next (DbFailed p a e) S" "db_spec_next (DbDied p a) S = db_spec_next (DbFailed p a e) S"
    by (cases a; simp)+
  have "(e \<noteq> Crashed \<longrightarrow> (\<exists>S'\<in>db_spec_next (DbFailed p a e) S. sys_denotes (h', objs(p := D)) S')) \<and>
    (e = Crashed \<longrightarrow> (\<exists>S'\<in>db_spec_next (DbDied p a) S. sys_denotes (drop_locks p objs h', objs(p := closed)) S'))"
  proof (cases "db_impl (objs p)")
    case None
    then have "e \<noteq> Crashed" "D = objs p" "h' = h" using run_db_op_closed[OF None, of a h] run by auto
    then show ?thesis using den same(1) by auto
  next
    case (Some I)
    note o = owned[OF den Some]
    obtain I' S' where D: "D = \<lparr>db_impl = Some I'\<rparr>" "h_locked h'" "S' \<in> db_spec_next (DbFailed p a e) S"
      "disk_denotes wal_filename (h_fs h') S'" "e \<noteq> Crashed \<Longrightarrow> se_failed (db_engine I')"
      using run_db_op_effect[OF o(3) wf run[unfolded o(4)], of p] o(2) by auto
    have "sys_denotes (h', objs(p := D)) S'" if "e \<noteq> Crashed"
      by (rule sys_denotesI_owner[of _ p I']) (use D o(1) that in \<open>simp_all add: owners_update\<close>)
    moreover have "sys_denotes (drop_locks p objs h', objs(p := closed)) S'"
      by (rule sys_denotesI_free) (use D o(1) in \<open>simp_all add: owners_update drop_locks_def\<close>)
    ultimately show ?thesis using D(3) same(2) by blast
  qed
  then show "e \<noteq> Crashed \<Longrightarrow> \<exists>S'\<in>db_spec_next (DbFailed p a e) S. sys_denotes (h', objs(p := D)) S'"
    "e = Crashed \<Longrightarrow> \<exists>S'\<in>db_spec_next (DbDied p a) S. sys_denotes (drop_locks p objs h', objs(p := closed)) S'" by blast+
qed

lemma closed_refines:
  assumes den: "sys_denotes (h, objs) S"
  shows "sys_denotes (close_database (objs p) h, objs(p := closed)) S"
proof (cases "db_impl (objs p)")
  case None
  then have "objs(p := closed) = objs" by (cases "objs p") (auto simp: fun_eq_iff)
  then show ?thesis using None den by (simp add: close_database_def)
next
  case (Some I)
  have "disk_denotes wal_filename (h_fs (release_lock h)) S"
    using lock_frame(1)[OF keeps_files_touches, of "h_fs h"] release_lock_effect[of h] sys_denotes_disk[OF den] by blast
  then show ?thesis
    using Some owned(1)[OF den Some] release_lock_effect[of h]
    by (intro sys_denotesI_free) (simp_all add: owners_update close_database_def)
qed

lemma environment_refines:
  assumes "sys_denotes (h, objs) S"
  shows "sys_denotes (h\<lparr>h_fs := (h_fs h)\<lparr>fs_script := os\<rparr>, h_exists_fault := a, h_is_directory_fault := b\<rparr>, objs) S"
proof -
  have "denotes wal_filename (Opened (E, (h_fs h)\<lparr>fs_script := os\<rparr>)) S" if "denotes wal_filename (Opened (E, h_fs h)) S" for E
    using step_refines[OF step_env_opened[of wal_filename buffered "(E, h_fs h)" os] that] by simp
  then show ?thesis
    using assms disk_denotes_script[of wal_filename "h_fs h" S os] by (simp add: sys_denotes_def del: denotes.simps)
qed

lemma sys_step_refines:
  "sys_step dir s ev s' \<Longrightarrow> sys_denotes s S \<Longrightarrow> \<exists>S'\<in>db_spec_next ev S. sys_denotes s' S'"
proof (induction rule: sys_step.induct)
  case (sys_died a objs p h D h')
  then show ?case using failed_refines(2)[OF sys_died(3,1,2)] by simp
qed (simp_all add: opened_refines open_failed_refines returned_refines failed_refines(1) closed_refines environment_refines)

lemma sys_steps_refine:
  "sys_steps dir s evs s' \<Longrightarrow> sys_denotes s S \<Longrightarrow> \<exists>S'\<in>db_spec_run evs S. sys_denotes s' S'"
proof (induction arbitrary: S rule: sys_steps.induct)
  case (sys_steps_Cons s ev s1 evs s2)
  then show ?case using sys_step_refines by fastforce
qed simp

section \<open>New systems\<close>

text \<open>A path at which nothing is, or an empty directory, and no process has it open.\<close>

definition new_system :: "system \<Rightarrow> bool" where
  "new_system s \<longleftrightarrow> new_directory (h_fs (fst s)) \<and> \<not> h_locked (fst s) \<and> owners (snd s) = {}"

lemma new_system_denotes: "new_system s \<Longrightarrow> sys_denotes s (\<lambda>_. Map.empty)"
  using new_directory_denotes[OF _ wal_filename_ok, of "h_fs (fst s)"]
  by (cases s) (auto simp: new_system_def intro: sys_denotesI_free)

end
