(* ===== verification/EngineDemo.thy ===== *)
theory EngineDemo
  imports EngineProperties
begin

text \<open>
  A concrete history: a database that writes, flushes, writes and flushes again, and so has two
  segments to compact.  It instantiates the theorems about flush and compaction.
\<close>

section \<open>The blocks of one sample\<close>

definition one_block :: SegmentBlock where
  "one_block = SegmentBlock (wal_series demo_record) [wal_sample demo_record]"

lemma one_block_ok: "segment_ok [one_block]"
  by (simp add: one_block_def demo_record_def segment_ok_def block_ok_def block_fits_def block_payload_bytes_def
      block_wf_def series_wf_def sample_wf_def isfinite_def max_samples_per_segment_block_def
      series_bytes_def max_segment_block_payload_size_def max_segment_block_count_def
      max_index_payload_size_def index_payload_bytes_def entry_bytes_def)

definition one_sample :: series_map where
  "one_sample = [(wal_series demo_record, [(timestamp (wal_sample demo_record), sample_value (wal_sample demo_record))])]"

lemma one_sample_blocks: "blocks_from_snapshots (map entry_snapshot one_sample) = Inr [one_block]"
  by (simp add: one_sample_def one_block_def demo_record_def blocks_from_snapshots_def entry_snapshot_def
      snapshot_blocks.simps max_samples_per_segment_block_def make_SegmentBlock_def)

lemma one_sample_unique:
  "sm_inv m \<Longrightarrow> sm_nonempty m \<Longrightarrow> sm_content m = records_store [demo_record] \<Longrightarrow> m = one_sample"
  by (rule sm_ext) (auto simp: one_sample_def sm_inv_def sm_nonempty_def sm_content_def sm_samples_def
      records_store_def store_put_def fun_eq_iff)

lemma demo_record_keys:
  "store_keys (records_store [demo_record]) = {(wal_series demo_record, timestamp (wal_sample demo_record))}"
  by (auto simp: store_keys_def records_store_def store_put_def split: if_splits)

lemma demo_memtable_blocks:
  assumes "engine_inv path s segs [demo_record]"
  shows "make_memtable_blocks (fst s) = Inr [one_block]"
proof -
  have m: "memtable_inv (se_memtable (fst s))" "memtable_content (se_memtable (fst s)) = records_store [demo_record]"
    using assms by (auto simp: engine_inv_def)
  then have "mt_series (se_memtable (fst s)) = one_sample"
    using one_sample_unique by (simp add: memtable_inv_def memtable_content_def)
  then show ?thesis
    using merged_snapshots_correct[OF memtable_wf[OF m(1)]] one_sample_blocks
    by (simp add: make_memtable_blocks_def memtable_snapshot_merged)
qed

lemma demo_compacted_blocks:
  assumes inv: "engine_inv path s segs recs" and c: "segs_store segs = records_store [demo_record]"
  shows "compacted_blocks s = Inr [one_block]"
proof -
  obtain m where m: "merge_segments (readers segs) (snd s) = Inr m" "sm_wf m" "sm_content m = segs_store segs"
    using merge_segments_correct[of segs "snd s"] inv by (auto simp: engine_inv_def disk_state_def segs_ok_def)
  have "m = one_sample" using one_sample_unique m(2,3) c by (simp add: sm_wf_def)
  moreover have "se_segments (fst s) = readers segs" using inv by (simp add: engine_inv_def)
  ultimately show ?thesis
    using m(1) merged_snapshots_correct[OF m(2)] one_sample_blocks by (simp add: compacted_blocks_def)
qed

section \<open>Writing and flushing\<close>

lemma demo_quiet:
  assumes "steps path d c0 evs (Opened s)" "engine_inv path s segs recs"
  shows "\<exists>s'. steps path d c0 (evs @ [Environment]) (Opened s') \<and> engine_inv path s' segs recs \<and>
    fst s' = fst s \<and> fs_script (snd s') = []"
proof -
  have "step path d (Opened s) Environment (Opened (fst s, (snd s)\<lparr>fs_script := []\<rparr>))" by (rule step_env_opened)
  from steps_snoc[OF assms(1) this] engine_inv_script[of path "fst s" "snd s" segs recs "[]"] assms(2) show ?thesis
    by (intro exI[of _ "(fst s, (snd s)\<lparr>fs_script := []\<rparr>)"]) simp
qed

lemma demo_write:
  assumes run: "steps demo_path d c0 evs (Opened s)" and inv: "engine_inv demo_path s segs []"
  shows "\<exists>s'. steps demo_path d c0 (evs @ [Environment, Returned demo_put, Environment]) (Opened s') \<and>
    engine_inv demo_path s' segs [demo_record] \<and> se_manifest (fst s') = se_manifest (fst s) \<and> fs_script (snd s') = []"
proof -
  obtain s1 where s1: "steps demo_path d c0 (evs @ [Environment]) (Opened s1)" "engine_inv demo_path s1 segs []"
    "fst s1 = fst s" "fs_script (snd s1) = []" using demo_quiet[OF run inv] by blast
  obtain r s2 where put: "engine_put (wal_series demo_record) (wal_sample demo_record) s1 = (r, s2)" by (metis surj_pair)
  note eff = engine_put_effect[OF s1(2) demo_put_wf(2,3) put]
  have r: "r = Inr ()"
    using eff[THEN conjunct2, THEN conjunct2, THEN conjunct2] demo_record_ok(2) length_demo_record s1(4) by simp
  have inv2: "engine_inv demo_path s2 segs [demo_record]" "se_manifest (fst s2) = se_manifest (fst s1)"
    using eff[THEN conjunct2, THEN conjunct1] r by simp_all
  have "step demo_path d (Opened s1) (Returned demo_put) (Opened s2)"
    by (rule step_returned) (use demo_put_wf(1) put r in auto)
  from demo_quiet[OF steps_snoc[OF s1(1) this] inv2(1)] inv2(2) s1(3) show ?thesis by auto
qed

lemma demo_write_flush:
  assumes run: "steps demo_path d c0 evs (Opened s)" and inv: "engine_inv demo_path s segs []"
    and small: "length segs < 5" "mf_generation (se_manifest (fst s)) < 5"
  shows "\<exists>s' segs'. steps demo_path d c0 (evs @ [Environment, Returned demo_put, Environment, Returned Flush, Environment]) (Opened s') \<and>
    engine_inv demo_path s' segs' [] \<and> db_store segs' [] = db_store segs [demo_record] \<and> length segs' = Suc (length segs) \<and>
    mf_generation (se_manifest (fst s')) = mf_generation (se_manifest (fst s)) + 1 \<and> fs_script (snd s') = []"
proof -
  obtain s1 where s1: "steps demo_path d c0 (evs @ [Environment, Returned demo_put, Environment]) (Opened s1)"
    "engine_inv demo_path s1 segs [demo_record]" "se_manifest (fst s1) = se_manifest (fst s)" "fs_script (snd s1) = []"
    using demo_write[OF run inv] by blast
  obtain r s2 where fl: "engine_flush s1 = (r, s2)" by (metis surj_pair)
  have "mf_generation (se_manifest (fst s)) \<noteq> 0xFFFFFFFFFFFFFFFF" using small(2) by auto
  note eff = engine_flush_effect[OF s1(2) fl]
  have r: "r = Inr ()"
    using eff[THEN conjunct2, THEN conjunct2, THEN conjunct2] s1(3,4) demo_memtable_blocks[OF s1(2)] one_block_ok small(1)
      \<open>mf_generation (se_manifest (fst s)) \<noteq> 0xFFFFFFFFFFFFFFFF\<close>
    by (simp add: max_manifest_segments_def)
  then obtain segs' where inv2: "engine_inv demo_path s2 segs' []" "db_store segs' [] = db_store segs [demo_record]"
    and mf: "se_manifest (fst s2) = flush_manifest (fst s1)"
    using eff[THEN conjunct2, THEN conjunct1] by auto
  have "map fst segs = mf_segment_files (se_manifest (fst s1))" "map fst segs' = mf_segment_files (se_manifest (fst s2))"
    using s1(2) inv2(1) by (simp_all add: engine_inv_def disk_state_def segs_ok_def)
  then have "length (map fst segs') = Suc (length (map fst segs))" unfolding mf by (simp add: flush_manifest_def)
  then have len: "length segs' = Suc (length segs)" by simp
  have "step demo_path d (Opened s1) (Returned Flush) (Opened s2)"
    by (rule step_returned) (use fl r in simp_all)
  from demo_quiet[OF steps_snoc[OF s1(1) this] inv2(1)] obtain s3 where
    "steps demo_path d c0 (evs @ [Environment, Returned demo_put, Environment, Returned Flush, Environment]) (Opened s3)"
    "engine_inv demo_path s3 segs' []" "fst s3 = fst s2" "fs_script (snd s3) = []" by auto
  moreover have "mf_generation (se_manifest (fst s3)) = mf_generation (se_manifest (fst s)) + 1"
    using \<open>fst s3 = fst s2\<close> mf s1(3) by (simp add: flush_manifest_def)
  ultimately show ?thesis using inv2(2) len by blast
qed

lemma demo_two_segments:
  "\<exists>s evs segs. steps demo_path sync_on_append (Closed (empty_directory [])) evs (Opened s) \<and>
     engine_inv demo_path s segs [] \<and> length segs = 2 \<and> compacted_blocks s = Inr [one_block] \<and>
     mf_generation (se_manifest (fst s)) = 2 \<and> fs_script (snd s) = []"
proof -
  obtain E f where o: "steps demo_path sync_on_append (Closed (empty_directory [])) [Open, Environment] (Opened (E, f))"
    "engine_inv demo_path (E, f) [] []" "se_manifest E = empty_manifest" using demo_open_runs by blast
  obtain s1 segs1 evs1 where 1: "steps demo_path sync_on_append (Closed (empty_directory [])) evs1 (Opened s1)"
    "engine_inv demo_path s1 segs1 []" "db_store segs1 [] = db_store [] [demo_record]" "length segs1 = 1"
    "mf_generation (se_manifest (fst s1)) = 1"
    using demo_write_flush[OF o(1,2)] o(3) by (auto simp: empty_manifest_def)
  obtain s2 segs2 evs2 where 2: "steps demo_path sync_on_append (Closed (empty_directory [])) evs2 (Opened s2)"
    "engine_inv demo_path s2 segs2 []" "db_store segs2 [] = db_store segs1 [demo_record]" "length segs2 = 2"
    "mf_generation (se_manifest (fst s2)) = 2" "fs_script (snd s2) = []"
    using demo_write_flush[OF 1(1,2)] 1(4,5) by auto
  have "segs_store segs2 = records_store [demo_record]"
    using 1(3) 2(3) by (simp add: db_store_def store_overlay_def records_store_def store_put_def fun_eq_iff map_add_def)
  from demo_compacted_blocks[OF 2(2) this] 2 show ?thesis by blast
qed

lemma demo_unflushed:
  "\<exists>s evs. steps demo_path sync_on_append (Closed (empty_directory [])) evs (Opened s) \<and>
     engine_inv demo_path s [] [demo_record] \<and> se_manifest (fst s) = empty_manifest \<and> fs_script (snd s) = []"
  using demo_open_runs demo_write by (metis fst_conv)

lemma demo_flush_runs:
  "\<exists>s s' evs. steps demo_path sync_on_append (Closed (empty_directory [])) evs (Opened s) \<and>
     engine_memtable_sample_count s = Inr 1 \<and> engine_flush s = (Inr (), s')"
proof -
  obtain s evs where f: "steps demo_path sync_on_append (Closed (empty_directory [])) evs (Opened s)"
    "engine_inv demo_path s [] [demo_record]" "se_manifest (fst s) = empty_manifest" "fs_script (snd s) = []"
    using demo_unflushed by blast
  obtain r s' where fl: "engine_flush s = (r, s')" by (metis surj_pair)
  have "r = Inr ()"
    using engine_flush_effect[OF f(2) fl, THEN conjunct2, THEN conjunct2, THEN conjunct2] f(3,4)
      demo_memtable_blocks[OF f(2)] one_block_ok by (simp add: max_manifest_segments_def empty_manifest_def)
  then show ?thesis using f(1) fl engine_inv_counts(4)[OF f(2)] demo_record_keys by (intro exI[of _ s] exI[of _ s'] exI[of _ evs]) auto
qed

lemma demo_compact_runs:
  "\<exists>s s' evs. steps demo_path sync_on_append (Closed (empty_directory [])) evs (Opened s) \<and>
     engine_segment_count s = Inr 2 \<and> engine_compact s = (Inr (), s')"
proof -
  obtain s evs segs where f: "steps demo_path sync_on_append (Closed (empty_directory [])) evs (Opened s)"
    "engine_inv demo_path s segs []" "length segs = 2" "compacted_blocks s = Inr [one_block]"
    "mf_generation (se_manifest (fst s)) = 2" "fs_script (snd s) = []" using demo_two_segments by blast
  obtain r s' where c: "engine_compact s = (r, s')" by (metis surj_pair)
  have "r = Inr ()"
    using engine_compact_effect[OF f(2) c, THEN conjunct2, THEN conjunct2, THEN conjunct2] f(4,5,6) one_block_ok by simp
  then show ?thesis using f(1,3) c engine_inv_counts(2)[OF f(2)] by (intro exI[of _ s] exI[of _ s'] exI[of _ evs]) auto
qed

text \<open>A synchronisation that the system refuses.\<close>

lemma demo_sync_fails:
  "\<exists>s s' e. steps demo_path sync_on_append (Closed (empty_directory [])) [Open, Environment] (Opened s) \<and>
     \<not> se_failed (fst s) \<and> run_op Sync s = (Inl e, s') \<and> e \<noteq> Crashed"
proof -
  obtain E f where o: "open_engine demo_path sync_on_append (empty_directory []) = (Inr E, f)"
    "engine_inv demo_path (E, f) [] []" using demo_opened by blast
  let ?s = "(E, f\<lparr>fs_script := [Fails]\<rparr>)"
  have inv: "engine_inv demo_path ?s [] []" by (rule engine_inv_script[OF o(2)])
  have "step demo_path sync_on_append (Opened (E, f)) Environment (Opened ?s)"
    using step_env_opened[of demo_path sync_on_append "(E, f)" "[Fails]"] by simp
  then have st: "steps demo_path sync_on_append (Closed (empty_directory [])) [Open, Environment] (Opened ?s)"
    using step_open[OF o(1)] by (auto simp: steps_simps)
  have w: "wal_ensure_usable (se_wal E) = Inr ()" "\<not> se_failed E"
    using inv by (auto simp: engine_inv_def log_holds_def wal_ensure_usable_def)
  have "\<exists>s'. run_op Sync ?s = (Inl (SystemError ''failed to synchronize WAL''), s')"
    using w engine_inv_usable[OF inv]
    by (simp add: engine_sync_def act_bind_def act_on_error_def on_wal_def wal_sync_def synchronize_file_def
        eintr_retry.simps sys_atomic_def next_outcome_def
        wal_fail_def engine_fail_def)
  then obtain s' where "run_op Sync ?s = (Inl (SystemError ''failed to synchronize WAL''), s')" by blast
  then show ?thesis using st w(2) by (intro exI[of _ ?s] exI[of _ s']) auto
qed

end
