(* ===== verification/EngineOperations.thy ===== *)
theory EngineOperations
  imports EngineDemo
begin

text \<open>
  Properties of each operation of the engine, at every state a history of the database can
  reach: queries, writes, flush, compaction and the failed state.
\<close>

section \<open>Reachable engines\<close>

lemma reachable_inv:
  assumes "wal_path_ok path" "new_directory f0" "steps path d (Closed f0) evs (Opened s)" "\<not> se_failed (fst s)"
  obtains S segs recs where "S \<in> spec_run evs (\<lambda>_. Map.empty)" "engine_inv path s segs recs" "db_store segs recs = S"
proof -
  have "denotes path (Closed f0) (\<lambda>_. Map.empty)" using new_directory_denotes[OF assms(2,1)] by simp
  from steps_refine[OF assms(3) this] assms(4) that show ?thesis by auto
qed

lemma usable_if_returned: "run_op p s = (Inr u, s') \<Longrightarrow> \<not> se_failed (fst s)"
  using failed_refuses[of s p] by auto

lemma range_refused:
  "engine_ensure_usable (fst s) = Inr () \<Longrightarrow> \<not> a \<le> b \<Longrightarrow>
     engine_range s k a b = Inl (InvalidArgument ''range end must not precede range start'')"
  by (simp add: engine_range_def not_le)

text \<open>Engines that hold the same store answer every query the same way.\<close>

definition same_answers :: "engine_state \<Rightarrow> engine_state \<Rightarrow> bool" where
  "same_answers s s' \<longleftrightarrow> engine_get s' = engine_get s \<and> engine_latest s' = engine_latest s \<and>
     engine_range s' = engine_range s \<and> engine_series s' = engine_series s \<and>
     engine_sample_count s' = engine_sample_count s"

lemma same_store_same_answers:
  assumes inv: "engine_inv path s segs recs" "engine_inv path' s' segs' recs'"
    and eq: "db_store segs' recs' = db_store segs recs"
  shows "same_answers s s'"
proof -
  note r = engine_inv_ready[OF inv(1)] and r' = engine_inv_ready[OF inv(2), unfolded eq]
  have "engine_get s' k t = engine_get s k t" for k t
    using engine_inv_get[OF inv(1)] engine_inv_get[OF inv(2)] eq by simp
  moreover have "engine_latest s' k = engine_latest s k" for k
    using engine.latest_content[OF r(1), of k] engine.latest_content[OF r'(1), of k] r(2) r'(2) is_latest_unique by metis
  moreover have "engine_range s' k a b = engine_range s k a b" for k a b
  proof (cases "a \<le> b")
    case True
    then show ?thesis
      using engine.range_content[OF r(1), of a b k] engine.range_content[OF r'(1), of a b k] r(2) r'(2) is_range_unique by metis
  next
    case False
    then show ?thesis using range_refused[OF engine_inv_usable[OF inv(1)]] range_refused[OF engine_inv_usable[OF inv(2)]] by simp
  qed
  moreover have "engine_series s' = engine_series s"
  proof -
    obtain ks ks' where ks: "engine_series s = Inr ks" "sorted_wrt (<) ks" "engine_series s' = Inr ks'" "sorted_wrt (<) ks'"
      "set ks = set ks'"
      using engine_series_correct[OF r(1)] engine_series_correct[OF r'(1)] r(2) r'(2) by auto
    then have "ks = ks'" using strict_sorted_equal by blast
    then show ?thesis using ks by simp
  qed
  moreover have "engine_sample_count s' = engine_sample_count s"
    using engine_inv_counts(1)[OF inv(1)] engine_inv_counts(1)[OF inv(2)] eq by simp
  ultimately show ?thesis by (simp add: same_answers_def fun_eq_iff)
qed

section \<open>Queries\<close>

text \<open>
  Claim C4.  Queries between operations: in every state that a history of the database
  reaches with a usable engine, the store is one that the history permits, and the engine's
  point, latest and range queries, its list of series and its statistics all answer for it.
\<close>

theorem engine_queries_correct:
  assumes "wal_path_ok path" "new_directory f0" "steps path d (Closed f0) evs (Opened s)" "\<not> se_failed (fst s)"
  shows "\<exists>S\<in>spec_run evs (\<lambda>_. Map.empty).
    (\<forall>k t. engine_get s k t = Inr (map_option (Sample t) (S k t))) \<and>
    (\<forall>k. \<exists>x. engine_latest s k = Inr x \<and> is_latest S k x) \<and>
    (\<forall>k a b. if a \<le> b then \<exists>xs. engine_range s k a b = Inr xs \<and> is_range S k a b xs
       else engine_range s k a b = Inl (InvalidArgument ''range end must not precede range start'')) \<and>
    (\<exists>ks. engine_series s = Inr ks \<and> sorted_wrt (<) ks \<and> set ks = {k. \<exists>t. S k t \<noteq> None}) \<and>
    (\<exists>st. engine_stats s = Inr st \<and> st_sample_count st = card (store_keys S) mod 2 ^ 64 \<and>
       engine_empty s = Inr (card (store_keys S) mod 2 ^ 64 = 0))"
proof -
  obtain S segs recs where S: "S \<in> spec_run evs (\<lambda>_. Map.empty)" and inv: "engine_inv path s segs recs"
    and db: "db_store segs recs = S" by (rule reachable_inv[OF assms])
  note r = engine_inv_ready[OF inv, unfolded db] and u = engine_inv_usable[OF inv]
  have range: "if a \<le> b then \<exists>xs. engine_range s k a b = Inr xs \<and> is_range S k a b xs
       else engine_range s k a b = Inl (InvalidArgument ''range end must not precede range start'')" for k a b
    using engine.range_content[OF r(1), of a b k] r(2) range_refused[OF u] by simp
  have c: "unat (se_logical_sample_count (fst s)) = card (store_keys S) mod 2 ^ 64"
    using inv db by (simp add: engine_inv_def unat_of_nat)
  have "\<exists>st. engine_stats s = Inr st \<and> st_sample_count st = card (store_keys S) mod 2 ^ 64 \<and>
       engine_empty s = Inr (card (store_keys S) mod 2 ^ 64 = 0)"
    using u c unat_u64_less[of "se_logical_sample_count (fst s)"]
    by (simp add: engine_stats_def engine_empty_def flip: unat_eq_zero)
  then show ?thesis
    using S engine.get_content[OF r(1)] engine.latest_content[OF r(1)] range engine_series_correct[OF r(1)] r(2)
    by (intro bexI[of _ S]) auto
qed

theorem engine_queries_correct_witness:
  "\<exists>s. steps demo_path sync_on_append (Closed (empty_directory [])) [Open, Environment, Returned demo_put] (Opened s) \<and>
     engine_get s (wal_series demo_record) (timestamp (wal_sample demo_record)) = Inr (Some (wal_sample demo_record))"
proof -
  obtain E f where r: "steps demo_path sync_on_append (Closed (empty_directory [])) [Open, Environment, Returned demo_put] (Opened (E, f))"
    "engine_inv demo_path (E, f) [] [demo_record]" using demo_engine by blast
  then have "\<not> se_failed (fst (E, f))" by (simp add: engine_inv_def)
  from engine_queries_correct[OF demo_path_ok demo_directory r(1) this] r(1) show ?thesis
    by (intro exI[of _ "(E, f)"]) (auto simp: store_put_def)
qed

section \<open>Writes\<close>



text \<open>
  Claim C9.  A write succeeds when nothing prevents it: on a usable engine, if the system
  makes no call fail, the record is within the format's size limits and the log within those of a
  file, the write returns.
\<close>

theorem put_succeeds:
  assumes "wal_path_ok path" "new_directory f0" "steps path d (Closed f0) evs (Opened s)" "\<not> se_failed (fst s)"
    and "series_wf k" "sample_wf x" "fs_script (snd s) = []" "encode_wal_record (WalPutRecord k x) = Inr bytes"
    and "fs_file (snd s) path = Some log" "length log + length bytes < 2 ^ 64"
  shows "\<exists>s'. engine_put k x s = (Inr (), s')"
proof -
  obtain S segs recs where inv: "engine_inv path s segs recs" by (rule reachable_inv[OF assms(1-4)])
  obtain r s' where run: "engine_put k x s = (r, s')" by (metis surj_pair)
  have "log = log_bytes recs" using inv assms(9) by (auto simp: engine_inv_def log_holds_def)
  moreover have "record_fits (WalPutRecord k x)" "bytes = wal_record_bytes (WalPutRecord k x)"
    using assms(5,6,8) by (simp_all add: encode_wal_record_Inr record_wf_def)
  ultimately show ?thesis using engine_put_effect[OF inv assms(5,6) run] run assms(7,10) by (simp add: log_bytes_def)
qed

theorem put_succeeds_witness:
  "\<exists>s s'. \<not> se_failed (fst s) \<and> engine_put (wal_series demo_record) (wal_sample demo_record) s = (Inr (), s')"
proof -
  obtain E f where r: "steps demo_path sync_on_append (Closed (empty_directory [])) [Open, Environment] (Opened (E, f))"
    "engine_inv demo_path (E, f) [] []" "fs_script f = []" using demo_open_runs by blast
  have "\<not> se_failed (fst (E, f))" "fs_file (snd (E, f)) demo_path = Some []" "fs_script (snd (E, f)) = []"
    using r(2,3) by (auto simp: engine_inv_def log_holds_def)
  note h = this
  have e: "encode_wal_record (WalPutRecord (wal_series demo_record) (wal_sample demo_record)) = Inr (wal_record_bytes demo_record)"
    using encode_demo_record by simp
  from put_succeeds[OF demo_path_ok demo_directory r(1) h(1) demo_put_wf(2,3) h(3) e h(2)] h(1) show ?thesis
    by (auto simp: length_demo_record)
qed

section \<open>Flush and compaction\<close>

text \<open>
  Claim C6.  A flush that returns changes no answer: every query returns what it returned
  before, the MemTable and the log are empty, and the engine stays usable.
\<close>

theorem flush_correct:
  assumes "wal_path_ok path" "new_directory f0" "steps path d (Closed f0) evs (Opened s)" "engine_flush s = (Inr (), s')"
  shows "same_answers s s' \<and> engine_memtable_sample_count s' = Inr 0 \<and> engine_wal_size_bytes s' = Inr 0 \<and>
    fs_file (snd s') path = Some [] \<and> \<not> se_failed (fst s')"
proof -
  have run: "run_op Flush s = (Inr (), s')" using assms(4) by simp
  obtain S segs recs where inv: "engine_inv path s segs recs" by (rule reachable_inv[OF assms(1-3) usable_if_returned[OF run]])
  obtain segs' where inv': "engine_inv path s' segs' []" "db_store segs' [] = db_store segs recs"
    using engine_flush_effect[OF inv assms(4)] by blast
  have "fs_file (snd s') path = Some []" "\<not> se_failed (fst s')"
    using inv'(1) by (auto simp: engine_inv_def log_holds_def)
  then show ?thesis
    using same_store_same_answers[OF inv inv'] engine_inv_counts(3,4)[OF inv'(1)] by (simp add: store_keys_def)
qed

theorem flush_correct_witness:
  "\<exists>s s'. engine_flush s = (Inr (), s') \<and> engine_memtable_sample_count s = Inr 1 \<and>
     engine_memtable_sample_count s' = Inr 0 \<and> same_answers s s'"
proof -
  obtain s s' evs where f: "steps demo_path sync_on_append (Closed (empty_directory [])) evs (Opened s)"
    "engine_memtable_sample_count s = Inr 1" "engine_flush s = (Inr (), s')" using demo_flush_runs by blast
  from flush_correct[OF demo_path_ok demo_directory f(1,3)] f(2,3) show ?thesis by blast
qed

lemma flush_empty: "memtable_empty (se_memtable (fst s)) \<Longrightarrow> engine_flush s = engine_sync s"
  by (simp add: engine_flush_def engine_sync_def act_bind_def split: sum.splits)

text \<open>
  Claim C10.  A flush succeeds when nothing prevents it: on a usable engine, if the system
  makes no call fail, and the MemTable is empty, or its blocks are within the limits of the
  segment format and the manifest has room for one more segment and generation.
\<close>

theorem flush_succeeds:
  assumes "wal_path_ok path" "new_directory f0" "steps path d (Closed f0) evs (Opened s)" "\<not> se_failed (fst s)"
    and "fs_script (snd s) = []" "make_memtable_blocks (fst s) = Inr bs"
    and "bs = [] \<or> segment_ok bs \<and> engine_segment_count s = Inr n \<and> n < max_manifest_segments \<and>
      mf_generation (se_manifest (fst s)) \<noteq> 0xFFFFFFFFFFFFFFFF"
  shows "\<exists>s'. engine_flush s = (Inr (), s')"
proof -
  obtain S segs recs where inv: "engine_inv path s segs recs" by (rule reachable_inv[OF assms(1-4)])
  obtain r s' where run: "engine_flush s = (r, s')" by (metis surj_pair)
  show ?thesis
  proof (cases "bs = []")
    case True
    have "memtable_inv (se_memtable (fst s))" using inv by (simp add: engine_inv_def)
    then have "memtable_empty (se_memtable (fst s))"
      using make_memtable_blocks_correct True assms(6) by fastforce
    then have "engine_sync s = (r, s')" using run flush_empty by simp
    then show ?thesis using engine_sync_effect[OF inv] run assms(5) by blast
  next
    case False
    then have "length segs < max_manifest_segments" using engine_inv_counts(2)[OF inv] assms(7) by simp
    then show ?thesis
      using engine_flush_effect[OF inv run, THEN conjunct2, THEN conjunct2, THEN conjunct2] run assms(5-7) False by simp
  qed
qed

theorem flush_succeeds_witness:
  "\<exists>s s'. make_memtable_blocks (fst s) = Inr [one_block] \<and> engine_flush s = (Inr (), s')"
proof -
  obtain s evs where f: "steps demo_path sync_on_append (Closed (empty_directory [])) evs (Opened s)"
    "engine_inv demo_path s [] [demo_record]" "se_manifest (fst s) = empty_manifest" "fs_script (snd s) = []"
    using demo_unflushed by blast
  have h: "\<not> se_failed (fst s)" using f(2) by (simp add: engine_inv_def)
  have g: "mf_generation (se_manifest (fst s)) \<noteq> 0xFFFFFFFFFFFFFFFF" using f(3) by (simp add: empty_manifest_def)
  have n: "0 < max_manifest_segments" by (simp add: max_manifest_segments_def)
  have c: "engine_segment_count s = Inr 0" using engine_inv_counts(2)[OF f(2)] by simp
  from flush_succeeds[OF demo_path_ok demo_directory f(1) h f(4) demo_memtable_blocks[OF f(2)], of 0]
    one_block_ok c n g demo_memtable_blocks[OF f(2)] show ?thesis by blast
qed

text \<open>
  Claim C7.  A compaction that returns changes no answer: every query returns what it returned
  before, at most one segment remains, and the MemTable and the log are as they were.
\<close>

theorem compact_correct:
  assumes "wal_path_ok path" "new_directory f0" "steps path d (Closed f0) evs (Opened s)" "engine_compact s = (Inr (), s')"
  shows "same_answers s s' \<and> (\<exists>n\<le>1. engine_segment_count s' = Inr n) \<and>
    engine_memtable_sample_count s' = engine_memtable_sample_count s \<and>
    fs_file (snd s') path = fs_file (snd s) path \<and> \<not> se_failed (fst s')"
proof -
  have run: "run_op Compact s = (Inr (), s')" using assms(4) by simp
  obtain S segs recs where inv: "engine_inv path s segs recs" by (rule reachable_inv[OF assms(1-3) usable_if_returned[OF run]])
  obtain segs' where inv': "engine_inv path s' segs' recs" "db_store segs' recs = db_store segs recs" "length segs' \<le> 1"
    using engine_compact_effect[OF inv assms(4)] by blast
  have "fs_file (snd s') path = fs_file (snd s) path" "\<not> se_failed (fst s')"
    using inv inv'(1) by (auto simp: engine_inv_def log_holds_def)
  then show ?thesis
    using same_store_same_answers[OF inv inv'(1,2)] engine_inv_counts(4)[OF inv] engine_inv_counts(2,4)[OF inv'(1)] inv'(3)
    by simp
qed

theorem compact_correct_witness:
  "\<exists>s s'. engine_segment_count s = Inr 2 \<and> engine_compact s = (Inr (), s') \<and> same_answers s s' \<and>
     (\<exists>n\<le>1. engine_segment_count s' = Inr n)"
proof -
  obtain s s' evs where f: "steps demo_path sync_on_append (Closed (empty_directory [])) evs (Opened s)"
    "engine_segment_count s = Inr 2" "engine_compact s = (Inr (), s')" using demo_compact_runs by blast
  from compact_correct[OF demo_path_ok demo_directory f(1,3)] f(2,3) show ?thesis by blast
qed

text \<open>
  Claim C11.  A compaction succeeds when nothing prevents it: on a usable engine, if the
  system makes no call fail, the merged blocks are within the limits of the segment format
  and a generation is left.
\<close>

theorem compact_succeeds:
  assumes "wal_path_ok path" "new_directory f0" "steps path d (Closed f0) evs (Opened s)" "\<not> se_failed (fst s)"
    and "fs_script (snd s) = []" "\<forall>bs. compacted_blocks s = Inr bs \<longrightarrow> segment_ok bs \<or> engine_segment_count s = Inr 0"
    and "mf_generation (se_manifest (fst s)) \<noteq> 0xFFFFFFFFFFFFFFFF"
  shows "\<exists>s'. engine_compact s = (Inr (), s')"
proof -
  obtain S segs recs where inv: "engine_inv path s segs recs" by (rule reachable_inv[OF assms(1-4)])
  obtain r s' where run: "engine_compact s = (r, s')" by (metis surj_pair)
  show ?thesis
  proof (cases "engine_segment_count s = Inr 0")
    case True
    then have "se_segments (fst s) = []" using engine_inv_usable[OF inv] by (simp add: engine_segment_count_def)
    then show ?thesis using engine_inv_usable[OF inv] by (auto simp: engine_compact_def act_bind_def)
  next
    case False
    then show ?thesis
      using engine_compact_effect[OF inv run, THEN conjunct2, THEN conjunct2, THEN conjunct2] run assms(5,6,7) by auto
  qed
qed

theorem compact_succeeds_witness:
  "\<exists>s s'. engine_segment_count s = Inr 2 \<and> engine_compact s = (Inr (), s')"
proof -
  obtain s evs segs where f: "steps demo_path sync_on_append (Closed (empty_directory [])) evs (Opened s)"
    "engine_inv demo_path s segs []" "length segs = 2" "compacted_blocks s = Inr [one_block]"
    "mf_generation (se_manifest (fst s)) = 2" "fs_script (snd s) = []" using demo_two_segments by blast
  have h: "\<not> se_failed (fst s)" using f(2) by (simp add: engine_inv_def)
  have c: "engine_segment_count s = Inr 2" using engine_inv_counts(2)[OF f(2)] f(3) by simp
  have "\<exists>s'. engine_compact s = (Inr (), s')"
    by (rule compact_succeeds[OF demo_path_ok demo_directory f(1) h f(6)]) (use f(4,5) one_block_ok in auto)
  then show ?thesis using c by blast
qed

section \<open>Failures\<close>

text \<open>
  An operation that throws leaves the engine failed; the exception is a write whose look-up of
  the point, which comes before the guarded part, throws: nothing has changed then.
\<close>

lemma act_on_error_fails:
  "act_on_error m engine_fail s = (Inl e, s') \<Longrightarrow> e \<noteq> Crashed \<Longrightarrow> se_failed (fst s')"
  by (auto simp: act_on_error_def engine_fail_def split: prod.splits sum.splits)

lemma put_look_up_throws:
  "\<not> se_failed (fst s) \<Longrightarrow> engine_contains s k (timestamp x) = Inl e \<Longrightarrow> engine_put k x s = (Inl e, s)"
  by (simp add: engine_put_def act_bind_def engine_ensure_usable_def)

lemma throwing_op_fails:
  assumes run: "run_op p s = (Inl e, s')" and e: "e \<noteq> Crashed"
    and up: "\<not> se_failed (fst s)" "\<And>k x. p = Put k x \<Longrightarrow> engine_contains s k (timestamp x) \<noteq> Inl e"
  shows "se_failed (fst s')"
proof (cases p)
  case (Put k x)
  then obtain b where "engine_contains s k (timestamp x) = Inr b"
    using run up by (cases "engine_contains s k (timestamp x)") (auto simp: put_look_up_throws)
  then show ?thesis
    using run Put up(1) act_on_error_fails[OF _ e] by (simp add: engine_put_def act_bind_def engine_ensure_usable_def)
next
  case Sync
  then show ?thesis
    using run up(1) act_on_error_fails[OF _ e] by (simp add: engine_sync_def act_bind_def engine_ensure_usable_def)
next
  case Flush
  then show ?thesis
    using run up(1) act_on_error_fails[OF _ e]
    by (simp add: engine_flush_def act_bind_def[of "act_get _" "\<lambda>_. _"] engine_ensure_usable_def split: if_splits)
next
  case Compact
  then show ?thesis
    using run up(1) act_on_error_fails[OF _ e]
    by (simp add: engine_compact_def act_bind_def[of "act_get _" "\<lambda>_. _"] engine_ensure_usable_def split: if_splits)
qed

text \<open>
  Claim C8.  Failures are final, in every state and whatever calls fail, those that read
  included.  When an operation throws, the engine is in the failed state, in which every later
  operation and query throws and changes nothing, so a client cannot see a state that reopening
  would not show.  There is exactly one exception: a write on a usable engine whose look-up of
  the point in the segments throws changes neither the engine nor a file, and the engine stays
  usable.  It cannot occur in a history in which reading never fails.
\<close>

theorem failure_is_final:
  assumes "run_op p s = (Inl e, s')" "e \<noteq> Crashed"
    and "refused = RuntimeError ''storage engine is in a failed state; restart is required''"
  shows "(if \<not> se_failed (fst s) \<and> (\<exists>k x. p = Put k x \<and> engine_contains s k (timestamp x) = Inl e)
      then s' = s
      else se_failed (fst s') \<and> run_op q s' = (Inl refused, s') \<and> engine_get s' k t = Inl refused \<and> engine_latest s' k = Inl refused \<and>
        engine_range s' k a b = Inl refused \<and> engine_series s' = Inl refused \<and> engine_stats s' = Inl refused) \<and>
    (wal_path_ok path \<and> new_directory f0 \<and> steps path d (Closed f0) evs (Opened s) \<and> op_wf p \<longrightarrow> se_failed (fst s'))"
proof -
  let ?late = "\<not> se_failed (fst s) \<and> (\<exists>k x. p = Put k x \<and> engine_contains s k (timestamp x) = Inl e)"
  have same: "s' = s" if ?late using that assms(1) put_look_up_throws by fastforce
  have "se_failed (fst s')" if "\<not> ?late"
    using that assms(1) throwing_op_fails[OF assms(1,2)] failed_refuses[of s p] by fastforce
  then have refuse: "se_failed (fst s') \<and> run_op q s' = (Inl refused, s') \<and> engine_ensure_usable (fst s') = Inl refused" if "\<not> ?late"
    using that failed_refuses[of s' q] assms(3) by (simp add: engine_ensure_usable_def)
  have reached: "se_failed (fst s')"
    if h: "wal_path_ok path" "new_directory f0" "steps path d (Closed f0) evs (Opened s)" "op_wf p"
  proof -
    have "denotes path (Closed f0) (\<lambda>_. Map.empty)" using new_directory_denotes[OF h(2,1)] by simp
    from steps_refine[OF h(3) this] obtain S where "denotes path (Opened s) S" by blast
    from run_op_effect(3)[OF this h(4) assms(1) refl assms(2)] show ?thesis .
  qed
  show ?thesis
    using same refuse reached
    by (auto simp: engine_get_def engine_latest_def engine_range_def engine_series_def engine_stats_def)
qed

text \<open>An engine with one segment whose file cannot be opened any more.\<close>

definition unreadable_engine :: engine_state where
  "unreadable_engine =
     (\<lparr>se_memtable = empty_memtable, se_manifest = empty_manifest, se_segments = [written_reader ''s'' [one_block]],
       se_wal = \<lparr>ww_path = demo_path, ww_open = True, ww_durability = sync_on_append, ww_size_bytes = 0, ww_failed = False\<rparr>,
       se_logical_sample_count = 1, se_failed = False\<rparr>,
      (fs_write ''s'' (segment_bytes [one_block]) (empty_directory []))\<lparr>fs_fault := (\<lambda>_. Some OpenFails)\<rparr>)"

lemma read_block_unopened:
  assumes "fs_fault f (sr_path r) = Some OpenFails" "ie_block_offset e = 32"
  shows "read_block r e f = Inl (file_error ''failed to open file'' (sr_path r))"
  using assms unat_u32_le[of "ie_block_size e"]
  by (simp add: read_block_def read_file_bytes_def streamoff_max_def split: option.split)

lemma unreadable_look_up:
  "\<not> se_failed (fst unreadable_engine)"
  "engine_contains unreadable_engine (wal_series demo_record) (timestamp (wal_sample demo_record)) =
     Inl (file_error ''failed to open file'' ''s'')"
  by (simp_all add: unreadable_engine_def engine_contains_def contains_in_segments_def memtable_get_def empty_memtable_def
      written_reader_def segment_get_def one_block_def demo_record_def lower_bound_def partition_point.simps
      read_block_unopened first_timestamp_def last_timestamp_def)

theorem failure_is_final_witness:
  "(\<exists>s s' e. run_op Sync s = (Inl e, s') \<and> e \<noteq> Crashed \<and> \<not> se_failed (fst s) \<and>
     engine_get s' (wal_series demo_record) (Timestamp 5) =
       Inl (RuntimeError ''storage engine is in a failed state; restart is required'')) \<and>
   (\<exists>e s'. run_op demo_put unreadable_engine = (Inl e, s') \<and> e \<noteq> Crashed \<and> s' = unreadable_engine \<and>
     \<not> se_failed (fst s'))"
proof
  obtain s s' e where f: "\<not> se_failed (fst s)" "run_op Sync s = (Inl e, s')" "e \<noteq> Crashed"
    using demo_sync_fails by blast
  from failure_is_final[OF f(2,3) refl, THEN conjunct1] f
  show "\<exists>s s' e. run_op Sync s = (Inl e, s') \<and> e \<noteq> Crashed \<and> \<not> se_failed (fst s) \<and>
     engine_get s' (wal_series demo_record) (Timestamp 5) =
       Inl (RuntimeError ''storage engine is in a failed state; restart is required'')"
    by (intro exI[of _ s] exI[of _ s'] exI[of _ e]) auto
next
  let ?e = "file_error ''failed to open file'' ''s''"
  have "run_op demo_put unreadable_engine = (Inl ?e, unreadable_engine)" "?e \<noteq> Crashed"
    using put_look_up_throws[OF unreadable_look_up] by (simp_all add: file_error_def)
  from failure_is_final[OF this refl, THEN conjunct1] this unreadable_look_up
  show "\<exists>e s'. run_op demo_put unreadable_engine = (Inl e, s') \<and> e \<noteq> Crashed \<and> s' = unreadable_engine \<and>
     \<not> se_failed (fst s')" by blast
qed

end
