(* ===== verification/DatabaseProperties.thy ===== *)
theory DatabaseProperties
  imports DatabaseSystem EngineOperations
begin

text \<open>
  The properties of the public interface: exclusive ownership of a directory, the refinement
  of the store by any interleaving of processes, automatic flushes, and the exceptions that
  clients see.
\<close>

section \<open>Opening succeeds\<close>

lemma prepare_quiet:
  assumes "dir \<noteq> []" "h_entry h \<noteq> NotDirectory" "\<not> h_exists_fault h" "\<not> h_is_directory_fault h" "fs_script (h_fs h) = []"
  shows "prepare_database_directory dir h = (Inr wal_filename, h\<lparr>h_entry := Directory\<rparr>)"
  using assms
  by (cases "h_entry h") (auto simp: prepare_database_directory_def act_bind_def sys_atomic_def next_outcome_quiet)

lemma make_impl_quiet:
  assumes den: "disk_denotes wal_filename (h_fs h) S" and nl: "\<not> h_locked h" and q: "fs_script (h_fs h) = []"
  shows "\<exists>I h'. make_impl wal_filename opts h = (Inr I, h') \<and>
    db_flush_threshold_samples I = memtable_flush_threshold_samples opts \<and> fs_script (h_fs h') = []"
proof -
  obtain r1 h1 where 1: "acquire_lock lock_path h = (r1, h1)" by force
  note a = acquire_lock_effect[OF 1]
  then have r1: "r1 = Inr ()" and q1: "fs_script (h_fs h1) = []" using nl q by (auto simp: touches_def)
  have "disk_denotes wal_filename (h_fs h1) S" using lock_frame(1) a den by blast
  then obtain mf segs recs torn where ds: "disk_state wal_filename (h_fs h1) mf segs recs torn"
    by (auto simp: disk_denotes_def)
  obtain r2 h2 where 2: "on_dir (open_engine wal_filename (to_internal_durability (durability opts))) h1 = (r2, h2)" by force
  note oe = on_dir_effect[OF 2, THEN conjunct1]
  obtain E where "r2 = Inr E" using open_engine_effect[OF ds oe] q1 by blast
  moreover have "fs_script (h_fs h2) = []" by (rule open_engine_quiet[OF ds oe q1])
  ultimately show ?thesis using 1 2 r1 by (simp add: make_impl_def act_bind_def act_on_error_def)
qed

lemma open_database_quiet:
  assumes den: "disk_denotes wal_filename (h_fs h) S" and nl: "\<not> h_locked h"
    and h: "dir \<noteq> []" "h_entry h \<noteq> NotDirectory" "\<not> h_exists_fault h" "\<not> h_is_directory_fault h" "fs_script (h_fs h) = []"
  shows "\<exists>I h'. open_database dir opts h = (Inr \<lparr>db_impl = Some I\<rparr>, h') \<and>
    db_flush_threshold_samples I = memtable_flush_threshold_samples opts \<and> fs_script (h_fs h') = []"
  using prepare_quiet[OF h] make_impl_quiet[of "h\<lparr>h_entry := Directory\<rparr>" S opts] den nl h(5)
  by (auto simp: open_database_def act_bind_def translate_corruption_def)

section \<open>A system for the witnesses\<close>

definition demo_host :: host where
  "demo_host = \<lparr>h_entry = Missing, h_exists_fault = False, h_is_directory_fault = False, h_locked = False,
     h_fs = empty_directory []\<rparr>"

definition demo_system :: system where
  "demo_system = (demo_host, \<lambda>_. closed)"

lemma demo_system_new: "new_system demo_system"
  using demo_directory[of "[]"] by (simp add: new_system_def demo_system_def demo_host_def owners_def)

abbreviation demo_options :: DatabaseOptions where
  "demo_options \<equiv> \<lparr>durability = sync_on_write, memtable_flush_threshold_samples = 2\<rparr>"

lemma sys_steps_snoc: "sys_steps dir s evs s1 \<Longrightarrow> sys_step dir s1 ev s2 \<Longrightarrow> sys_steps dir s (evs @ [ev]) s2"
  by (induction rule: sys_steps.induct) (auto intro: sys_steps.intros)

lemma demo_open:
  "\<exists>I h segs. open_database ''db'' opts demo_host = (Inr \<lparr>db_impl = Some I\<rparr>, h) \<and>
     db_flush_threshold_samples I = memtable_flush_threshold_samples opts \<and> fs_script (h_fs h) = [] \<and>
     h_locked h \<and> h_entry h = Directory \<and> engine_inv wal_filename (db_engine I, h_fs h) segs []"
proof -
  have den: "disk_denotes wal_filename (h_fs demo_host) (\<lambda>_. Map.empty)"
    using new_system_denotes[OF demo_system_new] by (simp add: demo_system_def sys_denotes_def)
  obtain I h where o: "open_database ''db'' opts demo_host = (Inr \<lparr>db_impl = Some I\<rparr>, h)"
    "db_flush_threshold_samples I = memtable_flush_threshold_samples opts" "fs_script (h_fs h) = []"
    using open_database_quiet[OF den, of "''db''" opts] by (auto simp: demo_host_def empty_directory_def)
  have lk: "h_locked h" "h_entry h = Directory" using open_database_effect[OF o(1) den] by (auto simp: demo_host_def)
  have "denotes wal_filename (Opened (db_engine I, h_fs h)) (\<lambda>_. Map.empty)" "\<not> se_failed (db_engine I)"
    using open_database_effect[OF o(1) den] by (simp_all add: demo_host_def del: denotes.simps)
  then obtain segs recs where inv: "engine_inv wal_filename (db_engine I, h_fs h) segs recs" "db_store segs recs = (\<lambda>_. Map.empty)"
    by auto
  have "records_store recs = (\<lambda>_. Map.empty)"
    using inv(2) by (auto simp: db_store_def store_overlay_def fun_eq_iff map_add_None)
  then have "engine_inv wal_filename (db_engine I, h_fs h) segs []" using inv(1) by (simp add: records_store_empty)
  then show ?thesis using o lk by blast
qed

lemma demo_db_opened:
  "\<exists>I h. sys_steps ''db'' demo_system [DbOpened 0, DbEnvironment] (h, (\<lambda>_. closed)(0 := \<lparr>db_impl = Some I\<rparr>)) \<and>
     db_flush_threshold_samples I = 2 \<and> fs_script (h_fs h) = [] \<and> h_locked h \<and> h_entry h = Directory \<and>
     \<not> h_exists_fault h \<and> \<not> h_is_directory_fault h \<and> (\<exists>segs. engine_inv wal_filename (db_engine I, h_fs h) segs [])"
proof -
  obtain I h segs where o: "open_database ''db'' demo_options demo_host = (Inr \<lparr>db_impl = Some I\<rparr>, h)"
    "db_flush_threshold_samples I = 2" "h_locked h" "h_entry h = Directory" and inv: "engine_inv wal_filename (db_engine I, h_fs h) segs []"
    using demo_open[of demo_options] by auto
  let ?h = "h\<lparr>h_fs := (h_fs h)\<lparr>fs_script := []\<rparr>, h_exists_fault := False, h_is_directory_fault := False\<rparr>"
  let ?o = "(\<lambda>_. closed)(0 := \<lparr>db_impl = Some I\<rparr>)"
  have "sys_step ''db'' demo_system (DbOpened 0) (h, ?o)"
    unfolding demo_system_def by (rule sys_opened[OF _ o(1)]) (simp add: owners_def)
  moreover have "sys_step ''db'' (h, ?o) DbEnvironment (?h, ?o)" by (rule sys_environment)
  ultimately have "sys_steps ''db'' demo_system [DbOpened 0, DbEnvironment] (?h, ?o)"
    by (intro sys_steps_Cons[OF _ sys_steps_Cons[OF _ sys_steps_Nil]])
  then show ?thesis using o(2-4) engine_inv_script[OF inv, of "[]"] by (intro exI[of _ I] exI[of _ ?h]) auto
qed

section \<open>Ownership and refinement\<close>

lemma system_store:
  assumes "new_system s0" "sys_steps dir s0 evs (h, objs)"
  obtains S where "S \<in> db_spec_run evs (\<lambda>_. Map.empty)" "sys_denotes (h, objs) S"
  using sys_steps_refine[OF assms(2) new_system_denotes[OF assms(1)]] by blast

text \<open>The queries of an owner that has not failed answer for the store of the system.\<close>

lemma database_answers:
  assumes den: "sys_denotes (h, objs) S" and I: "db_impl (objs p) = Some I" "\<not> se_failed (db_engine I)"
  shows "database_get (objs p, h) k t = Inr (map_option (Sample t) (S k t))"
    "\<exists>x. database_latest (objs p, h) k = Inr x \<and> is_latest S k x"
    "if a \<le> b then \<exists>xs. database_range (objs p, h) k a b = Inr xs \<and> is_range S k a b xs
       else database_range (objs p, h) k a b = Inl (InvalidArgument ''range end must not precede range start'')"
    "\<exists>ks. database_series (objs p, h) = Inr ks \<and> sorted_wrt (<) ks \<and> set ks = {k. \<exists>t. S k t \<noteq> None}"
    "database_sample_count (objs p, h) = Inr (card (store_keys S) mod 2 ^ 64)"
    "\<exists>st. database_stats (objs p, h) = Inr st \<and> ds_sample_count st = card (store_keys S) mod 2 ^ 64"
proof -
  note o = owned[OF den I(1)]
  obtain segs recs where inv: "engine_inv wal_filename (db_engine I, h_fs h) segs recs" and db: "db_store segs recs = S"
    using o(3) I(2) by auto
  note r = engine_inv_ready[OF inv, unfolded db] and u = engine_inv_usable[OF inv]
  have im: "implementation (objs p) = Inr I" using I(1) by (simp add: implementation_def)
  show "if a \<le> b then \<exists>xs. database_range (objs p, h) k a b = Inr xs \<and> is_range S k a b xs
       else database_range (objs p, h) k a b = Inl (InvalidArgument ''range end must not precede range start'')"
    using engine.range_content[OF r(1), of a b k] r(2) range_refused[OF u] by (auto simp: database_range_def im)
  show "\<exists>x. database_latest (objs p, h) k = Inr x \<and> is_latest S k x"
    using engine.latest_content[OF r(1), of k] r(2) by (auto simp: database_latest_def im)
  show "database_get (objs p, h) k t = Inr (map_option (Sample t) (S k t))"
    "\<exists>ks. database_series (objs p, h) = Inr ks \<and> sorted_wrt (<) ks \<and> set ks = {k. \<exists>t. S k t \<noteq> None}"
    "database_sample_count (objs p, h) = Inr (card (store_keys S) mod 2 ^ 64)"
    using engine_inv_get[OF inv] db engine_series_correct[OF r(1)] r(2) engine_inv_counts(1)[OF inv]
    by (simp_all add: database_get_def database_series_def database_sample_count_def im)
  show "\<exists>st. database_stats (objs p, h) = Inr st \<and> ds_sample_count st = card (store_keys S) mod 2 ^ 64"
    using engine_inv_counts[OF inv] db u
    by (auto simp: database_stats_def im engine_stats_def engine_sample_count_def)
qed

text \<open>Whatever the object, its queries return or throw: they never end the process.\<close>

lemma queries_return:
  assumes den: "sys_denotes (h, objs) S"
  shows "database_get (objs p, h) k t \<noteq> Inl Crashed" "database_latest (objs p, h) k \<noteq> Inl Crashed"
    "database_range (objs p, h) k a b \<noteq> Inl Crashed" "database_series (objs p, h) \<noteq> Inl Crashed"
    "database_stats (objs p, h) \<noteq> Inl Crashed"
proof -
  note defs = database_get_def database_latest_def database_range_def database_series_def database_stats_def implementation_def
    engine_get_def engine_latest_def engine_range_def engine_series_def engine_stats_def engine_ensure_usable_def
  consider "db_impl (objs p) = None" | I where "db_impl (objs p) = Some I" "se_failed (db_engine I)"
    | I where "db_impl (objs p) = Some I" "\<not> se_failed (db_engine I)" by (cases "db_impl (objs p)") blast+
  then have "database_get (objs p, h) k t \<noteq> Inl Crashed \<and> database_latest (objs p, h) k \<noteq> Inl Crashed \<and>
    database_range (objs p, h) k a b \<noteq> Inl Crashed \<and> database_series (objs p, h) \<noteq> Inl Crashed \<and>
    database_stats (objs p, h) \<noteq> Inl Crashed"
  proof cases
    case (3 I)
    note a = database_answers[OF den 3]
    show ?thesis using a(1)[of k t] a(2)[of k] a(3)[of a b k] a(4,6) by (auto split: if_splits)
  qed (simp_all add: defs)
  then show "database_get (objs p, h) k t \<noteq> Inl Crashed" "database_latest (objs p, h) k \<noteq> Inl Crashed"
    "database_range (objs p, h) k a b \<noteq> Inl Crashed" "database_series (objs p, h) \<noteq> Inl Crashed"
    "database_stats (objs p, h) \<noteq> Inl Crashed" by blast+
qed

text \<open>
  Claim C13.  Exclusive ownership: however many processes open, use, close the database or
  die in it, in any interleaving and with any failing calls, at most one object owns the
  directory at a time; while one does, every attempt to open it throws, with
  \<^verbatim>\<open>DatabaseBusyError\<close> when no call fails, and leaves the owner's files and answers alone.
\<close>

theorem one_owner:
  assumes "new_system s0" "sys_steps dir s0 evs (h, objs)" "db_impl (objs p) = Some I"
  shows "owners objs = {p} \<and>
    (\<forall>opts r h'. open_database dir opts h = (r, h') \<longrightarrow>
       (\<exists>e. r = Inl e) \<and> touches {lock_path} (h_fs h) (h_fs h') \<and>
       (dir \<noteq> [] \<and> h_entry h = Directory \<and> \<not> h_exists_fault h \<and> \<not> h_is_directory_fault h \<and> fs_script (h_fs h) = [] \<longrightarrow>
          r = Inl (DatabaseBusyError ''database directory is already open'')))"
proof -
  obtain S where den: "sys_denotes (h, objs) S" by (rule system_store[OF assms(1,2)])
  note o = owned[OF den assms(3)]
  have "(\<exists>e. r = Inl e) \<and> touches {lock_path} (h_fs h) (h_fs h')" if "open_database dir opts h = (r, h')" for opts r h'
    using open_database_effect[OF that sys_denotes_disk[OF den]] o(2) by blast
  moreover have "fst (open_database dir opts h) = Inl (DatabaseBusyError ''database directory is already open'')"
    if "dir \<noteq> []" "h_entry h = Directory" "\<not> h_exists_fault h" "\<not> h_is_directory_fault h" "fs_script (h_fs h) = []" for opts
  proof -
    obtain r1 h1 where 1: "acquire_lock lock_path (h\<lparr>h_entry := Directory\<rparr>) = (r1, h1)" by force
    have "r1 = Inl (DatabaseBusyError ''database directory is already open'')"
      using acquire_lock_effect[OF 1] that(5) o(2) by simp
    then show ?thesis
      using prepare_quiet[of dir h] that 1
      by (simp add: open_database_def act_bind_def make_impl_def translate_corruption_def)
  qed
  ultimately show ?thesis using o(1) by (metis fst_conv)
qed

theorem one_owner_witness:
  "\<exists>I h h'. sys_steps ''db'' demo_system [DbOpened 0, DbEnvironment] (h, (\<lambda>_. closed)(0 := \<lparr>db_impl = Some I\<rparr>)) \<and>
     open_database ''db'' default_options h = (Inl (DatabaseBusyError ''database directory is already open''), h')"
proof -
  obtain I h where d: "sys_steps ''db'' demo_system [DbOpened 0, DbEnvironment] (h, (\<lambda>_. closed)(0 := \<lparr>db_impl = Some I\<rparr>))"
    "fs_script (h_fs h) = []" "h_entry h = Directory" "\<not> h_exists_fault h" "\<not> h_is_directory_fault h"
    using demo_db_opened by blast
  obtain r h' where o: "open_database ''db'' default_options h = (r, h')" by force
  from one_owner[OF demo_system_new d(1), of 0 I] o d(2-5) have
    "r = Inl (DatabaseBusyError ''database directory is already open'')" by auto
  then show ?thesis using d(1) o by blast
qed

text \<open>
  Claim C12.  The public database refines a map: in any such history, the queries of the
  process that owns the database answer for a store in which the writes that returned
  took effect, those that threw or died entirely or not at all, in the order of the
  history, whichever processes made them.
\<close>

theorem database_refines:
  assumes "new_system s0" "sys_steps dir s0 evs (h, objs)" "db_impl (objs p) = Some I" "\<not> se_failed (db_engine I)"
  shows "\<exists>S\<in>db_spec_run evs (\<lambda>_. Map.empty).
    (\<forall>k t. database_get (objs p, h) k t = Inr (map_option (Sample t) (S k t))) \<and>
    (\<forall>k. \<exists>x. database_latest (objs p, h) k = Inr x \<and> is_latest S k x) \<and>
    (\<forall>k a b. if a \<le> b then \<exists>xs. database_range (objs p, h) k a b = Inr xs \<and> is_range S k a b xs
       else database_range (objs p, h) k a b = Inl (InvalidArgument ''range end must not precede range start'')) \<and>
    (\<exists>ks. database_series (objs p, h) = Inr ks \<and> sorted_wrt (<) ks \<and> set ks = {k. \<exists>t. S k t \<noteq> None}) \<and>
    database_sample_count (objs p, h) = Inr (card (store_keys S) mod 2 ^ 64)"
proof -
  obtain S where S: "S \<in> db_spec_run evs (\<lambda>_. Map.empty)" and den: "sys_denotes (h, objs) S"
    by (rule system_store[OF assms(1,2)])
  show ?thesis using S database_answers[OF den assms(3,4)] by (intro bexI[of _ S]) blast+
qed

text \<open>The statistics of a usable object are the counters of its engine.\<close>

lemma database_stats_counts:
  assumes "engine_memtable_sample_count (db_engine I, h_fs h) = Inr m" "engine_segment_count (db_engine I, h_fs h) = Inr n"
  shows "\<exists>st. database_stats (\<lparr>db_impl = Some I\<rparr>, h) = Inr st \<and> ds_memtable_sample_count st = m \<and> ds_segment_count st = n"
proof -
  have "engine_ensure_usable (db_engine I) = Inr ()"
    using assms(1) by (cases "engine_ensure_usable (db_engine I)") (auto simp: engine_memtable_sample_count_def)
  then show ?thesis
    using assms unat_u64_less[of "se_logical_sample_count (db_engine I)"]
    by (simp add: database_stats_def implementation_def engine_stats_def engine_memtable_sample_count_def engine_segment_count_def)
qed

lemma segment_count_usable:
  "engine_memtable_sample_count s = Inr m \<Longrightarrow> \<exists>n. engine_segment_count s = Inr n"
  by (cases "engine_ensure_usable (fst s)") (auto simp: engine_memtable_sample_count_def engine_segment_count_def)

text \<open>A write that is not followed by a flush leaves the segments alone.\<close>

lemma unflushed_put:
  assumes den: "denotes wal_filename (Opened (db_engine I, h_fs h)) S" and wf: "series_wf k" "sample_wf x"
    and "db_flush_threshold_samples I = 0" and run: "impl_put k x (I, h) = (Inr (), (I', h'))"
  shows "\<exists>n m m'. engine_segment_count (db_engine I, h_fs h) = Inr n \<and> engine_segment_count (db_engine I', h_fs h') = Inr n \<and>
    engine_memtable_sample_count (db_engine I, h_fs h) = Inr m \<and> engine_memtable_sample_count (db_engine I', h_fs h') = Inr m'"
proof -
  obtain r1 I1 h1 where 1: "translate_corruption (on_engine (run_op (Put k x))) (I, h) = (r1, (I1, h1))" by (rule prod_cases3)
  obtain r0 where r0: "run_op (Put k x) (db_engine I, h_fs h) = (r0, (db_engine I1, h_fs h1))" "r1 = translate_result r0"
    "db_flush_threshold_samples I1 = db_flush_threshold_samples I"
    by (rule translated_effect[OF 1])
  have "r1 = Inr ()" "I' = I1" "h' = h1" using run 1 r0(3) assms(4) by (auto simp: impl_put_def act_bind_def split: sum.splits)
  moreover from this have "r0 = Inr ()" using r0(2) by (cases r0) auto
  ultimately have put: "engine_put k x (db_engine I, h_fs h) = (Inr (), (db_engine I', h_fs h'))" using r0(1) by simp
  then have "\<not> se_failed (db_engine I)" using failed_refuses[of "(db_engine I, h_fs h)" "Put k x"] by auto
  then obtain segs recs where inv: "engine_inv wal_filename (db_engine I, h_fs h) segs recs" using den by auto
  have "engine_inv wal_filename (db_engine I', h_fs h') segs (recs @ [WalPutRecord k x])"
    using engine_put_effect[OF inv wf put, THEN conjunct2, THEN conjunct1] by simp
  then show ?thesis using engine_inv_counts(2,4)[OF inv] engine_inv_counts(2,4) by blast
qed

lemma impl_put_usable:
  "impl_put k x (I, h) = (Inr (), s') \<Longrightarrow> \<exists>m. engine_memtable_sample_count (db_engine I, h_fs h) = Inr m"
  by (cases "se_failed (db_engine I)")
    (auto simp: impl_put_def act_bind_def translate_corruption_def on_engine_def engine_memtable_sample_count_def
      engine_ensure_usable_def engine_put_def)

text \<open>
  Claim C14.  Automatic flushes bound the MemTable: after a write through the public
  interface that returned, fewer samples than the flush threshold are in memory.  The
  threshold 0 turns automatic flushes off: then the write leaves the number of segments as
  it was.
\<close>

theorem put_bounds_memtable:
  assumes "new_system s0" "sys_steps dir s0 evs (h, objs)" "db_impl (objs p) = Some I"
    and "series_wf k" "sample_wf x" "database_put k x (objs p, h) = (Inr (), (D, h'))"
  shows "\<exists>st st'. database_stats (objs p, h) = Inr st \<and> database_stats (D, h') = Inr st' \<and>
    (if db_flush_threshold_samples I = 0 then ds_segment_count st' = ds_segment_count st
     else ds_memtable_sample_count st' < db_flush_threshold_samples I)"
proof -
  obtain S where den: "sys_denotes (h, objs) S" by (rule system_store[OF assms(1,2)])
  note o = owned[OF den assms(3)]
  obtain I' where I': "D = \<lparr>db_impl = Some I'\<rparr>" "impl_put k x (I, h) = (Inr (), (I', h'))"
    using assms(6) o(4) by (auto simp: database_put_def with_impl_def implementation_def split: prod.splits)
  let ?s = "(db_engine I, h_fs h)" and ?s' = "(db_engine I', h_fs h')"
  obtain m n m' n' where c: "engine_memtable_sample_count ?s = Inr m" "engine_segment_count ?s = Inr n"
    "engine_memtable_sample_count ?s' = Inr m'" "engine_segment_count ?s' = Inr n'"
    "if db_flush_threshold_samples I = 0 then n' = n else m' < db_flush_threshold_samples I"
  proof (cases "db_flush_threshold_samples I = 0")
    case True
    then show thesis using unflushed_put[OF o(3) assms(4,5) _ I'(2)] that by auto
  next
    case False
    then obtain m' where "m' < db_flush_threshold_samples I" "engine_memtable_sample_count ?s' = Inr m'"
      using impl_put_effect[OF o(3) assms(4,5) I'(2)] by blast
    moreover obtain m where "engine_memtable_sample_count ?s = Inr m" using impl_put_usable[OF I'(2)] by blast
    ultimately show thesis using that False segment_count_usable by fastforce
  qed
  then show ?thesis using database_stats_counts[OF c(1,2)] database_stats_counts[OF c(3,4)] I'(1) o(4) by fastforce
qed

lemma demo_put_returns:
  assumes th: "1 < db_flush_threshold_samples I" and q: "fs_script (h_fs h) = []"
    and inv: "engine_inv wal_filename (db_engine I, h_fs h) segs []"
  shows "\<exists>E f. database_put (wal_series demo_record) (wal_sample demo_record) (\<lparr>db_impl = Some I\<rparr>, h) =
    (Inr (), (\<lparr>db_impl = Some (I\<lparr>db_engine := E\<rparr>)\<rparr>, h\<lparr>h_fs := f\<rparr>)) \<and> \<not> se_failed E"
proof -
  obtain r E f where put: "engine_put (wal_series demo_record) (wal_sample demo_record) (db_engine I, h_fs h) = (r, (E, f))"
    by (rule prod_cases3)
  note eff = engine_put_effect[OF inv demo_put_wf(2,3) put]
  have r: "r = Inr ()"
    using eff[THEN conjunct2, THEN conjunct2, THEN conjunct2] demo_record_ok(2) length_demo_record q by simp
  then have inv': "engine_inv wal_filename (E, f) segs [demo_record]" using eff[THEN conjunct2, THEN conjunct1] by simp
  have c: "engine_memtable_sample_count (E, f) = Inr 1"
    using engine_inv_counts(4)[OF inv'] by (simp add: demo_record_keys)
  have "impl_put (wal_series demo_record) (wal_sample demo_record) (I, h) = (Inr (), (I\<lparr>db_engine := E\<rparr>, h\<lparr>h_fs := f\<rparr>))"
    using put r c th by (simp add: impl_put_def act_bind_def translate_corruption_def on_engine_def)
  then show ?thesis
    using inv' by (intro exI[of _ E] exI[of _ f]) (simp add: database_put_def with_impl_def implementation_def engine_inv_def)
qed

lemma demo_db_put:
  "\<exists>I h D h'. sys_steps ''db'' demo_system [DbOpened 0, DbEnvironment] (h, (\<lambda>_. closed)(0 := \<lparr>db_impl = Some I\<rparr>)) \<and>
     db_flush_threshold_samples I = 2 \<and>
     database_put (wal_series demo_record) (wal_sample demo_record) (\<lparr>db_impl = Some I\<rparr>, h) = (Inr (), (D, h')) \<and>
     (\<exists>J. D = \<lparr>db_impl = Some J\<rparr> \<and> \<not> se_failed (db_engine J))"
proof -
  obtain I h segs where d: "sys_steps ''db'' demo_system [DbOpened 0, DbEnvironment] (h, (\<lambda>_. closed)(0 := \<lparr>db_impl = Some I\<rparr>))"
    "db_flush_threshold_samples I = 2" "fs_script (h_fs h) = []" "engine_inv wal_filename (db_engine I, h_fs h) segs []"
    using demo_db_opened by blast
  have th: "1 < db_flush_threshold_samples I" using d(2) by simp
  show ?thesis using demo_put_returns[OF th d(3,4)] d(1,2) by fastforce
qed

theorem put_bounds_memtable_witness:
  "\<exists>D h D' h' st. database_put (wal_series demo_record) (wal_sample demo_record) (D, h) = (Inr (), (D', h')) \<and>
     database_stats (D', h') = Inr st \<and> ds_memtable_sample_count st < 2"
proof -
  obtain I h D h' where d: "sys_steps ''db'' demo_system [DbOpened 0, DbEnvironment] (h, (\<lambda>_. closed)(0 := \<lparr>db_impl = Some I\<rparr>))"
    "db_flush_threshold_samples I = 2"
    "database_put (wal_series demo_record) (wal_sample demo_record) (\<lparr>db_impl = Some I\<rparr>, h) = (Inr (), (D, h'))"
    using demo_db_put by blast
  from put_bounds_memtable[OF demo_system_new d(1), of 0 I "wal_series demo_record" "wal_sample demo_record" D h']
    d(2,3) demo_put_wf(2,3) show ?thesis by (intro exI[of _ "\<lparr>db_impl = Some I\<rparr>"] exI[of _ h] exI[of _ D] exI[of _ h']) auto
qed

lemma demo_put_history:
  "\<exists>h J. sys_steps ''db'' demo_system [DbOpened 0, DbEnvironment, DbReturned 0 (DbPut (wal_series demo_record) (wal_sample demo_record))]
     (h, (\<lambda>_. closed)(0 := \<lparr>db_impl = Some J\<rparr>)) \<and> \<not> se_failed (db_engine J)"
proof -
  obtain I h D h' J where d: "sys_steps ''db'' demo_system [DbOpened 0, DbEnvironment] (h, (\<lambda>_. closed)(0 := \<lparr>db_impl = Some I\<rparr>))"
    "database_put (wal_series demo_record) (wal_sample demo_record) (\<lparr>db_impl = Some I\<rparr>, h) = (Inr (), (D, h'))"
    "D = \<lparr>db_impl = Some J\<rparr>" "\<not> se_failed (db_engine J)"
    using demo_db_put by blast
  have "sys_step ''db'' (h, (\<lambda>_. closed)(0 := \<lparr>db_impl = Some I\<rparr>))
      (DbReturned 0 (DbPut (wal_series demo_record) (wal_sample demo_record))) (h', ((\<lambda>_. closed)(0 := \<lparr>db_impl = Some I\<rparr>))(0 := D))"
    by (rule sys_returned) (use d(2) demo_put_wf(2,3) in simp_all)
  from sys_steps_snoc[OF d(1) this] d(3,4) show ?thesis by (auto simp del: fun_upd_apply)
qed

theorem database_refines_witness:
  "\<exists>objs h. sys_steps ''db'' demo_system [DbOpened 0, DbEnvironment, DbReturned 0 (DbPut (wal_series demo_record) (wal_sample demo_record))] (h, objs) \<and>
     database_get (objs 0, h) (wal_series demo_record) (timestamp (wal_sample demo_record)) = Inr (Some (wal_sample demo_record))"
proof -
  obtain h J where d: "sys_steps ''db'' demo_system [DbOpened 0, DbEnvironment, DbReturned 0 (DbPut (wal_series demo_record) (wal_sample demo_record))]
     (h, (\<lambda>_. closed)(0 := \<lparr>db_impl = Some J\<rparr>))" "\<not> se_failed (db_engine J)" using demo_put_history by blast
  from database_refines[OF demo_system_new d(1), of 0 J] d show ?thesis
    by (intro exI[of _ "(\<lambda>_. closed)(0 := \<lparr>db_impl = Some J\<rparr>)"] exI[of _ h]) (auto simp: store_put_def)
qed

section \<open>Exceptions\<close>

fun internal_error :: "exn \<Rightarrow> bool" where
  "internal_error (ManifestFormatError _) \<longleftrightarrow> True"
| "internal_error (SegmentFormatError _) \<longleftrightarrow> True"
| "internal_error (WalFormatError _ _) \<longleftrightarrow> True"
| "internal_error _ \<longleftrightarrow> False"

definition public_result :: "'a result \<Rightarrow> bool" where
  "public_result r \<longleftrightarrow> (case r of Inl e \<Rightarrow> \<not> internal_error e | Inr _ \<Rightarrow> True)"

lemma translate_error_public [simp]: "\<not> internal_error (translate_error e)"
  by (cases e) simp_all

lemma public_simps [simp]:
  "public_result (Inr x)" "public_result (Inl e) \<longleftrightarrow> \<not> internal_error e" "public_result (translate_result r)"
  by (simp_all add: public_result_def translate_result_def split: sum.splits) (cases r; simp)

lemma public_bind:
  "public_result (fst (m s)) \<Longrightarrow> (\<And>x s'. public_result (fst (k x s'))) \<Longrightarrow> public_result (fst (act_bind m k s))"
  by (cases "m s"; cases "fst (m s)") (auto simp: act_bind_def)

lemma public_ebind: "public_result r \<Longrightarrow> (\<And>x. public_result (k x)) \<Longrightarrow> public_result (ebind r k)"
  by (cases r) auto

lemma public_translate [simp]: "public_result (fst (translate_corruption m s))"
  by (simp add: translate_corruption_def)

lemma public_implementation [simp]: "public_result (implementation D)"
  by (simp add: implementation_def split: option.splits)

lemma public_with_impl:
  assumes "\<And>I h. public_result (fst (m (I, h)))"
  shows "public_result (fst (with_impl m s))"
proof (cases "db_impl (fst s)")
  case (Some I)
  then show ?thesis
    using assms[of I "snd s"] by (cases "m (I, snd s)") (auto simp: with_impl_def implementation_def split: prod.splits)
qed (simp add: with_impl_def implementation_def)

lemma public_usable [simp]: "public_result (engine_ensure_usable E)"
  by (simp add: engine_ensure_usable_def)

lemma public_wal_sync: "public_result (fst (wal_sync s))"
  by (cases "synchronize_file (ww_path (fst s)) (snd s)"; cases "fst (synchronize_file (ww_path (fst s)) (snd s))")
    (simp_all add: wal_sync_def wal_ensure_usable_def)

lemma public_sync: "public_result (fst (engine_sync s))"
  unfolding engine_sync_def
proof (rule public_bind)
  fix s' :: engine_state
  show "public_result (fst (act_on_error (on_wal wal_sync) engine_fail s'))"
    using public_wal_sync[of "(se_wal (fst s'), snd s')"]
    by (cases "wal_sync (se_wal (fst s'), snd s')"; cases "fst (wal_sync (se_wal (fst s'), snd s'))")
      (auto simp: act_on_error_def on_wal_def)
qed simp

lemma public_prepare: "public_result (fst (prepare_database_directory dir h))"
  by (cases "sys_atomic (\<lambda>f. f) (h_fs h)"; cases "fst (sys_atomic (\<lambda>f. f) (h_fs h))")
    (auto simp: prepare_database_directory_def act_bind_def)

lemma public_impl_put: "public_result (fst (impl_put k x s))"
  unfolding impl_put_def
proof (rule public_bind)
  fix s' :: "DatabaseImpl \<times> host"
  show "public_result (fst (if db_flush_threshold_samples (fst s') \<noteq> 0
    then act_bind (act_get (\<lambda>s. engine_memtable_sample_count (impl_engine s))) (\<lambda>n s.
              if n \<ge> db_flush_threshold_samples (fst s)
              then translate_corruption (on_engine engine_flush) s else (Inr (), s)) s'
    else (Inr (), s')))"
    by (auto intro!: public_bind public_ebind simp: engine_memtable_sample_count_def)
qed simp

text \<open>
  Claim C15.  Internal format errors never cross the public interface: whatever the state of
  the files, of the object and of the system, an exception of an operation or query is not
  one of the internal manifest, segment or log format errors; corruption is reported as
  \<^verbatim>\<open>DatabaseCorruptionError\<close> with the internal message.
\<close>

theorem no_internal_errors:
  "public_result (fst (open_database dir opts h)) \<and> public_result (fst (run_db_op a s)) \<and>
   public_result (database_get s k t) \<and> public_result (database_latest s k) \<and> public_result (database_range s k t t') \<and>
   public_result (database_series s) \<and> public_result (database_sample_count s) \<and> public_result (database_empty s) \<and>
   public_result (database_stats s)"
proof (intro conjI)
  show "public_result (fst (open_database dir opts h))"
    unfolding open_database_def by (intro public_bind public_prepare) simp_all
  have "public_result (fst (on_engine engine_sync (I, h)))" for I h
    using public_sync[of "(db_engine I, h_fs h)"] by (auto simp: on_engine_def split: prod.splits)
  then show "public_result (fst (run_db_op a s))"
    by (cases a) (auto simp: database_put_def database_sync_def database_flush_def database_compact_def public_impl_put
        intro!: public_with_impl)
qed (auto simp: database_get_def database_latest_def database_range_def database_series_def database_sample_count_def
    database_empty_def database_stats_def engine_series_def engine_sample_count_def engine_empty_def engine_stats_def
    Let_def intro!: public_ebind)

end
