(* ===== verification/MemTableProperties.thy ===== *)
theory MemTableProperties
  imports MemTable
begin

text \<open>The properties of the MemTable: it implements the abstract store of samples.\<close>

text \<open>
  Claim C40.  The MemTable implements the abstract store.  Writing a sample refines the update of the
  store: the invariant of the table is kept, an existing sample of the series and timestamp is
  replaced, all others stay, and the running counter is the number of distinct series and
  timestamp pairs.  A point query finds exactly the stored sample, a range query returns the
  samples of the half-open range in time order and rejects a reversed range, and latest returns
  the sample with the greatest timestamp; none of them raises another error.
\<close>

theorem memtable_refines:
  assumes "memtable_inv m" "series_wf k" "sample_wf s"
  shows "memtable_inv (memtable_put k s m) \<and>
    memtable_content (memtable_put k s m) = store_put k s (memtable_content m) \<and>
    memtable_sample_count (memtable_put k s m) = card (store_keys (store_put k s (memtable_content m))) \<and>
    \<not> memtable_empty (memtable_put k s m) \<and>
    memtable_get m k' t = Inr (map_option (Sample t) (memtable_content m k' t)) \<and>
    (\<exists>x. memtable_latest m k' = Inr x \<and> is_latest (memtable_content m) k' x) \<and>
    (if a \<le> b then \<exists>xs. memtable_range m k' a b = Inr xs \<and> is_range (memtable_content m) k' a b xs
     else \<exists>msg. memtable_range m k' a b = Inl (InvalidArgument msg))"
proof -
  have inv: "memtable_inv (memtable_put k s m)" by (rule memtable_put_inv[OF assms])
  have keys: "(k, timestamp s) \<in> store_keys (store_put k s (memtable_content m))"
    by (simp add: store_keys_put)
  have fin: "finite (store_keys (memtable_content (memtable_put k s m)))"
    using inv by (auto simp: memtable_content_def memtable_inv_def intro: sm_finite_keys)
  have "memtable_content (memtable_put k s m) = store_put k s (memtable_content m) \<and>
    memtable_sample_count (memtable_put k s m) = card (store_keys (store_put k s (memtable_content m))) \<and>
    \<not> memtable_empty (memtable_put k s m)"
    using memtable_count_card[OF inv] memtable_content_put[OF assms(1)] keys fin
    by (auto simp: memtable_sample_count_def memtable_empty_def card_gt_0_iff)
  then show ?thesis
    using inv memtable.get_content[OF assms(1)] memtable.latest_content[OF assms(1)]
      memtable.range_content[OF assms(1)] memtable.range_reversed[OF assms(1)] by (auto simp: not_le)
qed

theorem memtable_refines_witness:
  "\<exists>m. m = memtable_put (SeriesKey ''cpu'' []) (Sample (Timestamp 1) 3) empty_memtable \<and>
     memtable_get m (SeriesKey ''cpu'' []) (Timestamp 1) = Inr (Some (Sample (Timestamp 1) 3)) \<and>
     memtable_sample_count (memtable_put (SeriesKey ''cpu'' []) (Sample (Timestamp 1) 7) m) = 1"
proof -
  let ?m = "memtable_put (SeriesKey ''cpu'' []) (Sample (Timestamp 1) 3) empty_memtable"
  have wf: "series_wf (SeriesKey ''cpu'' [])" "sample_wf (Sample (Timestamp 1) 3)" "sample_wf (Sample (Timestamp 1) 7)"
    by (simp_all add: series_wf_def sample_wf_def isfinite_def)
  have inv: "memtable_inv ?m" by (rule memtable_put_inv[OF memtable_inv_empty(1) wf(1,2)])
  have "memtable_content ?m (SeriesKey ''cpu'' []) (Timestamp 1) = Some 3"
    by (simp add: memtable_content_put store_put_def)
  then show ?thesis
    using memtable_refines[OF inv wf(1,3), of "SeriesKey ''cpu'' []" "Timestamp 1"]
    by (simp add: memtable_content_put store_keys_put)
qed

end
