(* ===== verification/DecimalFloat.thy ===== *)
theory DecimalFloat
  imports Complex_Main "HOL-Library.Log_Nat" SegmentNames
begin

text \<open>
  Decimal text for numbers, as the standard library converts them for the command-line
  client: \<^verbatim>\<open>std::from_chars\<close> for 64-bit integers and for doubles, and stream output of both,
  a double with \<^verbatim>\<open>std::setprecision(17)\<close>.  Doubles are their bit patterns; the conversions
  are exact rational arithmetic with one rounding to nearest, ties to even.
\<close>

section \<open>Rounding\<close>

definition round_div :: "nat \<Rightarrow> nat \<Rightarrow> nat" where
  "round_div a b =
     (let q = a div b; r = a mod b in if 2 * r < b \<or> 2 * r = b \<and> even q then q else q + 1)"

text \<open>The fraction \<open>n / d\<close> in units of \<open>b\<close> to the power \<open>e\<close>, rounded.\<close>

definition round_scaled :: "nat \<Rightarrow> nat \<Rightarrow> nat \<Rightarrow> int \<Rightarrow> nat" where
  "round_scaled n d b e = round_div (n * b ^ nat (- e)) (d * b ^ nat e)"

text \<open>The greatest \<open>e\<close> such that \<open>b\<close> to the power \<open>e\<close> is at most the fraction \<open>n / d\<close>.\<close>

definition floor_log :: "nat \<Rightarrow> nat \<Rightarrow> nat \<Rightarrow> int" where
  "floor_log b n d =
     (let e = int (floorlog b n) - int (floorlog b d)
      in if d * b ^ nat e \<le> n * b ^ nat (- e) then e else e - 1)"

section \<open>Doubles\<close>

definition double_sign :: "double \<Rightarrow> bool" where
  "double_sign v \<longleftrightarrow> bit v 63"

definition double_magnitude :: "double \<Rightarrow> nat" where
  "double_magnitude v = unat (take_bit 63 v)"

text \<open>The magnitude is \<open>M\<close> times two to the power \<open>E\<close>.\<close>

definition double_parts :: "nat \<Rightarrow> nat \<times> int" where
  "double_parts b = (if b < 2 ^ 52 then (b, - 1074) else (2 ^ 52 + b mod 2 ^ 52, int (b div 2 ^ 52) - 1075))"

definition double_of :: "bool \<Rightarrow> nat \<Rightarrow> double" where
  "double_of s b = (if s then set_bit 63 (of_nat b) else of_nat b)"

definition infinity_bits :: nat where
  "infinity_bits = 2047 * 2 ^ 52"

text \<open>The nearest magnitude to the fraction \<open>n / d\<close>; a result that is not in range gives \<^const>\<open>None\<close>.\<close>

definition nearest_double :: "nat \<Rightarrow> nat \<Rightarrow> nat option" where
  "nearest_double n d =
     (if n = 0 then Some 0
      else let E = max (- 1074) (floor_log 2 n d - 52);
               b = nat (E + 1074) * 2 ^ 52 + round_scaled n d 2 E
           in if b \<ge> infinity_bits \<or> b = 0 then None else Some b)"

text \<open>The nearest magnitude to the fraction \<open>n / d\<close>: underflow gives zero and overflow infinity.\<close>

definition rounded_magnitude :: "nat \<Rightarrow> nat \<Rightarrow> nat" where
  "rounded_magnitude n d =
     (if n = 0 then 0
      else let E = max (- 1074) (floor_log 2 n d - 52)
           in min infinity_bits (nat (E + 1074) * 2 ^ 52 + round_scaled n d 2 E))"

text \<open>The conversion of an integer, of at most 64 bits in the clients, to \<^verbatim>\<open>double\<close>.\<close>

definition double_of_int :: "int \<Rightarrow> double" where
  "double_of_int i = double_of (i < 0) (rounded_magnitude (nat \<bar>i\<bar>) 1)"

section \<open>Reading\<close>

definition is_digit :: "char \<Rightarrow> bool" where
  "is_digit c \<longleftrightarrow> 48 \<le> (of_char c :: nat) \<and> (of_char c :: nat) < 58"

definition all_digits :: "string \<Rightarrow> bool" where
  "all_digits s \<longleftrightarrow> s \<noteq> [] \<and> list_all is_digit s"

text \<open>\<^verbatim>\<open>std::from_chars\<close> of a \<^verbatim>\<open>std::int64_t\<close> that consumes the whole text.\<close>

definition from_chars_int64 :: "string \<Rightarrow> 64 word option" where
  "from_chars_int64 text =
     (let negative = (text \<noteq> [] \<and> hd text = CHR ''-''); ds = (if negative then tl text else text)
      in if \<not> all_digits ds then None
         else let n = (if negative then - int (decimal_value ds) else int (decimal_value ds))
              in if n < - (2 ^ 63) \<or> n > 2 ^ 63 - 1 then None else Some (of_int n))"

text \<open>
  \<^verbatim>\<open>std::from_chars\<close> of a \<^verbatim>\<open>double\<close> in the general format that consumes the whole text.
  The mantissa has digits before or after an optional point; an exponent is optional.
\<close>

definition parse_exponent :: "string \<Rightarrow> int option" where
  "parse_exponent s =
     (if s = [] then Some 0
      else if hd s \<noteq> CHR ''e'' \<and> hd s \<noteq> CHR ''E'' then None
      else let negative = (tl s \<noteq> [] \<and> hd (tl s) = CHR ''-'');
               signed = negative \<or> (tl s \<noteq> [] \<and> hd (tl s) = CHR ''+'');
               ds = (if signed then tl (tl s) else tl s)
           in if \<not> all_digits ds then None
              else Some (if negative then - int (decimal_value ds) else int (decimal_value ds)))"

definition parse_decimal :: "string \<Rightarrow> (nat \<times> int) option" where
  "parse_decimal s =
     (let ip = takeWhile is_digit s; rest = dropWhile is_digit s;
          point = (rest \<noteq> [] \<and> hd rest = CHR ''.'');
          fp = (if point then takeWhile is_digit (tl rest) else []);
          rest = (if point then dropWhile is_digit (tl rest) else rest)
      in if ip @ fp = [] then None
         else map_option (\<lambda>e. (decimal_value (ip @ fp), e - int (length fp))) (parse_exponent rest))"

definition to_lower :: "string \<Rightarrow> string" where
  "to_lower s = map (\<lambda>c. if 65 \<le> (of_char c :: nat) \<and> (of_char c :: nat) \<le> 90 then char_of ((of_char c :: nat) + 32) else c) s"

definition nan_char :: "char \<Rightarrow> bool" where
  "nan_char c \<longleftrightarrow> is_digit c \<or> c = CHR ''_'' \<or> (97 \<le> (of_char c :: nat) \<and> (of_char c :: nat) \<le> 122)"

definition parse_nan :: "string \<Rightarrow> bool" where
  "parse_nan s \<longleftrightarrow> s = ''nan'' \<or>
     (take 4 s = ''nan('' \<and> length s > 4 \<and> last s = CHR '')'' \<and> list_all nan_char (butlast (drop 4 s)))"

definition from_chars_double :: "string \<Rightarrow> double option" where
  "from_chars_double text =
     (let negative = (text \<noteq> [] \<and> hd text = CHR ''-''); s = (if negative then tl text else text)
      in if to_lower s = ''inf'' \<or> to_lower s = ''infinity'' then Some (double_of negative infinity_bits)
         else if parse_nan (to_lower s) then Some (double_of negative (infinity_bits + 2 ^ 51))
         else case parse_decimal s of
                None \<Rightarrow> None
              | Some (m, e) \<Rightarrow>
                  map_option (double_of negative) (nearest_double (m * 10 ^ nat e) (10 ^ nat (- e))))"

section \<open>Writing\<close>

definition print_int64 :: "64 word \<Rightarrow> string" where
  "print_int64 v = (if sint v < 0 then ''-'' @ decimal (nat (- sint v)) else decimal (nat (sint v)))"

definition strip_zeros :: "string \<Rightarrow> string" where
  "strip_zeros s = rev (dropWhile (\<lambda>c. c = CHR ''0'') (rev s))"

text \<open>A fraction part without trailing zeros, and without the point when nothing is left.\<close>

definition fraction_text :: "string \<Rightarrow> string" where
  "fraction_text s = (if strip_zeros s = [] then [] else ''.'' @ strip_zeros s)"

text \<open>Seventeen significant digits \<open>ds\<close>, the first of which has the weight ten to the power \<open>x\<close>, as \<^verbatim>\<open>%.17g\<close>.\<close>

definition general_text :: "string \<Rightarrow> int \<Rightarrow> string" where
  "general_text ds x =
     (if x < - 4 \<or> 17 \<le> x
      then hd ds # fraction_text (tl ds) @ ''e'' @ (if x < 0 then ''-'' else ''+'') @
           (if \<bar>x\<bar> < 10 then ''0'' else '''') @ decimal (nat \<bar>x\<bar>)
      else if x < 0 then ''0'' @ fraction_text (replicate (nat (- x) - 1) CHR ''0'' @ ds)
      else take (nat x + 1) ds @ fraction_text (drop (nat x + 1) ds))"

definition print_magnitude :: "nat \<Rightarrow> nat \<Rightarrow> string" where
  "print_magnitude n d =
     (if n = 0 then ''0''
      else let x = floor_log 10 n d; m = round_scaled n d 10 (x - 16)
           in if m = 10 ^ 17 then general_text (decimal (10 ^ 16)) (x + 1) else general_text (decimal m) x)"

definition print_double :: "double \<Rightarrow> string" where
  "print_double v =
     (let (M, E) = double_parts (double_magnitude v); sign = (if double_sign v then ''-'' else '''')
      in if double_magnitude v > infinity_bits then sign @ ''nan''
         else if double_magnitude v = infinity_bits then sign @ ''inf''
         else sign @ print_magnitude (M * 2 ^ nat E) (2 ^ nat (- E)))"

end
