(* ===== verification/Cli.thy ===== *)
theory Cli
  imports Database DecimalFloat
begin

text \<open>
  The command line client \<^verbatim>\<open>tools/chronostore_cli/main.cpp\<close>.  A \<open>process\<close> has the host of the
  path that its command names and the text it has written to the standard streams; the
  arguments are those of \<^verbatim>\<open>main\<close>, the program's name first.  A run returns an exit
  status, or \<open>Crashed\<close> when the process dies in a system call.
\<close>

section \<open>The process\<close>

record process =
  p_host :: host
  p_out :: string
  p_err :: string

abbreviation newline :: string where "newline \<equiv> [CHR 0x0A]"
abbreviation tabulator :: string where "tabulator \<equiv> [CHR 0x09]"

definition write_out :: "string \<Rightarrow> process \<Rightarrow> process" where
  "write_out text p = p\<lparr>p_out := p_out p @ text\<rparr>"

definition write_err :: "string \<Rightarrow> process \<Rightarrow> process" where
  "write_err text p = p\<lparr>p_err := p_err p @ text\<rparr>"

text \<open>
  \<^verbatim>\<open>error.what()\<close>.  A \<^verbatim>\<open>std::system_error\<close> appends the operating system's text for its code,
  which is the parameter \<open>strerror\<close>.
\<close>

fun what :: "(exn \<Rightarrow> string) \<Rightarrow> exn \<Rightarrow> string" where
  "what strerror (InvalidArgument s) = s"
| "what strerror (LengthError s) = s"
| "what strerror (LogicError s) = s"
| "what strerror (RuntimeError s) = s"
| "what strerror (OverflowError s) = s"
| "what strerror (SystemError s) = s @ '': '' @ strerror (SystemError s)"
| "what strerror (ManifestFormatError s) = s"
| "what strerror (SegmentFormatError s) = s"
| "what strerror (WalFormatError offset error) = make_format_error_message offset error"
| "what strerror (DatabaseBusyError s) = s"
| "what strerror (DatabaseCorruptionError s) = s"
| "what strerror Crashed = ''''"

text \<open>
  A block with a local database object: the destructor runs when the block returns and when
  it throws.  The body works on the object and the process.
\<close>

definition with_database :: "string \<Rightarrow> (Database \<times> process, 'a) act \<Rightarrow> (process, 'a) act" where
  "with_database directory body p =
     (case open_database directory default_options (p_host p) of
        (Inl e, h) \<Rightarrow> (Inl e, p\<lparr>p_host := h\<rparr>)
      | (Inr D, h) \<Rightarrow>
          (case body (D, p\<lparr>p_host := h\<rparr>) of (r, (D, p)) \<Rightarrow>
             (r, if r = Inl Crashed then p else p\<lparr>p_host := close_database D (p_host p)\<rparr>)))"

definition on_database :: "(Database \<times> host, 'a) act \<Rightarrow> (Database \<times> process, 'a) act" where
  "on_database m s =
     (case m (fst s, p_host (snd s)) of (r, (D, h)) \<Rightarrow> (r, (D, (snd s)\<lparr>p_host := h\<rparr>)))"

definition query :: "(Database \<times> host \<Rightarrow> 'a result) \<Rightarrow> (Database \<times> process, 'a) act" where
  "query q = act_get (\<lambda>s. q (fst s, p_host (snd s)))"

definition check :: "'a result \<Rightarrow> ('s, 'a) act" where
  "check r = act_get (\<lambda>_. r)"

section \<open>Arguments\<close>

definition print_usage :: "string \<Rightarrow> string" where
  "print_usage version_string =
     ''ChronoStore '' @ version_string @ newline @ newline @
     ''Usage:'' @ newline @
     ''  chronostore put <db> <measurement> <timestamp-ns> <value> [key=value ...]'' @ newline @
     ''  chronostore get <db> <measurement> <timestamp-ns> [key=value ...]'' @ newline @
     ''  chronostore latest <db> <measurement> [key=value ...]'' @ newline @
     ''  chronostore range <db> <measurement> <start-ns> <end-ns> [key=value ...]'' @ newline @
     ''  chronostore series <db>'' @ newline @
     ''  chronostore stats <db>'' @ newline @
     ''  chronostore sync <db>'' @ newline @
     ''  chronostore flush <db>'' @ newline @
     ''  chronostore compact <db>'' @ newline @
     ''  chronostore --help'' @ newline @
     ''  chronostore --version'' @ newline"

definition parse_timestamp :: "string \<Rightarrow> 64 word result" where
  "parse_timestamp text =
     (case from_chars_int64 text of
        None \<Rightarrow> Inl (InvalidArgument (''invalid timestamp: '' @ text))
      | Some v \<Rightarrow> Inr v)"

definition parse_value :: "string \<Rightarrow> double result" where
  "parse_value text =
     (case from_chars_double text of
        None \<Rightarrow> Inl (InvalidArgument (''invalid sample value: '' @ text))
      | Some v \<Rightarrow> Inr v)"

text \<open>The body of the loop over the tag arguments, and the loop.\<close>

definition parse_tag :: "string \<Rightarrow> Tag result" where
  "parse_tag encoded =
     (let separator = length (takeWhile (\<lambda>c. c \<noteq> CHR ''='') encoded)
      in if separator = length encoded \<or> separator = 0
         then Inl (InvalidArgument (''invalid tag; expected key=value: '' @ encoded))
         else make_Tag (take separator encoded) (drop (separator + 1) encoded))"

definition parse_tags :: "string list \<Rightarrow> nat \<Rightarrow> Tag list result" where
  "parse_tags arguments begin = emap parse_tag (drop begin arguments)"

definition make_series :: "string \<Rightarrow> string list \<Rightarrow> nat \<Rightarrow> SeriesKey result" where
  "make_series m arguments tag_begin = ebind (parse_tags arguments tag_begin) (make_SeriesKey m)"

section \<open>Commands\<close>

definition sample_text :: "Sample \<Rightarrow> string" where
  "sample_text x = print_int64 (nanoseconds_since_epoch (timestamp x)) @ tabulator @ print_double (sample_value x) @ newline"

definition print_sample :: "Sample \<Rightarrow> (Database \<times> process, unit) act" where
  "print_sample x s = (Inr (), apsnd (write_out (sample_text x)) s)"

definition run_put :: "string list \<Rightarrow> (process, nat) act" where
  "run_put arguments =
     (if length arguments < 6
      then act_throw (InvalidArgument ''put requires a database, measurement, timestamp, and value'')
      else with_database (arguments ! 2)
        (act_bind (check (make_series (arguments ! 3) arguments 6)) (\<lambda>series.
         act_bind (check (parse_timestamp (arguments ! 4))) (\<lambda>t.
         act_bind (check (parse_value (arguments ! 5))) (\<lambda>v.
         act_bind (check (make_Sample (Timestamp t) v)) (\<lambda>sample.
         act_bind (on_database (database_put series sample)) (\<lambda>_.
         act_return 0)))))))"

text \<open>The common end of \<open>run_latest\<close> and \<open>run_get\<close>.\<close>

definition report_sample :: "Sample option \<Rightarrow> (Database \<times> process, nat) act" where
  "report_sample sample =
     (case sample of None \<Rightarrow> act_return 2 | Some x \<Rightarrow> act_bind (print_sample x) (\<lambda>_. act_return 0))"

definition run_latest :: "string list \<Rightarrow> (process, nat) act" where
  "run_latest arguments =
     (if length arguments < 4 then act_throw (InvalidArgument ''latest requires a database and measurement'')
      else with_database (arguments ! 2)
        (act_bind (check (make_series (arguments ! 3) arguments 4)) (\<lambda>series.
         act_bind (query (\<lambda>s. database_latest s series)) report_sample)))"

definition run_get :: "string list \<Rightarrow> (process, nat) act" where
  "run_get arguments =
     (if length arguments < 5 then act_throw (InvalidArgument ''get requires a database, measurement, and timestamp'')
      else with_database (arguments ! 2)
        (act_bind (check (make_series (arguments ! 3) arguments 5)) (\<lambda>series.
         act_bind (check (parse_timestamp (arguments ! 4))) (\<lambda>t.
         act_bind (query (\<lambda>s. database_get s series (Timestamp t))) report_sample))))"

fun print_samples :: "Sample list \<Rightarrow> (Database \<times> process, unit) act" where
  "print_samples [] = act_return ()"
| "print_samples (x # xs) = act_bind (print_sample x) (\<lambda>_. print_samples xs)"

definition run_range :: "string list \<Rightarrow> (process, nat) act" where
  "run_range arguments =
     (if length arguments < 6
      then act_throw (InvalidArgument ''range requires a database, measurement, start timestamp, and end timestamp'')
      else with_database (arguments ! 2)
        (act_bind (check (make_series (arguments ! 3) arguments 6)) (\<lambda>series.
         act_bind (check (parse_timestamp (arguments ! 4))) (\<lambda>start.
         act_bind (check (parse_timestamp (arguments ! 5))) (\<lambda>stop.
         act_bind (query (\<lambda>s. database_range s series (Timestamp start) (Timestamp stop))) (\<lambda>samples.
         act_bind (print_samples samples) (\<lambda>_. act_return 0)))))))"

definition stats_text :: "DatabaseStats \<Rightarrow> string" where
  "stats_text stats =
     ''samples'' @ tabulator @ decimal (ds_sample_count stats) @ newline @
     ''memtable_samples'' @ tabulator @ decimal (ds_memtable_sample_count stats) @ newline @
     ''segments'' @ tabulator @ decimal (ds_segment_count stats) @ newline @
     ''wal_bytes'' @ tabulator @ decimal (unat (ds_wal_size_bytes stats)) @ newline"

definition print_text :: "string \<Rightarrow> (Database \<times> process, unit) act" where
  "print_text text s = (Inr (), apsnd (write_out text) s)"

definition run_stats :: "string list \<Rightarrow> (process, nat) act" where
  "run_stats arguments =
     (if length arguments \<noteq> 3 then act_throw (InvalidArgument ''stats requires exactly one database path'')
      else with_database (arguments ! 2)
        (act_bind (query database_stats) (\<lambda>stats.
         act_bind (print_text (stats_text stats)) (\<lambda>_. act_return 0))))"

definition series_text :: "SeriesKey \<Rightarrow> string" where
  "series_text k =
     measurement k @ concat (map (\<lambda>t. tabulator @ tag_key t @ ''='' @ tag_value t) (tags k)) @ newline"

definition run_series :: "string list \<Rightarrow> (process, nat) act" where
  "run_series arguments =
     (if length arguments \<noteq> 3 then act_throw (InvalidArgument ''series requires exactly one database path'')
      else with_database (arguments ! 2)
        (act_bind (query database_series) (\<lambda>ks.
         act_bind (print_text (concat (map series_text ks))) (\<lambda>_. act_return 0))))"

definition run_maintenance :: "string \<Rightarrow> string list \<Rightarrow> (process, nat) act" where
  "run_maintenance command arguments =
     (if length arguments \<noteq> 3
      then act_throw (InvalidArgument (command @ '' requires exactly one database path''))
      else with_database (arguments ! 2)
        (act_bind
           (on_database
              (if command = ''sync'' then database_sync
               else if command = ''flush'' then database_flush else database_compact))
           (\<lambda>_. act_return 0)))"

section \<open>The program\<close>

definition dispatch :: "string \<Rightarrow> string list \<Rightarrow> (process, nat) act" where
  "dispatch version_string arguments =
     (if length arguments < 2 then (\<lambda>p. (Inr 1, write_err (print_usage version_string) p))
      else let command = arguments ! 1 in
        if command = ''--help'' \<or> command = ''help''
        then (\<lambda>p. (Inr 0, write_out (print_usage version_string) p))
        else if command = ''--version''
        then (\<lambda>p. (Inr 0, write_out (''chronostore '' @ version_string @ newline) p))
        else if command = ''put'' then run_put arguments
        else if command = ''latest'' then run_latest arguments
        else if command = ''get'' then run_get arguments
        else if command = ''range'' then run_range arguments
        else if command = ''stats'' then run_stats arguments
        else if command = ''series'' then run_series arguments
        else if command = ''sync'' \<or> command = ''flush'' \<or> command = ''compact''
        then run_maintenance command arguments
        else (\<lambda>p. (Inr 1, write_err (''chronostore: unknown command: '' @ command @ newline @ newline @
               print_usage version_string) p)))"

text \<open>The handler of \<open>main\<close>: every exception of the library derives from \<^verbatim>\<open>std::exception\<close>.\<close>

definition cli_main :: "string \<Rightarrow> (exn \<Rightarrow> string) \<Rightarrow> string list \<Rightarrow> (process, nat) act" where
  "cli_main version_string strerror arguments p =
     (case dispatch version_string arguments p of
        (Inl e, p) \<Rightarrow>
          if e = Crashed then (Inl Crashed, p)
          else (Inr 1, write_err (''chronostore: '' @ what strerror e @ newline) p)
      | (Inr status, p) \<Rightarrow> (Inr status, p))"

end
