(* ===== verification/DecimalRoundtrip.thy ===== *)
theory DecimalRoundtrip
  imports DecimalFloat
begin

text \<open>
  Seventeen digits are enough: the text that the client prints for a finite double, read
  back, is the same double.  The first part is about numbers: rounding to nearest recovers a
  double from any number close enough to it.  The second part is about the text.
\<close>

section \<open>Rounding\<close>

lemma round_div_error:
  assumes "0 < b"
  shows "\<bar>real a / real b - real (round_div a b)\<bar> \<le> 1 / 2"
proof -
  have "a = b * (a div b) + a mod b" by simp
  then have "real a = real b * real (a div b) + real (a mod b)" by (metis of_nat_add of_nat_mult)
  then have e: "real a / real b = real (a div b) + real (a mod b) / real b" using assms by (simp add: field_simps)
  have m: "a mod b < b" using assms by simp
  show ?thesis
  proof (cases "2 * (a mod b) < b \<or> 2 * (a mod b) = b \<and> even (a div b)")
    case True
    then have "round_div a b = a div b" unfolding round_div_def Let_def by simp
    moreover have "2 * real (a mod b) \<le> real b" using True by linarith
    then have "real (a mod b) / real b \<le> 1 / 2" using assms by (simp add: field_simps)
    ultimately show ?thesis using e by simp
  next
    case False
    then have "round_div a b = a div b + 1" unfolding round_div_def Let_def by simp
    moreover have "2 * real (a mod b) \<ge> real b" using False by linarith
    then have "real (a mod b) / real b \<ge> 1 / 2" using assms by (simp add: field_simps)
    moreover have "real (a mod b) / real b < 1" using m assms by simp
    ultimately show ?thesis using e by simp
  qed
qed

lemma round_div_unique:
  assumes "0 < b" "\<bar>real a / real b - real q\<bar> < 1 / 2"
  shows "round_div a b = q"
proof -
  have "\<bar>real (round_div a b) - real q\<bar> < 1" using round_div_error[OF assms(1), of a] assms(2) by linarith
  then show ?thesis by linarith
qed

lemma scale_real:
  assumes "0 < b" "0 < d"
  shows "real (n * b ^ nat (- e)) / real (d * b ^ nat e) = real n / real d / (real b powi e)" "0 < d * b ^ nat e"
proof -
  show "0 < d * b ^ nat e" using assms by simp
  show "real (n * b ^ nat (- e)) / real (d * b ^ nat e) = real n / real d / (real b powi e)"
    using assms by (cases "0 \<le> e") (simp_all add: power_int_def field_simps)
qed

lemma scaled_abs:
  fixes p v q :: real
  assumes "0 < p"
  shows "\<bar>v / p - q\<bar> = \<bar>v - q * p\<bar> / p"
proof -
  have "v / p - q = (v - q * p) / p" using assms by (simp add: diff_divide_distrib)
  then show ?thesis using assms by simp
qed

lemma round_scaled_error:
  assumes "0 < b" "0 < d"
  shows "\<bar>real n / real d - real (round_scaled n d b e) * real b powi e\<bar> \<le> real b powi e / 2"
proof -
  have p: "0 < real b powi e" using assms by simp
  have "\<bar>real n / real d / (real b powi e) - real (round_scaled n d b e)\<bar> \<le> 1 / 2"
    using round_div_error[OF scale_real(2)[OF assms, of e], of "n * b ^ nat (- e)"] scale_real(1)[OF assms, of n e]
    by (simp only: round_scaled_def)
  then show ?thesis using p
    by (simp only: scaled_abs[OF p] pos_divide_le_eq mult.commute times_divide_eq_right mult_1_right)
qed

lemma round_scaled_unique:
  assumes "0 < b" "0 < d" "\<bar>real n / real d - real q * real b powi e\<bar> < real b powi e / 2"
  shows "round_scaled n d b e = q"
  unfolding round_scaled_def
proof (rule round_div_unique[OF scale_real(2)[OF assms(1,2)]])
  have p: "0 < real b powi e" using assms by simp
  have "\<bar>real n / real d / (real b powi e) - real q\<bar> < 1 / 2"
    using assms(3) p by (simp only: scaled_abs[OF p] pos_divide_less_eq mult.commute times_divide_eq_right mult_1_right)
  then show "\<bar>real (n * b ^ nat (- e)) / real (d * b ^ nat e) - real q\<bar> < 1 / 2"
    using scale_real(1)[OF assms(1,2)] by simp
qed

lemma floor_log_bounds:
  assumes "1 < b" "0 < n" "0 < d"
  shows "real b powi (floor_log b n d) \<le> real n / real d" "real n / real d < real b powi (floor_log b n d + 1)"
proof -
  let ?e = "int (floorlog b n) - int (floorlog b d)"
  have bn: "b ^ (floorlog b n - 1) \<le> n" "n < b ^ floorlog b n" "0 < floorlog b n"
    and bd: "b ^ (floorlog b d - 1) \<le> d" "d < b ^ floorlog b d" "0 < floorlog b d"
    using floorlog_bounds[of n b] floorlog_bounds[of d b] assms by (auto simp: floorlog_def)
  have b0: "0 < real b" using assms by simp
  have pw: "real b powi (int k - 1) = real (b ^ (k - 1))" "real b powi (int k) = real (b ^ k)" if "0 < k" for k
    using that by (simp_all add: power_int_def nat_diff_distrib)
  have rn: "real b powi (int (floorlog b n) - 1) \<le> real n" "real n < real b powi int (floorlog b n)"
    and rd: "real b powi (int (floorlog b d) - 1) \<le> real d" "real d < real b powi int (floorlog b d)"
    using bn bd pw by (simp_all only: of_nat_le_iff of_nat_less_iff)
  have "real b powi (?e - 1) = real b powi (int (floorlog b n) - 1) / real b powi int (floorlog b d)"
    using b0 power_int_diff[of "real b" "int (floorlog b n) - 1" "int (floorlog b d)"] by (simp add: algebra_simps)
  also have "\<dots> \<le> real n / real d" using rn rd assms b0 by (intro frac_le) auto
  finally have lo: "real b powi (?e - 1) \<le> real n / real d" .
  have "real n / real d < real b powi int (floorlog b n) / real b powi (int (floorlog b d) - 1)"
    using rn rd b0 by (intro frac_less) auto
  also have "\<dots> = real b powi (?e + 1)"
    using b0 power_int_diff[of "real b" "int (floorlog b n)" "int (floorlog b d) - 1"] by (simp add: algebra_simps)
  finally have hi: "real n / real d < real b powi (?e + 1)" .
  have "d * b ^ nat ?e \<le> n * b ^ nat (- ?e) \<longleftrightarrow> 1 \<le> real (n * b ^ nat (- ?e)) / real (d * b ^ nat ?e)"
    using scale_real(2)[of b d ?e] assms by (simp del: of_nat_mult of_nat_power)
  also have "\<dots> \<longleftrightarrow> 1 \<le> real n / real d / (real b powi ?e)" using scale_real(1)[of b d n ?e] assms by simp
  also have "\<dots> \<longleftrightarrow> real b powi ?e \<le> real n / real d"
    using b0 by (simp only: pos_le_divide_eq zero_less_power_int mult_1)
  finally have test: "d * b ^ nat ?e \<le> n * b ^ nat (- ?e) \<longleftrightarrow> real b powi ?e \<le> real n / real d" .
  show "real b powi (floor_log b n d) \<le> real n / real d" "real n / real d < real b powi (floor_log b n d + 1)"
    using lo hi test by (auto simp: floor_log_def Let_def)
qed

section \<open>Doubles\<close>

lemma double_parts_bounds:
  assumes "double_parts b = (M, E)"
  shows "M < 2 ^ 53" "- 1074 \<le> E" "E = - 1074 \<or> 2 ^ 52 \<le> M" "nat (E + 1074) * 2 ^ 52 + M = b"
proof -
  have q: "1 \<le> b div 2 ^ 52" if "\<not> b < 2 ^ 52" using that by (simp add: div_greater_zero_iff Suc_leI)
  show "M < 2 ^ 53" "- 1074 \<le> E" "E = - 1074 \<or> 2 ^ 52 \<le> M"
    using assms q mod_less_divisor[of "2 ^ 52" b] by (auto simp: double_parts_def split: if_splits)
  show "nat (E + 1074) * 2 ^ 52 + M = b"
  proof (cases "b < 2 ^ 52")
    case False
    define q where "q = b div 2 ^ 52"
    have q1: "1 \<le> q" using q[OF False] by (simp add: q_def)
    have e: "E = int q - 1075" "M = 2 ^ 52 + b mod 2 ^ 52" using False assms by (auto simp: double_parts_def q_def)
    have "nat (E + 1074) = q - 1" using e(1) by simp
    then have "nat (E + 1074) * 2 ^ 52 + M = (q - 1) * 2 ^ 52 + 2 ^ 52 + b mod 2 ^ 52" using e(2) by simp
    also have "\<dots> = q * 2 ^ 52 + b mod 2 ^ 52" using q1 by (cases q) auto
    also have "\<dots> = b" unfolding q_def by (rule div_mult_mod_eq)
    finally show ?thesis .
  qed (use assms in \<open>auto simp: double_parts_def\<close>)
qed

lemma two_powi: "(2 :: real) powi (e + int k) = 2 ^ k * 2 powi e"
proof -
  have "(2 :: real) powi (e + int k) = 2 powi e * 2 powi (int k)" by (rule power_int_add) simp
  then show ?thesis by (simp add: mult.commute)
qed

text \<open>A fraction close enough to a double rounds to it.\<close>

lemma nearest_double_recovers:
  assumes d: "0 < d" "0 < n" and parts: "double_parts b = (M, E)" and b: "0 < b" "b < infinity_bits"
    and close: "\<bar>real n / real d - real M * 2 powi E\<bar> < 2 powi E / 2"
    and edge: "M = 2 ^ 52 \<and> - 1074 < E \<longrightarrow> \<bar>real n / real d - real M * 2 powi E\<bar> < 2 powi E / 4"
  shows "nearest_double n d = Some b"
proof -
  let ?v = "real n / real d" and ?L = "floor_log 2 n d"
  let ?E = "max (- 1074) (?L - 52)"
  have fl: "2 powi ?L \<le> ?v" "?v < 2 powi (?L + 1)"
    using floor_log_bounds[of 2 n d] d by auto
  note pb = double_parts_bounds[OF parts]
  have pos: "0 < (2 :: real) powi e" for e by simp
  have mono: "e \<le> e' \<Longrightarrow> (2 :: real) powi e \<le> 2 powi e'" for e e' by (simp add: power_int_increasing)
  have eq: "nat (?E + 1074) * 2 ^ 52 + round_scaled n d 2 ?E = b"
  proof (cases ?E E rule: linorder_cases)
    case equal
    have "round_scaled n d 2 E = M" by (rule round_scaled_unique) (use d close in auto)
    then show ?thesis using pb(4) equal by simp
  next
    case greater
    then have "2 powi (E + 53) \<le> ?v" using fl(1) mono[of "E + 53" ?L] pb(2) by linarith
    moreover have "real M + 1 \<le> 2 ^ 53" using pb(1) by simp
    then have "(real M + 1) * 2 powi E \<le> 2 ^ 53 * 2 powi E" by (intro mult_right_mono) auto
    moreover have "2 powi (E + 53) = 2 ^ 53 * (2 :: real) powi E" using two_powi[of E 53] by simp
    ultimately have "2 powi E \<le> ?v - real M * 2 powi E" by (simp only: distrib_right mult_1)
    then show ?thesis using close pos[of E] by linarith
  next
    case less
    then have e: "- 1074 < E" and M: "2 ^ 52 \<le> M" using pb(3) by auto
    have up: "?v < 2 powi (E + 52)" using fl(2) mono[of "?L + 1" "E + 52"] less by linarith
    have p52: "2 powi (E + 52) = 2 ^ 52 * (2 :: real) powi E" using two_powi[of E 52] by simp
    have "real M * 2 powi E < 2 ^ 52 * 2 powi E + 2 powi E"
      using up close pos[of E] unfolding p52 by linarith
    then have "real M * 2 powi E < (2 ^ 52 + 1) * 2 powi E" by (simp only: distrib_right mult_1)
    then have "real M < 2 ^ 52 + 1" using pos[of E] by simp
    then have M52: "M = 2 ^ 52" using M by simp
    then have near: "\<bar>?v - 2 ^ 52 * 2 powi E\<bar> < 2 powi E / 4" using edge e by simp
    have half: "2 powi E = 2 * (2 :: real) powi (E - 1)" using two_powi[of "E - 1" 1] by simp
    have "(2 :: real) powi (E - 1 + 52) = 2 ^ 52 * 2 powi (E - 1)" using two_powi[of "E - 1" 52] by simp
    then have two: "2 ^ 52 * (2 :: real) powi E = 2 * 2 powi (E - 1 + 52)" using half by simp
    have "2 powi (E - 1 + 52) \<le> ?v"
      using near half pos[of "E - 1"] mono[of "E - 1" "E - 1 + 52"] unfolding two by linarith
    then have "\<not> ?L + 1 \<le> E - 1 + 52" using fl(2) mono[of "?L + 1" "E - 1 + 52"] by linarith
    then have E': "?E = E - 1" using less e by linarith
    have "round_scaled n d 2 (E - 1) = 2 ^ 53"
    proof (rule round_scaled_unique)
      show "\<bar>?v - real (2 ^ 53) * real 2 powi (E - 1)\<bar> < real 2 powi (E - 1) / 2"
        using near half by simp
    qed (use d in auto)
    moreover have "nat (E + 1074) = Suc (nat (E - 1 + 1074))" using e by linarith
    then have "nat (E - 1 + 1074) * 2 ^ 52 + 2 ^ 53 = nat (E + 1074) * 2 ^ 52 + 2 ^ 52" by simp
    ultimately show ?thesis unfolding E' using pb(4) M52 by simp
  qed
  show ?thesis unfolding nearest_double_def Let_def eq using b d by simp
qed

section \<open>Seventeen digits\<close>

text \<open>The digits that are printed: a number of seventeen digits and the weight of the first.\<close>

definition printed_digits :: "nat \<Rightarrow> nat \<Rightarrow> nat \<times> int" where
  "printed_digits n d =
     (let x = floor_log 10 n d; m = round_scaled n d 10 (x - 16)
      in if m = 10 ^ 17 then (10 ^ 16, x + 1) else (m, x))"

lemma print_magnitude_digits:
  "n \<noteq> 0 \<Longrightarrow> print_magnitude n d = (case printed_digits n d of (m, x) \<Rightarrow> general_text (decimal m) x)"
  by (simp add: print_magnitude_def printed_digits_def Let_def)

lemma ten_powi: "(10 :: real) powi (e + int k) = 10 ^ k * 10 powi e"
proof -
  have "(10 :: real) powi (e + int k) = 10 powi e * 10 powi (int k)" by (rule power_int_add) simp
  then show ?thesis by (simp add: mult.commute)
qed

lemma printed_digits_close:
  assumes n: "0 < n" "0 < d" and p: "printed_digits n d = (m, x)"
  shows "10 ^ 16 \<le> m" "m < 10 ^ 17"
    "\<bar>real m * 10 powi (x - 16) - real n / real d\<bar> * 10 ^ 16 * 2 \<le> real n / real d"
proof -
  let ?v = "real n / real d" and ?x = "floor_log 10 n d"
  let ?m = "round_scaled n d 10 (?x - 16)" and ?u = "(10 :: real) powi (?x - 16)"
  have u: "0 < ?u" by simp
  have x0: "(10 :: real) powi ?x = 10 ^ 16 * ?u" using ten_powi[of "?x - 16" 16] by simp
  have x1: "(10 :: real) powi (?x + 1) = 10 ^ 17 * ?u" using ten_powi[of "?x - 16" 17] by (simp add: add.commute)
  have fl: "10 ^ 16 * ?u \<le> ?v" "?v < 10 ^ 17 * ?u"
    using floor_log_bounds[of 10 n d] n x0 x1 by auto
  have err: "\<bar>?v - real ?m * ?u\<bar> \<le> ?u / 2" using round_scaled_error[of 10 d n "?x - 16"] n by simp
  define v u k where "v = ?v" and "u = ?u" and "k = ?m"
  have b: "0 < u" "10000000000000000 * u \<le> v" "v < 100000000000000000 * u" "\<bar>v - real k * u\<bar> \<le> u / 2"
    using u fl err by (simp_all add: v_def u_def k_def)
  then have "9999999999999999 * u < real k * u" "real k * u < 100000000000000001 * u" by linarith+
  then have "9999999999999999 < k" "k < 100000000000000001" using b(1) by simp_all
  then have lo: "10 ^ 16 \<le> ?m" and hi: "?m \<le> 10 ^ 17" by (simp_all add: k_def)
  have same: "real m * 10 powi (x - 16) = real ?m * ?u"
    using p ten_powi[of "?x - 16" 1] by (auto simp: printed_digits_def Let_def algebra_simps split: if_splits)
  show "10 ^ 16 \<le> m" "m < 10 ^ 17" using p lo hi by (auto simp: printed_digits_def Let_def split: if_splits)
  have "\<bar>?v - real ?m * ?u\<bar> * 10 ^ 16 * 2 \<le> ?u / 2 * 10 ^ 16 * 2" using err by simp
  also have "\<dots> \<le> ?v" using fl(1) by simp
  finally show "\<bar>real m * 10 powi (x - 16) - ?v\<bar> * 10 ^ 16 * 2 \<le> ?v" unfolding same by (simp only: abs_minus_commute)
qed

text \<open>The double that is nearest to the printed number is the one that was printed.\<close>

lemma printed_digits_recover:
  assumes parts: "double_parts b = (M, E)" and b: "0 < b" "b < infinity_bits"
    and p: "printed_digits (M * 2 ^ nat E) (2 ^ nat (- E)) = (m, x)"
    and q: "0 < d" "real n / real d = real m * 10 powi (x - 16)"
  shows "nearest_double n d = Some b"
proof -
  let ?v = "real M * 2 powi E"
  note pb = double_parts_bounds[OF parts]
  have M: "0 < M" using pb(2,3,4) b(1) by (cases "M = 0") auto
  have v: "real (M * 2 ^ nat E) / real (2 ^ nat (- E)) = ?v"
    using scale_real(1)[of 2 1 M "- E"] by (simp add: power_int_minus field_simps)
  have u: "0 < (2 :: real) powi E" by simp
  have pd: "10 ^ 16 \<le> m" "\<bar>real n / real d - ?v\<bar> * 10 ^ 16 * 2 \<le> ?v"
    using printed_digits_close[OF _ _ p] M v q(2) by simp_all
  have n: "0 < n" using q pd(1) by (cases "n = 0") auto
  define t where "t = \<bar>real n / real d - ?v\<bar>"
  define w where "w = (2 :: real) powi E"
  have w: "0 < w" and t: "20000000000000000 * t \<le> real M * w" using pd(2) by (simp_all add: t_def w_def mult.commute)
  have "real M * w < 9007199254740992 * w" using pb(1) w by simp
  then have "t < w / 2" using t w by linarith
  then have close: "\<bar>real n / real d - ?v\<bar> < 2 powi E / 2" by (simp add: t_def w_def)
  have "\<bar>real n / real d - ?v\<bar> < 2 powi E / 4" if M52: "M = 2 ^ 52"
  proof -
    have "real M * w = 4503599627370496 * w" using M52 by simp
    then have "t < w / 4" using t w by linarith
    then show ?thesis by (simp add: t_def w_def)
  qed
  then show ?thesis
    by (intro nearest_double_recovers[OF q(1) n parts b close]) simp
qed

end
