(* ===== verification/DecimalText.thy ===== *)
theory DecimalText
  imports DecimalRoundtrip
begin

text \<open>
  The text of a number: what \<^const>\<open>general_text\<close> writes, \<^const>\<open>parse_decimal\<close> reads as the same
  number, and so a finite double and a 64-bit integer survive printing and reading.
\<close>

section \<open>Digits\<close>

lemma decimal_value_Nil [simp]: "decimal_value [] = 0"
  by (simp add: decimal_value_def)

lemma decimal_value_snoc: "decimal_value (s @ [c]) = 10 * decimal_value s + digit_value c"
  by (simp add: decimal_value_def)

lemma decimal_value_append: "decimal_value (a @ b) = decimal_value a * 10 ^ length b + decimal_value b"
proof (induction b rule: rev_induct)
  case (snoc c b)
  have "decimal_value (a @ b @ [c]) = 10 * decimal_value (a @ b) + digit_value c"
    using decimal_value_snoc[of "a @ b" c] by simp
  then show ?case using snoc by (simp add: decimal_value_snoc algebra_simps)
qed simp

lemma decimal_value_less: "list_all is_digit s \<Longrightarrow> decimal_value s < 10 ^ length s"
proof (induction s rule: rev_induct)
  case (snoc c s)
  then have "digit_value c < 10" "decimal_value s < 10 ^ length s" by (auto simp: is_digit_def digit_value_def)
  then show ?case by (simp add: decimal_value_snoc)
qed simp

lemma decimal_is_digit: "list_all is_digit (decimal n)"
  using decimal_digits[of _ n] by (auto simp: list_all_iff is_digit_def)

lemma decimal_nonempty [simp]: "decimal n \<noteq> []"
  by (simp add: decimal.simps[of n])

lemma decimal_all_digits: "all_digits (decimal n)"
  by (simp add: all_digits_def decimal_is_digit)

lemma length_decimal_17:
  assumes "10 ^ 16 \<le> m" "m < 10 ^ 17"
  shows "length (decimal m) = 17"
proof -
  have "m < 10 ^ length (decimal m)" using decimal_value_less[OF decimal_is_digit[of m]] by (simp add: decimal_value_decimal)
  then have "(10 :: nat) ^ 16 < 10 ^ length (decimal m)" using assms(1) by linarith
  then have "16 < length (decimal m)" by (rule power_less_imp_less_exp[rotated]) simp
  then show ?thesis using length_decimal[OF assms(2)] by simp
qed

lemma zeros_value: "decimal_value (replicate k CHR ''0'') = 0"
  using decimal_value_zeros[of k "[]"] by simp

lemma strip_zeros_decomp:
  obtains k where "f = strip_zeros f @ replicate k CHR ''0''"
proof -
  let ?z = "\<lambda>c. c = CHR ''0''"
  have "takeWhile ?z (rev f) = replicate (length (takeWhile ?z (rev f))) CHR ''0''"
    by (intro replicate_eqI) (auto dest: set_takeWhileD)
  then have "rev f = replicate (length (takeWhile ?z (rev f))) CHR ''0'' @ dropWhile ?z (rev f)"
    by (metis takeWhile_dropWhile_id)
  then have "f = strip_zeros f @ replicate (length (takeWhile ?z (rev f))) CHR ''0''"
    unfolding strip_zeros_def by (metis rev_append rev_replicate rev_rev_ident)
  then show thesis by (rule that)
qed

lemma strip_zeros_value:
  "real (decimal_value (ip @ strip_zeros f)) * 10 powi (e - int (length (strip_zeros f))) =
   real (decimal_value (ip @ f)) * 10 powi (e - int (length f))"
proof -
  obtain k where k: "f = strip_zeros f @ replicate k CHR ''0''" by (rule strip_zeros_decomp)
  let ?s = "strip_zeros f"
  have l: "length f = length ?s + k" using arg_cong[OF k, of length] by simp
  have "ip @ f = (ip @ ?s) @ replicate k CHR ''0''" using k by simp
  then have "decimal_value (ip @ f) = decimal_value (ip @ ?s) * 10 ^ k"
    using decimal_value_append[of "ip @ ?s" "replicate k CHR ''0''"] by (simp add: zeros_value)
  then show ?thesis using ten_powi[of "e - int (length f)" k] l by simp
qed

lemma strip_zeros_digits: "list_all is_digit f \<Longrightarrow> list_all is_digit (strip_zeros f)"
  by (metis list_all_append strip_zeros_decomp)

section \<open>Reading what was written\<close>

lemma takeWhile_stops:
  assumes "list_all P xs" "ys = [] \<or> \<not> P (hd ys)"
  shows "takeWhile P (xs @ ys) = xs" "dropWhile P (xs @ ys) = ys"
proof -
  have "takeWhile P ys = []" "dropWhile P ys = ys" using assms(2) by (cases ys; auto)+
  then show "takeWhile P (xs @ ys) = xs" "dropWhile P (xs @ ys) = ys"
    using assms(1) by (simp_all add: takeWhile_append2 dropWhile_append2 list_all_iff)
qed

lemma parse_decimal_text:
  assumes "list_all is_digit ip" "ip \<noteq> []" "list_all is_digit f" "ex = [] \<or> hd ex = CHR ''e''" "parse_exponent ex = Some e"
  shows "parse_decimal (ip @ fraction_text f @ ex) =
    Some (decimal_value (ip @ strip_zeros f), e - int (length (strip_zeros f)))"
proof -
  have nd: "\<not> is_digit CHR ''.''" "\<not> is_digit CHR ''e''" by (simp_all add: is_digit_def)
  have ex: "ex = [] \<or> \<not> is_digit (hd ex)" "ex = [] \<or> hd ex \<noteq> CHR ''.''" using assms(4) nd by auto
  show ?thesis
  proof (cases "strip_zeros f = []")
    case True
    then show ?thesis
      using takeWhile_stops[OF assms(1) ex(1)] ex(2) assms(2,5) by (auto simp: parse_decimal_def fraction_text_def Let_def)
  next
    case False
    let ?r = "CHR ''.'' # strip_zeros f @ ex"
    have "takeWhile is_digit (ip @ ?r) = ip" "dropWhile is_digit (ip @ ?r) = ?r"
      using takeWhile_stops[OF assms(1), of ?r] nd by auto
    then show ?thesis
      using False takeWhile_stops[OF strip_zeros_digits[OF assms(3)] ex(1)] assms(2,5)
      by (simp add: parse_decimal_def fraction_text_def Let_def)
  qed
qed

lemma parse_exponent_text:
  "parse_exponent (''e'' @ (if x < 0 then ''-'' else ''+'') @ (if \<bar>x\<bar> < 10 then ''0'' else '''') @ decimal (nat \<bar>x\<bar>)) = Some x"
proof -
  define ds where "ds = (if \<bar>x\<bar> < 10 then ''0'' else '''') @ decimal (nat \<bar>x\<bar>)"
  have "all_digits ds" using decimal_is_digit by (simp add: all_digits_def is_digit_def ds_def)
  moreover have "decimal_value ds = nat \<bar>x\<bar>"
    using decimal_value_zeros[of 1 "decimal (nat \<bar>x\<bar>)"] by (simp add: decimal_value_decimal ds_def)
  ultimately have "parse_exponent (''e'' @ (if x < 0 then ''-'' else ''+'') @ ds) = Some x"
    by (simp add: parse_exponent_def Let_def)
  then show ?thesis by (simp only: ds_def)
qed

text \<open>A text of digits denotes the number \<open>m\<close> times ten to the power \<open>e\<close>.\<close>

definition denotes_decimal :: "string \<Rightarrow> nat \<Rightarrow> int \<Rightarrow> bool" where
  "denotes_decimal s m e \<longleftrightarrow> s \<noteq> [] \<and> is_digit (hd s) \<and>
     (\<exists>m' e'. parse_decimal s = Some (m', e') \<and> real m' * 10 powi e' = real m * 10 powi e)"

lemma denotes_decimalI:
  assumes "s = ip @ fraction_text f @ ex" "list_all is_digit ip" "ip \<noteq> []" "list_all is_digit f"
    "ex = [] \<or> hd ex = CHR ''e''" "parse_exponent ex = Some e" "decimal_value (ip @ f) = m" "e - int (length f) = x"
  shows "denotes_decimal s m x"
proof -
  have "is_digit (hd ip)" using assms(2,3) by (cases ip) auto
  then show ?thesis
    using parse_decimal_text[OF assms(2-6)] strip_zeros_value[of ip f e] assms(1,3,7,8) by (simp add: denotes_decimal_def)
qed

lemma scientific_denotes:
  assumes len: "length (decimal m) = 17" and x: "x < - 4 \<or> 17 \<le> x"
  shows "denotes_decimal (general_text (decimal m) x) m (x - 16)"
proof (rule denotes_decimalI)
  let ?ds = "decimal m"
  let ?ex = "''e'' @ (if x < 0 then ''-'' else ''+'') @ (if \<bar>x\<bar> < 10 then ''0'' else '''') @ decimal (nat \<bar>x\<bar>)"
  show "general_text ?ds x = [hd ?ds] @ fraction_text (tl ?ds) @ ?ex" using x by (simp add: general_text_def)
  show "decimal_value ([hd ?ds] @ tl ?ds) = m" using len decimal_value_decimal[of m] by (cases ?ds) auto
  show "list_all is_digit [hd ?ds]" "list_all is_digit (tl ?ds)"
    using decimal_is_digit[of m] len by (cases ?ds; simp)+
  show "parse_exponent ?ex = Some x" by (rule parse_exponent_text)
qed (use len in auto)

lemma small_denotes:
  assumes len: "length (decimal m) = 17" and x: "- 4 \<le> x" "x < 0"
  shows "denotes_decimal (general_text (decimal m) x) m (x - 16)"
proof (rule denotes_decimalI)
  let ?f = "replicate (nat (- x) - 1) CHR ''0'' @ decimal m"
  have zero: "is_digit CHR ''0''" by (simp add: is_digit_def)
  show "general_text (decimal m) x = ''0'' @ fraction_text ?f @ []" using x by (simp add: general_text_def)
  show "decimal_value (''0'' @ ?f) = m"
    using decimal_value_zeros[of "Suc (nat (- x) - 1)" "decimal m"] by (simp add: decimal_value_decimal)
  show "list_all is_digit ''0''" "list_all is_digit ?f" using decimal_is_digit[of m] zero by (auto simp: list_all_iff)
  show "parse_exponent [] = Some 0" by (simp add: parse_exponent_def)
  show "0 - int (length ?f) = x - 16" using x len by simp
qed simp_all

lemma plain_denotes:
  assumes len: "length (decimal m) = 17" and x: "0 \<le> x" "x < 17"
  shows "denotes_decimal (general_text (decimal m) x) m (x - 16)"
proof (rule denotes_decimalI)
  let ?ip = "take (nat x + 1) (decimal m)" and ?f = "drop (nat x + 1) (decimal m)"
  show "general_text (decimal m) x = ?ip @ fraction_text ?f @ []" using x by (simp add: general_text_def)
  show "decimal_value (?ip @ ?f) = m" by (simp only: append_take_drop_id decimal_value_decimal)
  show "parse_exponent [] = Some 0" by (simp add: parse_exponent_def)
  show "0 - int (length ?f) = x - 16" using x len by simp
  show "list_all is_digit ?ip" "list_all is_digit ?f"
    using decimal_is_digit[of m] by (auto simp: list_all_iff dest: in_set_takeD in_set_dropD)
qed (use len in auto)

lemma general_text_parses:
  assumes "10 ^ 16 \<le> m" "m < 10 ^ 17"
  shows "denotes_decimal (general_text (decimal m) x) m (x - 16)"
proof -
  note len = length_decimal_17[OF assms]
  consider "x < - 4 \<or> 17 \<le> x" | "- 4 \<le> x" "x < 0" | "0 \<le> x" "x < 17" by linarith
  then show ?thesis
    by cases (auto intro: scientific_denotes[OF len] small_denotes[OF len] plain_denotes[OF len])
qed

section \<open>Integers\<close>

theorem printed_int64_reads_back: "from_chars_int64 (print_int64 v) = Some v"
proof -
  have b: "- (2 ^ 63) \<le> sint v" "sint v < 2 ^ 63" using sint_greater_eq[of v] sint_less[of v] by simp_all
  have d: "decimal n \<noteq> [] \<and> is_digit (hd (decimal n))" for n
    using decimal_is_digit[of n] by (cases "decimal n") (simp_all del: decimal.simps)
  have h: "hd (decimal n) \<noteq> CHR ''-''" for n using d[of n] by (auto simp: is_digit_def)
  show ?thesis
  proof (cases "sint v < 0")
    case True
    then show ?thesis using b
      by (simp add: print_int64_def from_chars_int64_def decimal_all_digits decimal_value_decimal Let_def of_int_sint del: decimal.simps)
  next
    case False
    then show ?thesis using b h
      by (simp add: print_int64_def from_chars_int64_def decimal_all_digits decimal_value_decimal Let_def of_int_sint del: decimal.simps)
  qed
qed

section \<open>Doubles\<close>

lemma to_lower_Cons: "to_lower (c # s) = (if 65 \<le> (of_char c :: nat) \<and> (of_char c :: nat) \<le> 90 then char_of ((of_char c :: nat) + 32) else c) # to_lower s"
  by (simp add: to_lower_def)

lemma digit_text_plain:
  assumes "s \<noteq> []" "is_digit (hd s)"
  shows "hd s \<noteq> CHR ''-''" "to_lower s \<noteq> ''inf''" "to_lower s \<noteq> ''infinity''" "\<not> parse_nan (to_lower s)"
proof -
  obtain c t where s: "s = c # t" using assms(1) by (cases s) auto
  have d: "is_digit c" using assms s by simp
  then have l: "to_lower s = c # to_lower t" by (simp add: s to_lower_Cons is_digit_def)
  have n: "c \<noteq> CHR ''-''" "c \<noteq> CHR ''i''" "c \<noteq> CHR ''n''" using d by (auto simp: is_digit_def)
  show "hd s \<noteq> CHR ''-''" "to_lower s \<noteq> ''inf''" "to_lower s \<noteq> ''infinity''" "\<not> parse_nan (to_lower s)"
    using n by (simp_all add: l parse_nan_def) (simp add: s)
qed

lemma fraction_real: "real (m * 10 ^ nat e) / real (10 ^ nat (- e)) = real m * 10 powi e"
  using scale_real(1)[of 10 1 m "- e"] by (simp add: power_int_minus field_simps)

text \<open>What is printed for a finite magnitude is read as that magnitude.\<close>

lemma print_magnitude_reads:
  assumes b: "b < infinity_bits" and parts: "double_parts b = (M, E)"
  defines "s \<equiv> print_magnitude (M * 2 ^ nat E) (2 ^ nat (- E))"
  shows "s \<noteq> [] \<and> is_digit (hd s) \<and>
    (\<exists>m e. parse_decimal s = Some (m, e) \<and> nearest_double (m * 10 ^ nat e) (10 ^ nat (- e)) = Some b)"
proof (cases "b = 0")
  case True
  then have "M = 0" using parts by (simp add: double_parts_def)
  then have "s = ''0''" by (simp add: s_def print_magnitude_def)
  moreover have "parse_decimal ''0'' = Some (0, 0)" by code_simp
  ultimately show ?thesis using True by (simp add: nearest_double_def is_digit_def)
next
  case False
  then have M: "0 < M" using double_parts_bounds(3,4)[OF parts] parts
    by (cases "M = 0") (auto simp: double_parts_def split: if_splits)
  obtain m x where p: "printed_digits (M * 2 ^ nat E) (2 ^ nat (- E)) = (m, x)" by fastforce
  have s: "s = general_text (decimal m) x" using M by (simp add: s_def print_magnitude_digits p)
  have r: "10 ^ 16 \<le> m" "m < 10 ^ 17" using printed_digits_close(1,2)[OF _ _ p] M by simp_all
  obtain m' e' where q: "parse_decimal s = Some (m', e')" "real m' * 10 powi e' = real m * 10 powi (x - 16)"
    using general_text_parses[OF r, of x] s by (auto simp: denotes_decimal_def)
  have "nearest_double (m' * 10 ^ nat e') (10 ^ nat (- e')) = Some b"
    by (rule printed_digits_recover[OF parts _ b p]) (use False q(2) fraction_real[of m' e'] in simp_all)
  then show ?thesis using general_text_parses[OF r, of x] q(1) unfolding s denotes_decimal_def by blast
qed

lemma double_of_parts: "double_of (double_sign v) (double_magnitude v) = v"
proof (rule bit_word_eqI)
  fix n
  assume n: "n < LENGTH(64)"
  then have "n < 63 \<or> n = 63" by auto
  then show "bit (double_of (double_sign v) (double_magnitude v)) n = bit v n"
    by (auto simp: double_of_def double_sign_def double_magnitude_def bit_simps)
qed

lemma finite_magnitude:
  assumes "isfinite v"
  shows "double_magnitude v < infinity_bits"
proof -
  have "double_magnitude v = unat v mod (2 ^ 52 * 2 ^ 11)"
    unfolding double_magnitude_def unsigned_take_bit_eq by (simp only: take_bit_eq_mod flip: power_add) simp
  then have m: "double_magnitude v = 2 ^ 52 * (unat v div 2 ^ 52 mod 2 ^ 11) + unat v mod 2 ^ 52"
    by (simp only: mod_mult2_eq)
  have "unat (take_bit 11 (drop_bit 52 v)) = unat v div 2 ^ 52 mod 2 ^ 11"
    unfolding unsigned_take_bit_eq unsigned_drop_bit_eq using unsigned_less[of v, where 'a = nat] by (simp add: take_bit_eq_mod drop_bit_eq_div)
  moreover have "unat (take_bit 11 (drop_bit 52 v)) \<noteq> 2047"
  proof
    assume "unat (take_bit 11 (drop_bit 52 v)) = 2047"
    then have "(of_nat (unat (take_bit 11 (drop_bit 52 v))) :: double) = of_nat 2047" by (rule arg_cong)
    then have "take_bit 11 (drop_bit 52 v) = 2047" by (simp only: of_nat_unat ucast_id of_nat_numeral)
    then show False using assms by (simp add: isfinite_def)
  qed
  moreover have "unat v div 2 ^ 52 mod 2 ^ 11 < 2048" "unat v mod 2 ^ 52 < 2 ^ 52" by simp_all
  ultimately have "unat v div 2 ^ 52 mod 2 ^ 11 \<le> 2046" "unat v mod 2 ^ 52 < 4503599627370496" by simp_all
  then show ?thesis using m by (simp only: infinity_bits_def) simp
qed

text \<open>
  A finite double that is printed with seventeen significant digits is read back bit for bit:
  the sign of zero, subnormal numbers and the largest ones included.
\<close>

theorem printed_double_reads_back:
  assumes "isfinite v"
  shows "from_chars_double (print_double v) = Some v"
proof -
  obtain M E where p: "double_parts (double_magnitude v) = (M, E)" by fastforce
  define s where "s = print_magnitude (M * 2 ^ nat E) (2 ^ nat (- E))"
  note b = finite_magnitude[OF assms]
  obtain m e where s: "s \<noteq> []" "is_digit (hd s)" and d: "parse_decimal s = Some (m, e)"
    and n: "nearest_double (m * 10 ^ nat e) (10 ^ nat (- e)) = Some (double_magnitude v)"
    using print_magnitude_reads[OF b p] unfolding s_def[symmetric] by blast
  have "print_double v = (if double_sign v then ''-'' else '''') @ s"
    using b by (simp add: print_double_def p s_def)
  then show ?thesis
    using digit_text_plain[OF s] s(1) d n double_of_parts[of v]
    by (cases "double_sign v") (simp_all add: from_chars_double_def Let_def)
qed

lemma decimal_step: "\<not> n < 10 \<Longrightarrow> decimal n = decimal (n div 10) @ [char_of (48 + n mod 10)]"
  by (simp add: decimal.simps[of n])

lemma decimal_digit: "n < 10 \<Longrightarrow> decimal n = [char_of (48 + n)]"
  by (simp add: decimal.simps[of n])

end
