(* ===== verification/ViewText.thy ===== *)
theory ViewText
  imports Cli DecimalText
begin

text \<open>
  The text handling of the graphical client \<^verbatim>\<open>tools/chronoview/main.cpp\<close>: its fixed-size text
  fields, the tag notation and series labels.  A field is the whole character array; the
  library reads it as a C string, up to the first NUL.
\<close>

section \<open>Text fields\<close>

definition path_capacity :: nat where "path_capacity = 1024"
definition measurement_capacity :: nat where "measurement_capacity = 256"
definition tags_capacity :: nat where "tags_capacity = 1024"

definition set_text :: "nat \<Rightarrow> string \<Rightarrow> string result" where
  "set_text capacity source =
     (if length source \<ge> capacity then Inl (LengthError ''ChronoView text field exceeds its supported size'')
      else Inr (source @ replicate (capacity - length source) (CHR 0x00)))"

definition c_str :: "string \<Rightarrow> string" where
  "c_str field = takeWhile (\<lambda>c. c \<noteq> CHR 0x00) field"

section \<open>Tags\<close>

definition is_space :: "char \<Rightarrow> bool" where
  "is_space c \<longleftrightarrow> c = CHR '' '' \<or> c = CHR 0x09 \<or> c = CHR 0x0D \<or> c = CHR 0x0A"

text \<open>\<^verbatim>\<open>find_first_not_of\<close> and \<^verbatim>\<open>find_last_not_of\<close> of white space.\<close>

definition trim :: "string \<Rightarrow> string" where
  "trim input =
     (let first = length (takeWhile is_space input)
      in if first = length input then []
         else let last = length input - 1 - length (takeWhile is_space (rev input))
              in take (last - first + 1) (drop first input))"

text \<open>\<^verbatim>\<open>find\<close> of a character from a position; the length of the text stands for \<^verbatim>\<open>npos\<close>.\<close>

definition find_from :: "char \<Rightarrow> string \<Rightarrow> nat \<Rightarrow> nat" where
  "find_from c s start = start + length (takeWhile (\<lambda>d. d \<noteq> c) (drop start s))"

lemma find_from_bounds: "start \<le> length s \<Longrightarrow> start \<le> find_from c s start \<and> find_from c s start \<le> length s"
  using length_takeWhile_le[of "\<lambda>d. d \<noteq> c" "drop start s"] by (simp add: find_from_def)

text \<open>One item between commas.\<close>

definition parse_item :: "string \<Rightarrow> Tag result" where
  "parse_item item =
     (let equals = find_from CHR ''='' item 0
      in if item = [] \<or> equals = length item \<or> equals = 0
         then Inl (InvalidArgument ''tags must use comma-separated key=value pairs'')
         else let key = trim (take equals item); val = trim (drop (equals + 1) item)
              in if key = [] then Inl (InvalidArgument ''tag keys cannot be empty'') else make_Tag key val)"

function parse_tags_loop :: "string \<Rightarrow> nat \<Rightarrow> Tag list \<Rightarrow> Tag list result" where
  "parse_tags_loop encoded start ts =
     (if start > length encoded then Inr ts
      else let comma = find_from CHR '','' encoded start;
               item = trim (take (comma - start) (drop start encoded))
           in ebind (parse_item item) (\<lambda>t.
                if comma = length encoded then Inr (ts @ [t])
                else parse_tags_loop encoded (comma + 1) (ts @ [t])))"
  by pat_completeness auto

termination
proof (relation "measure (\<lambda>(encoded, start, ts). Suc (length encoded) - start)")
  fix encoded :: string and start comma :: nat and item ts t
  assume "\<not> start > length encoded" "comma = find_from CHR '','' encoded start"
  then have "start \<le> comma" "start \<le> length encoded" using find_from_bounds[of start encoded] by auto
  then show "((encoded, comma + 1, ts @ [t]), (encoded, start, ts)) \<in> measure (\<lambda>(encoded, start, ts). Suc (length encoded) - start)"
    by simp
qed simp

declare parse_tags_loop.simps [simp del]

definition view_parse_tags :: "string \<Rightarrow> Tag list result" where
  "view_parse_tags encoded =
     (let encoded = trim encoded in if encoded = [] then Inr [] else parse_tags_loop encoded 0 [])"

text \<open>The loop of \<open>encode_tags\<close>: a comma before every tag but the first.\<close>

fun encode_tags_from :: "nat \<Rightarrow> Tag list \<Rightarrow> string" where
  "encode_tags_from index [] = []"
| "encode_tags_from index (t # ts) =
     (if index \<noteq> 0 then '','' else '''') @ tag_key t @ ''='' @ tag_value t @ encode_tags_from (index + 1) ts"

definition encode_tags :: "Tag list \<Rightarrow> string" where
  "encode_tags ts = encode_tags_from 0 ts"

definition series_label :: "SeriesKey \<Rightarrow> string" where
  "series_label k =
     (if tags k = [] then measurement k else measurement k @ ''  ['' @ encode_tags (tags k) @ '']'')"

section \<open>Trimming\<close>

definition trimmed :: "string \<Rightarrow> bool" where
  "trimmed s \<longleftrightarrow> s = [] \<or> \<not> is_space (hd s) \<and> \<not> is_space (last s)"

lemma trim_middle:
  assumes a: "list_all is_space a" and z: "list_all is_space z" and m: "m \<noteq> []" "\<not> is_space (hd m)" "\<not> is_space (last m)"
  shows "trim (a @ m @ z) = m"
proof -
  have f: "takeWhile is_space (a @ m @ z) = a" by (rule takeWhile_stops(1)[OF a]) (use m in simp)
  have "takeWhile is_space (rev z @ rev (a @ m)) = rev z"
    by (rule takeWhile_stops(1)) (use z m in \<open>simp_all add: list_all_iff hd_rev\<close>)
  then have l: "takeWhile is_space (rev (a @ m @ z)) = rev z" by simp
  have "0 < length m" using m(1) by simp
  then have "length (a @ m @ z) - 1 - length z - length a + 1 = length m" by simp
  then show ?thesis using f l m(1) by (simp add: trim_def Let_def)
qed

lemma space_split:
  obtains a m z where "s = a @ m @ z" "list_all is_space a" "list_all is_space z" "trimmed m"
proof -
  let ?a = "takeWhile is_space s" and ?b = "dropWhile is_space s"
  let ?m = "rev (dropWhile is_space (rev ?b))" and ?z = "rev (takeWhile is_space (rev ?b))"
  have b: "?b = ?m @ ?z" by (metis rev_append rev_rev_ident takeWhile_dropWhile_id)
  then have s: "s = ?a @ ?m @ ?z" by (metis takeWhile_dropWhile_id)
  have sp: "list_all is_space ?a" "list_all is_space ?z" by (auto simp: list_all_iff dest: set_takeWhileD)
  have "trimmed ?m"
  proof (cases "?m = []")
    case False
    then have "hd ?m = hd ?b" using b by (metis hd_append2)
    moreover have "?b \<noteq> []" using False by (intro notI) simp
    ultimately have "\<not> is_space (hd ?m)" using hd_dropWhile[of is_space s] by simp
    moreover have "\<not> is_space (last ?m)" using False hd_dropWhile[of is_space "rev ?b"] by (simp add: last_rev)
    ultimately show ?thesis by (simp add: trimmed_def)
  qed (simp add: trimmed_def)
  then show thesis using that[OF s sp] by blast
qed

lemma trim_spaces: "list_all is_space s \<Longrightarrow> trim s = []"
  using takeWhile_eq_all_conv[of is_space s] by (simp add: trim_def list_all_iff del: takeWhile_eq_all_conv)

lemma trim_effect: "trimmed (trim s)" "set (trim s) \<subseteq> set s"
proof -
  obtain a m z where s: "s = a @ m @ z" "list_all is_space a" "list_all is_space z" "trimmed m" by (rule space_split)
  have "trim s = m"
  proof (cases "m = []")
    case True
    then show ?thesis using s trim_spaces by simp
  next
    case False
    then show ?thesis using s trim_middle[OF s(2,3)] by (simp add: trimmed_def)
  qed
  then show "trimmed (trim s)" "set (trim s) \<subseteq> set s" using s by auto
qed

lemma trim_trimmed: "trimmed s \<Longrightarrow> trim s = s"
  using trim_middle[of "[]" "[]" s] by (cases "s = []") (auto simp: trimmed_def trim_spaces)

section \<open>The tag notation\<close>

fun split_commas :: "string \<Rightarrow> string list" where
  "split_commas [] = [[]]"
| "split_commas (c # s) =
     (if c = CHR '','' then [] # split_commas s else (c # hd (split_commas s)) # tl (split_commas s))"

lemma split_commas_first:
  "split_commas s = takeWhile (\<lambda>c. c \<noteq> CHR '','') s #
     (if CHR '','' \<in> set s then split_commas (drop (Suc (length (takeWhile (\<lambda>c. c \<noteq> CHR '','') s))) s) else [])"
  by (induction s) auto

lemma find_from_length: "start \<le> length s \<Longrightarrow> find_from c s start = length s \<longleftrightarrow> c \<notin> set (drop start s)"
proof -
  assume a: "start \<le> length s"
  then have "find_from c s start = length s \<longleftrightarrow> length (takeWhile (\<lambda>d. d \<noteq> c) (drop start s)) = length (drop start s)"
    by (auto simp: find_from_def)
  also have "\<dots> \<longleftrightarrow> takeWhile (\<lambda>d. d \<noteq> c) (drop start s) = drop start s"
    by (metis takeWhile_eq_take take_all order_refl)
  also have "\<dots> \<longleftrightarrow> c \<notin> set (drop start s)" by (auto simp: takeWhile_eq_all_conv)
  finally show ?thesis .
qed

lemma parse_tags_loop_split:
  "start \<le> length e \<Longrightarrow> parse_tags_loop e start ts =
     ebind (emap (\<lambda>item. parse_item (trim item)) (split_commas (drop start e))) (\<lambda>us. Inr (ts @ us))"
proof (induction e start ts rule: parse_tags_loop.induct)
  case (1 e start ts)
  let ?s = "drop start e" and ?comma = "find_from CHR '','' e start"
  let ?item = "takeWhile (\<lambda>c. c \<noteq> CHR '','') ?s"
  note b = find_from_bounds[OF 1(2), of "CHR '',''"] and l = find_from_length[OF 1(2), of "CHR '',''"]
  have n: "?comma - start = length ?item" by (simp add: find_from_def)
  have item: "take (?comma - start) ?s = ?item" unfolding n by (simp add: takeWhile_eq_take[symmetric])
  have rest: "drop (Suc (length ?item)) ?s = drop (Suc ?comma) e" by (simp add: find_from_def add.commute)
  show ?case
  proof (cases "parse_item (trim ?item)")
    case (Inl err)
    then show ?thesis using 1(2) item by (simp add: parse_tags_loop.simps[of e start] split_commas_first[of ?s] Let_def)
  next
    case (Inr t)
    show ?thesis
    proof (cases "?comma = length e")
      case True
      then show ?thesis using 1(2) item Inr l by (simp add: parse_tags_loop.simps[of e start] split_commas_first[of ?s] Let_def)
    next
      case False
      then have c: "Suc ?comma \<le> length e" "CHR '','' \<in> set ?s" using b l by auto
      have "parse_tags_loop e (?comma + 1) (ts @ [t]) =
        ebind (emap (\<lambda>item. parse_item (trim item)) (split_commas (drop (Suc ?comma) e))) (\<lambda>us. Inr ((ts @ [t]) @ us))"
        using 1(1)[OF _ refl refl Inr[folded item] False] 1(2) c(1) by simp
      then show ?thesis
        using 1(2) item Inr False c(2) rest
        by (cases "emap (\<lambda>item. parse_item (trim item)) (split_commas (drop (Suc ?comma) e))")
          (simp_all add: parse_tags_loop.simps[of e start] split_commas_first[of ?s] Let_def)
    qed
  qed
qed

text \<open>
  The loop over byte positions ends for every text, and does what splitting at the commas and
  reading the items one by one would do.
\<close>

lemma view_parse_tags_split:
  "view_parse_tags input =
     (if trim input = [] then Inr [] else emap (\<lambda>item. parse_item (trim item)) (split_commas (trim input)))"
  using parse_tags_loop_split[of 0 "trim input" "[]"]
  by (cases "emap (\<lambda>item. parse_item (trim item)) (split_commas (trim input))") (simp_all add: view_parse_tags_def Let_def)

text \<open>The tags that the notation can express.\<close>

definition plain_tag :: "Tag \<Rightarrow> bool" where
  "plain_tag t \<longleftrightarrow> tag_key t \<noteq> [] \<and> trimmed (tag_key t) \<and> trimmed (tag_value t) \<and>
     CHR '','' \<notin> set (tag_key t) \<and> CHR '','' \<notin> set (tag_value t) \<and> CHR ''='' \<notin> set (tag_key t)"

definition tag_text :: "Tag \<Rightarrow> string" where
  "tag_text t = tag_key t @ ''='' @ tag_value t"

lemma encode_tags_Cons: "encode_tags (t # ts) = tag_text t @ concat (map (\<lambda>t. '','' @ tag_text t) ts)"
proof -
  have "encode_tags_from (Suc n) ts = concat (map (\<lambda>t. '','' @ tag_text t) ts)" for n
    by (induction ts arbitrary: n) (simp_all add: tag_text_def)
  then show ?thesis by (simp add: encode_tags_def tag_text_def)
qed

lemma split_commas_append: "CHR '','' \<notin> set x \<Longrightarrow> split_commas (x @ CHR '','' # y) = x # split_commas y"
  by (induction x) auto

lemma split_commas_plain: "CHR '','' \<notin> set x \<Longrightarrow> split_commas x = [x]"
  by (induction x) auto

lemma split_encoded:
  "list_all plain_tag (t # ts) \<Longrightarrow> split_commas (encode_tags (t # ts)) = map tag_text (t # ts)"
proof (induction ts arbitrary: t)
  case Nil
  then show ?case by (simp add: encode_tags_Cons split_commas_plain plain_tag_def tag_text_def)
next
  case (Cons u us)
  have "CHR '','' \<notin> set (tag_text t)" using Cons.prems by (simp add: plain_tag_def tag_text_def)
  moreover have "encode_tags (t # u # us) = tag_text t @ CHR '','' # encode_tags (u # us)" by (simp add: encode_tags_Cons)
  ultimately show ?case using Cons by (simp add: split_commas_append)
qed

lemma plain_text_trimmed: "plain_tag t \<Longrightarrow> trimmed (tag_text t)"
  by (auto simp: plain_tag_def trimmed_def tag_text_def is_space_def)

lemma encoded_trimmed: "list_all plain_tag (t # ts) \<Longrightarrow> trimmed (encode_tags (t # ts))"
proof (induction ts rule: rev_induct)
  case Nil
  then show ?case by (simp add: encode_tags_Cons plain_text_trimmed)
next
  case (snoc u us)
  then have "trimmed (tag_text t)" "trimmed (tag_text u)" "tag_text t \<noteq> []" "tag_text u \<noteq> []"
    using plain_text_trimmed by (simp_all, simp_all add: tag_text_def)
  then show ?case by (simp add: encode_tags_Cons trimmed_def)
qed

lemma parse_plain: "plain_tag t \<Longrightarrow> parse_item (tag_text t) = Inr t"
proof -
  assume p: "plain_tag t"
  then have "takeWhile (\<lambda>d. d \<noteq> CHR ''='') (tag_text t) = tag_key t"
    unfolding tag_text_def by (intro takeWhile_stops(1)) (auto simp: plain_tag_def list_all_iff)
  then have e: "find_from CHR ''='' (tag_text t) 0 = length (tag_key t)" by (simp add: find_from_def)
  then show ?thesis
    using p trim_trimmed by (simp add: parse_item_def e plain_tag_def tag_text_def make_Tag_def)
qed

lemma parse_item_plain:
  assumes "parse_item item = Inr t" "CHR '','' \<notin> set item"
  shows "plain_tag t" "set (tag_key t) \<subseteq> set item" "set (tag_value t) \<subseteq> set item"
proof -
  let ?n = "find_from CHR ''='' item 0"
  have t: "tag_key t = trim (take ?n item)" "tag_value t = trim (drop (?n + 1) item)" "tag_key t \<noteq> []"
    using assms(1) by (auto simp: parse_item_def Let_def make_Tag_Inr split: if_splits)
  have "take ?n item = takeWhile (\<lambda>d. d \<noteq> CHR ''='') item" by (simp add: find_from_def takeWhile_eq_take[symmetric])
  then have e: "CHR ''='' \<notin> set (tag_key t)"
    using trim_effect(2)[of "take ?n item"] t(1) by (auto dest: set_takeWhileD)
  show k: "set (tag_key t) \<subseteq> set item" "set (tag_value t) \<subseteq> set item"
    using t trim_effect(2)[of "take ?n item"] trim_effect(2)[of "drop (?n + 1) item"]
    by (auto dest: in_set_takeD in_set_dropD)
  show "plain_tag t"
    using t e k assms(2) trim_effect(1) by (auto simp: plain_tag_def)
qed

lemma split_commas_items: "item \<in> set (split_commas s) \<Longrightarrow> CHR '','' \<notin> set item \<and> set item \<subseteq> set s"
proof (induction s arbitrary: item)
  case (Cons c s)
  have "split_commas s \<noteq> []" by (cases s) auto
  then have "hd (split_commas s) \<in> set (split_commas s)" "set (tl (split_commas s)) \<subseteq> set (split_commas s)"
    by (auto dest: list.set_sel)
  then show ?case using Cons by (fastforce split: if_splits)
qed simp

lemma emap_in: "emap f xs = Inr ys \<Longrightarrow> y \<in> set ys \<Longrightarrow> \<exists>x\<in>set xs. f x = Inr y"
  by (induction xs arbitrary: ys) (auto simp: ebind_eq_Inr)

lemma parsed_tags_plain:
  assumes "view_parse_tags input = Inr ts" "t \<in> set ts"
  shows "plain_tag t" "set (tag_key t) \<union> set (tag_value t) \<subseteq> set input"
proof -
  have "emap (\<lambda>item. parse_item (trim item)) (split_commas (trim input)) = Inr ts"
    using assms by (auto simp: view_parse_tags_split split: if_splits)
  then obtain item where i: "item \<in> set (split_commas (trim input))" "parse_item (trim item) = Inr t"
    using emap_in[OF _ assms(2)] by blast
  have s: "CHR '','' \<notin> set (trim item)" "set (trim item) \<subseteq> set input"
    using split_commas_items[OF i(1)] trim_effect(2)[of item] trim_effect(2)[of input] by blast+
  show "plain_tag t" "set (tag_key t) \<union> set (tag_value t) \<subseteq> set input"
    using parse_item_plain[OF i(2) s(1)] s(2) by auto
qed

lemma tag_notation: "view_parse_tags (encode_tags ts) = Inr ts \<longleftrightarrow> list_all plain_tag ts"
proof
  assume "view_parse_tags (encode_tags ts) = Inr ts"
  then show "list_all plain_tag ts" using parsed_tags_plain(1) by (auto simp: list_all_iff)
next
  assume p: "list_all plain_tag ts"
  show "view_parse_tags (encode_tags ts) = Inr ts"
  proof (cases ts)
    case Nil
    then show ?thesis by (simp add: encode_tags_def view_parse_tags_def trim_def)
  next
    case (Cons t us)
    have tr: "trim (encode_tags ts) = encode_tags ts" using encoded_trimmed[of t us] p Cons by (simp add: trim_trimmed)
    have "encode_tags ts \<noteq> []" using p Cons by (simp add: encode_tags_Cons tag_text_def)
    moreover have "emap (\<lambda>item. parse_item (trim item)) (map tag_text us) = Inr us" if "list_all plain_tag us" for us
      using that by (induction us) (simp_all add: trim_trimmed plain_text_trimmed parse_plain)
    ultimately show ?thesis
      using tr split_encoded[of t us] p Cons by (simp add: view_parse_tags_split del: list.map)
  qed
qed

end
