(* ===== verification/ChronoView.thy ===== *)
theory ChronoView
  imports ViewText
begin

text \<open>
  The graphical client \<^verbatim>\<open>tools/chronoview/main.cpp\<close>: the class \<^verbatim>\<open>GuiState\<close> with all its operations,
  the handlers that the widgets run, and the program around them.  The widget toolkit is not
  modelled: what the user does is a list of events, and an event on a disabled widget does nothing.
\<close>

section \<open>The state\<close>

datatype QueryKind = query_none | query_point | query_latest | query_range

record GuiState =
  gs_database_path :: string
  gs_measurement :: string
  gs_tags :: string
  gs_sync_on_write :: bool
  gs_flush_threshold_samples :: u64
  gs_point_timestamp :: u64
  gs_range_start :: u64
  gs_range_end :: u64
  gs_write_timestamp :: u64
  gs_write_value :: double
  gs_database :: "Database option"
  gs_stats :: DatabaseStats
  gs_known_series :: "SeriesKey list"
  gs_selected_series :: int
  gs_query_kind :: QueryKind
  gs_single_result :: "Sample option"
  gs_range_result :: "Sample list"
  gs_plot_x :: "double list"
  gs_plot_y :: "double list"
  gs_status :: string
  gs_status_is_error :: bool

type_synonym gui = "GuiState \<times> host"

definition demo_start_timestamp :: u64 where "demo_start_timestamp = 1700000000000000000"
definition nanoseconds_per_second :: u64 where "nanoseconds_per_second = 1000000000"
definition demo_sample_count :: nat where "demo_sample_count = 240"

definition no_stats :: DatabaseStats where
  "no_stats = \<lparr>ds_sample_count = 0, ds_memtable_sample_count = 0, ds_segment_count = 0, ds_wal_size_bytes = 0\<rparr>"

text \<open>The initial value of \<open>write_value_\<close> is 21.5.\<close>

definition make_GuiState :: "string \<Rightarrow> GuiState result" where
  "make_GuiState initial_path =
     ebind (set_text path_capacity initial_path) (\<lambda>path.
     ebind (set_text measurement_capacity ''temperature'') (\<lambda>m.
     ebind (set_text tags_capacity ''room=lab'') (\<lambda>ts.
       Inr \<lparr>gs_database_path = path, gs_measurement = m, gs_tags = ts, gs_sync_on_write = True,
            gs_flush_threshold_samples = 4096, gs_point_timestamp = demo_start_timestamp,
            gs_range_start = demo_start_timestamp,
            gs_range_end = demo_start_timestamp + of_nat demo_sample_count * nanoseconds_per_second,
            gs_write_timestamp = demo_start_timestamp, gs_write_value = 0x4035800000000000,
            gs_database = None, gs_stats = no_stats, gs_known_series = [], gs_selected_series = - 1,
            gs_query_kind = query_none, gs_single_result = None, gs_range_result = [], gs_plot_x = [],
            gs_plot_y = [], gs_status = ''No database open'', gs_status_is_error = False\<rparr>)))"

text \<open>A conversion of a size to \<^verbatim>\<open>int\<close>.\<close>

definition int_of_size :: "nat \<Rightarrow> int" where
  "int_of_size n = sint (of_nat n :: 32 word)"

definition gui_modify :: "(GuiState \<Rightarrow> GuiState) \<Rightarrow> (gui, unit) act" where
  "gui_modify f s = (Inr (), apfst f s)"

definition perform :: "(exn \<Rightarrow> string) \<Rightarrow> string \<Rightarrow> (gui, unit) act \<Rightarrow> (gui, unit) act" where
  "perform strerror success_message operation s =
     (case operation s of
        (Inr _, s) \<Rightarrow> (Inr (), apfst (\<lambda>g. g\<lparr>gs_status := success_message, gs_status_is_error := False\<rparr>) s)
      | (Inl e, s) \<Rightarrow>
          if e = Crashed then (Inl Crashed, s)
          else (Inr (), apfst (\<lambda>g. g\<lparr>gs_status := what strerror e, gs_status_is_error := True\<rparr>) s))"

section \<open>Calls of the database\<close>

definition require_database :: "(gui, unit) act" where
  "require_database s =
     (if gs_database (fst s) = None then (Inl (LogicError ''no database is open''), s) else (Inr (), s))"

text \<open>A call through the pointer; its only callers have checked it.\<close>

definition gui_call :: "(Database \<times> host, 'a) act \<Rightarrow> (gui, 'a) act" where
  "gui_call m s =
     (case gs_database (fst s) of
        None \<Rightarrow> (Inl (LogicError ''no database is open''), s)
      | Some D \<Rightarrow> (case m (D, snd s) of (r, (D, h)) \<Rightarrow> (r, ((fst s)\<lparr>gs_database := Some D\<rparr>, h))))"

definition gui_query :: "(Database \<times> host \<Rightarrow> 'a result) \<Rightarrow> (gui, 'a) act" where
  "gui_query q = gui_call (act_get q)"

definition current_series :: "GuiState \<Rightarrow> SeriesKey result" where
  "current_series g =
     ebind (view_parse_tags (c_str (gs_tags g))) (make_SeriesKey (c_str (gs_measurement g)))"

definition get_series :: "(gui, SeriesKey) act" where
  "get_series = act_get (\<lambda>s. current_series (fst s))"

section \<open>Operations\<close>

definition clear_results :: "GuiState \<Rightarrow> GuiState" where
  "clear_results g =
     g\<lparr>gs_query_kind := query_none, gs_single_result := None, gs_range_result := [], gs_plot_x := [], gs_plot_y := []\<rparr>"

definition refresh_metadata :: "(gui, unit) act" where
  "refresh_metadata =
     act_bind require_database (\<lambda>_.
     act_bind (gui_query database_stats) (\<lambda>st.
     act_bind (gui_modify (\<lambda>g. g\<lparr>gs_stats := st\<rparr>)) (\<lambda>_.
     act_bind (gui_query database_series) (\<lambda>ks.
       gui_modify (\<lambda>g. g\<lparr>gs_known_series := ks,
         gs_selected_series := (if gs_selected_series g \<ge> int_of_size (length ks) then - 1 else gs_selected_series g)\<rparr>)))))"

definition set_field :: "nat \<Rightarrow> string \<Rightarrow> (string \<Rightarrow> GuiState \<Rightarrow> GuiState) \<Rightarrow> (gui, unit) act" where
  "set_field capacity source put = act_bind (act_get (\<lambda>_. set_text capacity source)) (\<lambda>field. gui_modify (put field))"

definition select_series :: "nat \<Rightarrow> (gui, unit) act" where
  "select_series index s =
     (if index \<ge> length (gs_known_series (fst s)) then (Inr (), s)
      else let series = gs_known_series (fst s) ! index in
        act_bind (gui_modify (\<lambda>g. g\<lparr>gs_selected_series := int_of_size index\<rparr>)) (\<lambda>_.
        act_bind (set_field measurement_capacity (measurement series) (\<lambda>field g. g\<lparr>gs_measurement := field\<rparr>)) (\<lambda>_.
        act_bind (set_field tags_capacity (encode_tags (tags series)) (\<lambda>field g. g\<lparr>gs_tags := field\<rparr>)) (\<lambda>_.
          gui_modify clear_results))) s)"

definition gui_options :: "GuiState \<Rightarrow> DatabaseOptions" where
  "gui_options g =
     \<lparr>durability = (if gs_sync_on_write g then sync_on_write else durability_buffered),
      memtable_flush_threshold_samples = unat (gs_flush_threshold_samples g)\<rparr>"

definition make_database :: "(gui, unit) act" where
  "make_database s =
     (case open_database (c_str (gs_database_path (fst s))) (gui_options (fst s)) (snd s) of
        (Inl e, h) \<Rightarrow> (Inl e, (fst s, h))
      | (Inr D, h) \<Rightarrow> (Inr (), ((fst s)\<lparr>gs_database := Some D\<rparr>, h)))"

definition gui_open_database :: "(gui, unit) act" where
  "gui_open_database s =
     (if gs_database (fst s) \<noteq> None then (Inr (), s)
      else if unat (gs_flush_threshold_samples (fst s)) > 2 ^ 64 - 1
      then (Inl (InvalidArgument ''flush threshold is too large''), s)
      else act_bind make_database (\<lambda>_.
           act_bind refresh_metadata (\<lambda>_ s.
             if gs_known_series (fst s) \<noteq> [] then select_series 0 s else (Inr (), s))) s)"

definition gui_close_database :: "gui \<Rightarrow> gui" where
  "gui_close_database s =
     ((clear_results (fst s))\<lparr>gs_database := None, gs_known_series := [], gs_selected_series := - 1, gs_stats := no_stats,
        gs_status := ''No database open'', gs_status_is_error := False\<rparr>,
      case gs_database (fst s) of None \<Rightarrow> snd s | Some D \<Rightarrow> close_database D (snd s))"

text \<open>The loop of \<open>select_known_series\<close> from an index on.\<close>

fun find_series :: "SeriesKey \<Rightarrow> nat \<Rightarrow> SeriesKey list \<Rightarrow> nat option" where
  "find_series series index [] = None"
| "find_series series index (k # ks) = (if k = series then Some index else find_series series (index + 1) ks)"

definition select_known_series :: "SeriesKey \<Rightarrow> GuiState \<Rightarrow> GuiState" where
  "select_known_series series g =
     (case find_series series 0 (gs_known_series g) of
        None \<Rightarrow> g
      | Some index \<Rightarrow> g\<lparr>gs_selected_series := int_of_size index\<rparr>)"

definition put_sample :: "(gui, unit) act" where
  "put_sample =
     act_bind require_database (\<lambda>_.
     act_bind get_series (\<lambda>series.
     act_bind (act_get (\<lambda>s. make_Sample (Timestamp (gs_write_timestamp (fst s))) (gs_write_value (fst s)))) (\<lambda>sample.
     act_bind (gui_call (database_put series sample)) (\<lambda>_.
     act_bind refresh_metadata (\<lambda>_.
       gui_modify (select_known_series series))))))"

text \<open>The common end of the point and the latest query.\<close>

definition show_single :: "QueryKind \<Rightarrow> Sample option \<Rightarrow> GuiState \<Rightarrow> GuiState" where
  "show_single kind x g =
     g\<lparr>gs_single_result := x, gs_range_result := [], gs_plot_x := [], gs_plot_y := [], gs_query_kind := kind\<rparr>"

definition gui_query_point :: "(gui, unit) act" where
  "gui_query_point =
     act_bind require_database (\<lambda>_.
     act_bind get_series (\<lambda>series s.
     act_bind (gui_query (\<lambda>d. database_get d series (Timestamp (gs_point_timestamp (fst s))))) (\<lambda>x.
       gui_modify (show_single query_point x)) s))"

definition gui_query_latest :: "(gui, unit) act" where
  "gui_query_latest =
     act_bind require_database (\<lambda>_.
     act_bind get_series (\<lambda>series.
     act_bind (gui_query (\<lambda>d. database_latest d series)) (\<lambda>x.
       gui_modify (show_single query_latest x))))"

text \<open>
  The difference of two timestamps as a double.  \<^verbatim>\<open>long double\<close> holds both and their difference
  exactly where it has a 64-bit significand, so the only rounding is the last conversion.
\<close>

definition plot_offset :: "u64 \<Rightarrow> Sample \<Rightarrow> double" where
  "plot_offset origin x = double_of_int (sint (nanoseconds_since_epoch (timestamp x)) - sint origin)"

definition rebuild_plot :: "GuiState \<Rightarrow> GuiState" where
  "rebuild_plot g =
     (case gs_range_result g of
        [] \<Rightarrow> g\<lparr>gs_plot_x := [], gs_plot_y := []\<rparr>
      | x # xs \<Rightarrow> g\<lparr>gs_plot_x := map (plot_offset (nanoseconds_since_epoch (timestamp x))) (x # xs),
                   gs_plot_y := map sample_value (x # xs)\<rparr>)"

definition gui_query_range :: "(gui, unit) act" where
  "gui_query_range =
     act_bind require_database (\<lambda>_.
     act_bind get_series (\<lambda>series s.
     act_bind (gui_query (\<lambda>d. database_range d series (Timestamp (gs_range_start (fst s))) (Timestamp (gs_range_end (fst s)))))
       (\<lambda>xs. gui_modify (\<lambda>g. rebuild_plot (g\<lparr>gs_range_result := xs, gs_single_result := None, gs_query_kind := query_range\<rparr>))) s))"

text \<open>
  The samples of the demonstration: their values are computed with \<^verbatim>\<open>std::sin\<close> in double
  arithmetic and are the parameter \<open>demo_value\<close>.
\<close>

fun put_demo :: "(nat \<Rightarrow> double) \<Rightarrow> SeriesKey \<Rightarrow> nat list \<Rightarrow> (gui, unit) act" where
  "put_demo demo_value series [] = act_return ()"
| "put_demo demo_value series (index # rest) =
     act_bind (act_get (\<lambda>_. make_Sample (Timestamp (demo_start_timestamp + of_nat index * nanoseconds_per_second)) (demo_value index))) (\<lambda>sample.
     act_bind (gui_call (database_put series sample)) (\<lambda>_. put_demo demo_value series rest))"

definition generate_demo :: "(nat \<Rightarrow> double) \<Rightarrow> (gui, unit) act" where
  "generate_demo demo_value =
     act_bind require_database (\<lambda>_.
     act_bind (set_field measurement_capacity ''temperature'' (\<lambda>field g. g\<lparr>gs_measurement := field\<rparr>)) (\<lambda>_.
     act_bind (set_field tags_capacity ''room=lab'' (\<lambda>field g. g\<lparr>gs_tags := field\<rparr>)) (\<lambda>_.
     act_bind get_series (\<lambda>series.
     act_bind (put_demo demo_value series [0..<demo_sample_count]) (\<lambda>_.
     act_bind (gui_call database_flush) (\<lambda>_.
     act_bind (gui_modify (\<lambda>g.
       let stop = demo_start_timestamp + of_nat demo_sample_count * nanoseconds_per_second
       in g\<lparr>gs_range_start := demo_start_timestamp, gs_range_end := stop,
            gs_point_timestamp := demo_start_timestamp, gs_write_timestamp := stop\<rparr>)) (\<lambda>_.
     act_bind refresh_metadata (\<lambda>_.
     act_bind (gui_modify (select_known_series series)) (\<lambda>_.
       gui_query_range)))))))))"

definition gui_maintain :: "(Database \<times> host, unit) act \<Rightarrow> (gui, unit) act" where
  "gui_maintain m =
     act_bind require_database (\<lambda>_. act_bind (gui_call m) (\<lambda>_. refresh_metadata))"

definition gui_sync :: "(gui, unit) act" where "gui_sync = gui_maintain database_sync"
definition gui_flush :: "(gui, unit) act" where "gui_flush = gui_maintain database_flush"
definition gui_compact :: "(gui, unit) act" where "gui_compact = gui_maintain database_compact"

definition connected :: "GuiState \<Rightarrow> bool" where
  "connected g \<longleftrightarrow> gs_database g \<noteq> None"

section \<open>Events\<close>

text \<open>
  What the user can do.  An edit of a text field carries the character array after it: the
  toolkit keeps a NUL within the size of the array.  The host of the state is that of the path in
  the path field, so an edit of the path carries the host of the new path.
\<close>

datatype gui_event =
    EditPath string host | EditSyncOnWrite bool | EditFlushThreshold u64
  | EditMeasurement string | EditTags string
  | EditPointTimestamp u64 | EditRangeStart u64 | EditRangeEnd u64
  | EditWriteTimestamp u64 | EditWriteValue double
  | ClickOpen | ClickRefresh | ClickClose | ClickSeries nat
  | ClickLatest | ClickGet | ClickRange | ClickPut | ClickDemo
  | ClickSync | ClickFlush | ClickCompact

definition field_ok :: "nat \<Rightarrow> string \<Rightarrow> bool" where
  "field_ok capacity field \<longleftrightarrow> length field = capacity \<and> CHR 0x00 \<in> set field"

definition edit :: "bool \<Rightarrow> (GuiState \<Rightarrow> GuiState) \<Rightarrow> (gui, unit) act" where
  "edit enabled f s = (if enabled then gui_modify f s else (Inr (), s))"

text \<open>The sidebar: the settings are disabled while a database is open; a click on a series is not protected.\<close>

fun sidebar_event :: "(exn \<Rightarrow> string) \<Rightarrow> gui_event \<Rightarrow> (gui, unit) act" where
  "sidebar_event strerror (EditPath field h) s =
     (if \<not> connected (fst s) \<and> field_ok path_capacity field then (Inr (), ((fst s)\<lparr>gs_database_path := field\<rparr>, h))
      else (Inr (), s))"
| "sidebar_event strerror (EditSyncOnWrite b) s = edit (\<not> connected (fst s)) (\<lambda>g. g\<lparr>gs_sync_on_write := b\<rparr>) s"
| "sidebar_event strerror (EditFlushThreshold n) s = edit (\<not> connected (fst s)) (\<lambda>g. g\<lparr>gs_flush_threshold_samples := n\<rparr>) s"
| "sidebar_event strerror ClickOpen s =
     (if connected (fst s) then (Inr (), s) else perform strerror ''Database opened'' gui_open_database s)"
| "sidebar_event strerror ClickRefresh s =
     (if connected (fst s) then perform strerror ''Metadata refreshed'' refresh_metadata s else (Inr (), s))"
| "sidebar_event strerror ClickClose s = (if connected (fst s) then (Inr (), gui_close_database s) else (Inr (), s))"
| "sidebar_event strerror (ClickSeries index) s =
     (if index < length (gs_known_series (fst s)) then select_series index s else (Inr (), s))"
| "sidebar_event strerror _ s = (Inr (), s)"

text \<open>The tabs of the main panel, which is disabled while no database is open.\<close>

fun explore_event :: "(exn \<Rightarrow> string) \<Rightarrow> gui_event \<Rightarrow> (gui, unit) act" where
  "explore_event strerror (EditMeasurement field) = edit (field_ok measurement_capacity field) (\<lambda>g. g\<lparr>gs_measurement := field\<rparr>)"
| "explore_event strerror (EditTags field) = edit (field_ok tags_capacity field) (\<lambda>g. g\<lparr>gs_tags := field\<rparr>)"
| "explore_event strerror (EditPointTimestamp t) = edit True (\<lambda>g. g\<lparr>gs_point_timestamp := t\<rparr>)"
| "explore_event strerror (EditRangeStart t) = edit True (\<lambda>g. g\<lparr>gs_range_start := t\<rparr>)"
| "explore_event strerror (EditRangeEnd t) = edit True (\<lambda>g. g\<lparr>gs_range_end := t\<rparr>)"
| "explore_event strerror ClickLatest = perform strerror ''Latest query complete'' gui_query_latest"
| "explore_event strerror ClickGet = perform strerror ''Point query complete'' gui_query_point"
| "explore_event strerror ClickRange = perform strerror ''Range query complete'' gui_query_range"
| "explore_event strerror _ = act_return ()"

fun write_event :: "(exn \<Rightarrow> string) \<Rightarrow> (nat \<Rightarrow> double) \<Rightarrow> gui_event \<Rightarrow> (gui, unit) act" where
  "write_event strerror demo_value (EditWriteTimestamp t) = edit True (\<lambda>g. g\<lparr>gs_write_timestamp := t\<rparr>)"
| "write_event strerror demo_value (EditWriteValue v) = edit True (\<lambda>g. g\<lparr>gs_write_value := v\<rparr>)"
| "write_event strerror demo_value ClickPut = perform strerror ''Sample written'' put_sample"
| "write_event strerror demo_value ClickDemo = perform strerror ''Demo series generated'' (generate_demo demo_value)"
| "write_event strerror demo_value _ = act_return ()"

fun maintenance_event :: "(exn \<Rightarrow> string) \<Rightarrow> gui_event \<Rightarrow> (gui, unit) act" where
  "maintenance_event strerror ClickSync = perform strerror ''WAL synchronized'' gui_sync"
| "maintenance_event strerror ClickFlush = perform strerror ''MemTable flushed'' gui_flush"
| "maintenance_event strerror ClickCompact = perform strerror ''Segments compacted'' gui_compact"
| "maintenance_event strerror _ = act_return ()"

definition panel_event :: "(exn \<Rightarrow> string) \<Rightarrow> (nat \<Rightarrow> double) \<Rightarrow> gui_event \<Rightarrow> (gui, unit) act" where
  "panel_event strerror demo_value ev s =
     (if \<not> connected (fst s) then (Inr (), s)
      else act_bind (explore_event strerror ev) (\<lambda>_.
           act_bind (write_event strerror demo_value ev) (\<lambda>_. maintenance_event strerror ev)) s)"

definition gui_handle :: "(exn \<Rightarrow> string) \<Rightarrow> (nat \<Rightarrow> double) \<Rightarrow> gui_event \<Rightarrow> (gui, unit) act" where
  "gui_handle strerror demo_value ev =
     act_bind (sidebar_event strerror ev) (\<lambda>_. panel_event strerror demo_value ev)"

fun gui_frames :: "(exn \<Rightarrow> string) \<Rightarrow> (nat \<Rightarrow> double) \<Rightarrow> gui_event list \<Rightarrow> (gui, unit) act" where
  "gui_frames strerror demo_value [] = act_return ()"
| "gui_frames strerror demo_value (ev # evs) =
     act_bind (gui_handle strerror demo_value ev) (\<lambda>_. gui_frames strerror demo_value evs)"

section \<open>The program\<close>

text \<open>How far the window system gets, which is a parameter.\<close>

datatype window_result = no_glfw | no_window | no_renderer | window_open

definition start_session :: "(exn \<Rightarrow> string) \<Rightarrow> (nat \<Rightarrow> double) \<Rightarrow> bool \<Rightarrow> bool \<Rightarrow> (gui, unit) act" where
  "start_session strerror demo_value open_on_start demo =
     act_bind (if open_on_start then perform strerror ''Database opened'' gui_open_database else act_return ()) (\<lambda>_ s.
       if demo \<and> connected (fst s) then perform strerror ''Demo series generated'' (generate_demo demo_value) s
       else (Inr (), s))"

text \<open>
  When an exception leaves the loop, the destructor of the state closes the database; the
  events are those of the frames until the window is closed.
\<close>

definition run_gui ::
  "window_result \<Rightarrow> (exn \<Rightarrow> string) \<Rightarrow> (nat \<Rightarrow> double) \<Rightarrow> gui_event list \<Rightarrow> string \<Rightarrow> bool \<Rightarrow> bool \<Rightarrow> (host, nat) act" where
  "run_gui window strerror demo_value events path open_on_start demo h =
     (case window of
        no_glfw \<Rightarrow> (Inl (RuntimeError ''failed to initialize GLFW''), h)
      | no_window \<Rightarrow> (Inl (RuntimeError ''failed to create ChronoView window''), h)
      | no_renderer \<Rightarrow> (Inl (RuntimeError ''failed to initialize the ChronoView renderer''), h)
      | window_open \<Rightarrow>
          (case make_GuiState path of
             Inl e \<Rightarrow> (Inl e, h)
           | Inr g \<Rightarrow>
               (case act_bind (start_session strerror demo_value open_on_start demo)
                       (\<lambda>_. gui_frames strerror demo_value events) (g, h) of
                  (Inl e, s) \<Rightarrow> (Inl e, if e = Crashed then snd s else snd (gui_close_database s))
                | (Inr _, s) \<Rightarrow> (Inr 0, snd (gui_close_database s)))))"

fun view_arguments :: "string list \<Rightarrow> string \<Rightarrow> bool \<Rightarrow> bool \<Rightarrow> (string \<times> bool \<times> bool) result" where
  "view_arguments [] database_path path_was_provided demo = Inr (database_path, path_was_provided, demo)"
| "view_arguments (argument # rest) database_path path_was_provided demo =
     (if argument = ''--demo'' then view_arguments rest database_path path_was_provided True
      else if path_was_provided then Inl (InvalidArgument ''usage: chronoview [database-path] [--demo]'')
      else view_arguments rest argument True demo)"

definition view_main ::
  "window_result \<Rightarrow> (exn \<Rightarrow> string) \<Rightarrow> (nat \<Rightarrow> double) \<Rightarrow> gui_event list \<Rightarrow> string list \<Rightarrow> (process, nat) act" where
  "view_main window strerror demo_value events arguments p =
     (case act_bind (act_get (\<lambda>_. view_arguments (tl arguments) ''chronostore-gui-db'' False False))
             (\<lambda>(path, provided, demo). run_gui window strerror demo_value events path (provided \<or> demo) demo) (p_host p) of
        (Inl e, h) \<Rightarrow>
          if e = Crashed then (Inl Crashed, p\<lparr>p_host := h\<rparr>)
          else (Inr 1, write_err (''chronoview: '' @ what strerror e @ newline) (p\<lparr>p_host := h\<rparr>))
      | (Inr status, h) \<Rightarrow> (Inr status, p\<lparr>p_host := h\<rparr>))"

end
