(* ===== verification/CliProperties.thy ===== *)
theory CliProperties
  imports Cli DatabaseProperties DecimalText
begin

text \<open>
  The command line client as a process of the system: each run opens the database, performs
  at most the one operation that its arguments spell, and closes it; what it prints can be
  read back.
\<close>

section \<open>Histories of one run\<close>

lemma sys_steps_append: "sys_steps dir s evs s1 \<Longrightarrow> sys_steps dir s1 evs' s2 \<Longrightarrow> sys_steps dir s (evs @ evs') s2"
  by (induction rule: sys_steps.induct) (auto intro: sys_steps.intros)

text \<open>The operation that the arguments ask for.\<close>

definition put_request :: "string list \<Rightarrow> (SeriesKey \<times> Sample) result" where
  "put_request arguments =
     ebind (make_series (arguments ! 3) arguments 6) (\<lambda>series.
     ebind (parse_timestamp (arguments ! 4)) (\<lambda>t.
     ebind (parse_value (arguments ! 5)) (\<lambda>v.
     ebind (make_Sample (Timestamp t) v) (\<lambda>sample. Inr (series, sample)))))"

definition requested_op :: "string list \<Rightarrow> db_op option" where
  "requested_op arguments =
     (let command = arguments ! 1 in
      if length arguments \<ge> 6 \<and> command = ''put''
      then (case put_request arguments of Inl _ \<Rightarrow> None | Inr (k, x) \<Rightarrow> Some (DbPut k x))
      else if length arguments \<noteq> 3 then None
      else if command = ''sync'' then Some DbSync
      else if command = ''flush'' then Some DbFlush
      else if command = ''compact'' then Some DbCompact
      else None)"

inductive client_run :: "nat \<Rightarrow> db_op option \<Rightarrow> nat result \<Rightarrow> db_event list \<Rightarrow> bool" for q where
  client_usage: "r \<noteq> Inl Crashed \<Longrightarrow> client_run q None r []"
| client_open_failed: "e \<noteq> Crashed \<Longrightarrow> client_run q a (Inl e) [DbOpenFailed q e]"
| client_open_died: "client_run q a (Inl Crashed) [DbOpenDied q]"
| client_read: "r \<noteq> Inl Crashed \<Longrightarrow> client_run q None r [DbOpened q, DbClosed q]"
| client_done: "client_run q (Some a) (Inr 0) [DbOpened q, DbReturned q a, DbClosed q]"
| client_failed: "e \<noteq> Crashed \<Longrightarrow> client_run q (Some a) (Inl e) [DbOpened q, DbFailed q a e, DbClosed q]"
| client_died: "client_run q (Some a) (Inl Crashed) [DbOpened q, DbDied q a]"

inductive_cases client_done_cases: "client_run q (Some a) (Inr n) evs"

text \<open>The process after a run: its lock goes when it dies.\<close>

definition host_after :: "nat \<Rightarrow> (nat \<Rightarrow> Database) \<Rightarrow> 'a result \<Rightarrow> host \<Rightarrow> host" where
  "host_after q objs r h = (if r = Inl Crashed then drop_locks q objs h else h)"

section \<open>Blocks with a database\<close>

lemma objs_closed: "q \<notin> owners objs \<Longrightarrow> objs(q := closed) = objs"
  by (cases "objs q") (auto simp: owners_def fun_eq_iff)

lemma owners_irrelevant: "drop_locks q (objs(q := D)) h = drop_locks q objs h"
proof -
  have "owners (objs(q := D)) - {q} = owners objs - {q}" by (auto simp: owners_def)
  then show ?thesis by (simp add: drop_locks_def)
qed

lemma sys_steps_one: "sys_step dir s ev s' \<Longrightarrow> sys_steps dir s [ev] s'"
  by (intro sys_steps_Cons[OF _ sys_steps_Nil])

text \<open>
  What a body does with an open database: it leaves the database alone, or it runs one
  operation and passes its exception on.
\<close>

definition reads :: "(Database \<times> process, 'a) act \<Rightarrow> Database \<times> process \<Rightarrow> bool" where
  "reads body s \<longleftrightarrow>
     (case body s of (r, (D, p)) \<Rightarrow> r \<noteq> Inl Crashed \<and> D = fst s \<and> p_host p = p_host (snd s))"

definition runs_op :: "db_op \<Rightarrow> (Database \<times> process, nat) act \<Rightarrow> Database \<times> process \<Rightarrow> bool" where
  "runs_op a body s \<longleftrightarrow>
     (case body s of (r, (D, p)) \<Rightarrow>
        \<exists>r0. run_db_op a (fst s, p_host (snd s)) = (r0, (D, p_host p)) \<and> r = map_sum id (\<lambda>_. 0) r0)"

lemma close_step:
  assumes "q \<notin> owners objs"
  shows "sys_steps dir (h, objs(q := D)) [DbClosed q] (close_database D h, objs)"
  using sys_steps_one[OF sys_closed[of dir h "objs(q := D)" q]] objs_closed[OF assms] by simp

lemma operation_history:
  assumes q: "q \<notin> owners objs" and a: "db_op_wf a" and op: "run_db_op a (D, h) = (r, (D', h'))"
  defines "h2 \<equiv> if r = Inl Crashed then h' else close_database D' h'"
  shows "\<exists>evs. client_run q (Some a) (map_sum id (\<lambda>_. 0) r) (DbOpened q # evs) \<and>
    sys_steps dir (h, objs(q := D)) evs (host_after q objs r h2, objs)"
proof -
  have op': "run_db_op a ((objs(q := D)) q, h) = (r, (D', h'))" using op by simp
  consider u where "r = Inr u" | e where "r = Inl e" "e \<noteq> Crashed" | "r = Inl Crashed" by (cases r) auto
  then show ?thesis
  proof cases
    case 1
    have "sys_step dir (h, objs(q := D)) (DbReturned q a) (h', objs(q := D'))"
      using sys_returned[OF a, of "objs(q := D)" q h D' h' dir] op' 1 by simp
    then show ?thesis
      using sys_steps_Cons[OF _ close_step[OF q]] client_done[of q a] 1
      by (intro exI[of _ "[DbReturned q a, DbClosed q]"]) (simp add: host_after_def h2_def)
  next
    case (2 e)
    have "sys_step dir (h, objs(q := D)) (DbFailed q a e) (h', objs(q := D'))"
      using sys_failed[OF a, of "objs(q := D)" q h e D' h' dir] op' 2 by simp
    then show ?thesis
      using sys_steps_Cons[OF _ close_step[OF q]] client_failed[of e q a] 2
      by (intro exI[of _ "[DbFailed q a e, DbClosed q]"]) (simp add: host_after_def h2_def)
  next
    case 3
    have "sys_step dir (h, objs(q := D)) (DbDied q a) (drop_locks q objs h', objs)"
      using sys_died[OF a, of "objs(q := D)" q h D' h' dir] op' 3 objs_closed[OF q] by (simp add: owners_irrelevant)
    then show ?thesis
      using sys_steps_one client_died[of q a] 3
      by (intro exI[of _ "[DbDied q a]"]) (simp add: host_after_def h2_def)
  qed
qed

lemma with_database_history:
  assumes run: "with_database dir body p = (r, p')" and q: "q \<notin> owners objs"
    and wf: "\<forall>b. a = Some b \<longrightarrow> db_op_wf b"
    and body: "\<And>D h. open_database dir default_options (p_host p) = (Inr D, h) \<Longrightarrow>
      (case a of None \<Rightarrow> reads body (D, p\<lparr>p_host := h\<rparr>) | Some b \<Rightarrow> runs_op b body (D, p\<lparr>p_host := h\<rparr>))"
  shows "\<exists>evs. client_run q a r evs \<and> sys_steps dir (p_host p, objs) evs (host_after q objs r (p_host p'), objs)"
proof -
  obtain r0 h where o: "open_database dir default_options (p_host p) = (r0, h)" by force
  show ?thesis
  proof (cases r0)
    case (Inl e)
    then have out: "r = Inl e" "p_host p' = h" using run o by (auto simp: with_database_def)
    let ?ev = "if e = Crashed then DbOpenDied q else DbOpenFailed q e"
    have "sys_step dir (p_host p, objs) ?ev (host_after q objs r h, objs)"
      using sys_open_died[OF q, of dir default_options "p_host p" h]
        sys_open_failed[OF q, of dir default_options "p_host p" e h] o Inl out(1) by (simp add: host_after_def)
    moreover have "client_run q a r [?ev]" using out(1) client_open_died client_open_failed by simp
    ultimately show ?thesis using sys_steps_one out(2) by blast
  next
    case (Inr D)
    obtain r1 D1 p1 where b: "body (D, p\<lparr>p_host := h\<rparr>) = (r1, (D1, p1))" by (rule prod_cases3)
    have out: "r = r1" "p_host p' = (if r1 = Inl Crashed then p_host p1 else close_database D1 (p_host p1))"
      using run o Inr b by (auto simp: with_database_def)
    note opened = sys_steps_Cons[OF sys_opened[OF q o[unfolded Inr]]]
    show ?thesis
    proof (cases a)
      case None
      then have "r1 \<noteq> Inl Crashed" "D1 = D" "p_host p1 = h" using body[OF o[unfolded Inr]] b by (auto simp: reads_def)
      then show ?thesis
        using opened[OF close_step[OF q]] out None
        by (intro exI[of _ "[DbOpened q, DbClosed q]"]) (simp add: host_after_def client_read)
    next
      case (Some c)
      then obtain r2 where op: "run_db_op c (D, h) = (r2, (D1, p_host p1))" "r1 = map_sum id (\<lambda>_. 0) r2"
        using body[OF o[unfolded Inr]] b by (auto simp: runs_op_def)
      have same: "r1 = Inl Crashed \<longleftrightarrow> r2 = Inl Crashed" using op(2) by (cases r2) auto
      obtain evs where "client_run q a r (DbOpened q # evs)" 
        "sys_steps dir (h, objs(q := D)) evs (host_after q objs r (p_host p'), objs)"
        using operation_history[OF q _ op(1), of dir] wf Some out op(2) same by (auto simp: host_after_def)
      then show ?thesis using opened by blast
    qed
  qed
qed

section \<open>The commands\<close>

lemma reads_bind:
  assumes "reads m s" "\<And>x s'. fst s' = fst s \<Longrightarrow> p_host (snd s') = p_host (snd s) \<Longrightarrow> reads (k x) s'"
  shows "reads (act_bind m k) s"
proof -
  obtain r D p where m: "m s = (r, (D, p))" by (rule prod_cases3)
  show ?thesis
  proof (cases r)
    case (Inr x)
    then show ?thesis using assms(2)[of "(D, p)" x] assms(1) m by (simp add: reads_def act_bind_def)
  qed (use assms(1) m in \<open>simp add: reads_def act_bind_def\<close>)
qed

lemma reads_simps [simp]:
  "reads (act_return x) s" "reads (check r) s \<longleftrightarrow> r \<noteq> Inl Crashed"
  "reads (query f) s \<longleftrightarrow> f (fst s, p_host (snd s)) \<noteq> Inl Crashed"
  "reads (print_sample y) s" "reads (print_text t) s"
  by (cases s; simp add: reads_def check_def query_def print_sample_def print_text_def write_out_def)+

lemma reads_print_samples [simp]: "reads (print_samples xs) s"
  by (induction xs arbitrary: s) (auto intro: reads_bind)

lemma reads_report [simp]: "reads (report_sample x) s"
  by (auto simp: report_sample_def split: option.splits intro: reads_bind)

lemma arguments_not_crashed [simp]:
  "parse_timestamp text \<noteq> Inl Crashed" "parse_value text \<noteq> Inl Crashed"
  "make_series m arguments n \<noteq> Inl Crashed" "make_Sample t v \<noteq> Inl Crashed"
proof -
  have "parse_tag a \<noteq> Inl Crashed" for a by (simp add: parse_tag_def make_Tag_def Let_def)
  then have "emap parse_tag as \<noteq> Inl Crashed" for as
    by (induction as) (auto simp: ebind_def split: sum.splits)
  then show "make_series m arguments n \<noteq> Inl Crashed"
    using make_SeriesKey_error[of m _ Crashed] by (auto simp: make_series_def parse_tags_def ebind_def split: sum.splits)
qed (simp_all add: parse_timestamp_def parse_value_def make_Sample_def split: option.splits)

lemma make_series_wf: "make_series m arguments n = Inr k \<Longrightarrow> series_wf k"
proof -
  have tag: "parse_tag a = Inr t \<Longrightarrow> tag_wf t" for a t
    by (auto simp: parse_tag_def Let_def make_Tag_Inr tag_wf_def split: if_splits)
  have "emap parse_tag as = Inr ts \<Longrightarrow> list_all tag_wf ts" for as ts
    by (induction as arbitrary: ts) (auto simp: ebind_eq_Inr tag)
  then show "make_series m arguments n = Inr k \<Longrightarrow> series_wf k"
    by (auto simp: make_series_def parse_tags_def ebind_eq_Inr intro: make_SeriesKey_wf)
qed

lemma put_request_wf: "put_request arguments = Inr (k, x) \<Longrightarrow> series_wf k \<and> sample_wf x"
  by (auto simp: put_request_def ebind_eq_Inr make_Sample_Inr sample_wf_def intro: make_series_wf)

lemma requested_op_wf: "requested_op arguments = Some a \<Longrightarrow> db_op_wf a"
  using put_request_wf by (auto simp: requested_op_def Let_def split: if_splits sum.splits)

lemma on_database_runs: "runs_op a (act_bind (on_database (run_db_op a)) (\<lambda>_. act_return 0)) s"
proof -
  obtain r D h where "run_db_op a (fst s, p_host (snd s)) = (r, (D, h))" by (rule prod_cases3)
  then show ?thesis by (cases r) (simp_all add: runs_op_def act_bind_def on_database_def)
qed

lemma check_bind: "act_bind (check r) k = (case r of Inl e \<Rightarrow> act_throw e | Inr x \<Rightarrow> k x)"
  by (cases r) (simp_all add: check_def act_bind_def fun_eq_iff)

definition put_body :: "string list \<Rightarrow> (Database \<times> process, nat) act" where
  "put_body arguments =
     (case put_request arguments of
        Inl e \<Rightarrow> act_throw e
      | Inr (k, x) \<Rightarrow> act_bind (on_database (run_db_op (DbPut k x))) (\<lambda>_. act_return 0))"

lemma run_put_body:
  "6 \<le> length arguments \<Longrightarrow> run_put arguments = with_database (arguments ! 2) (put_body arguments)"
  by (cases "make_series (arguments ! 3) arguments 6"; cases "parse_timestamp (arguments ! 4)";
      cases "parse_value (arguments ! 5)"; cases "make_Sample (Timestamp (projr (parse_timestamp (arguments ! 4)))) (projr (parse_value (arguments ! 5)))")
    (auto simp: run_put_def put_body_def put_request_def check_bind)

lemma put_request_not_crashed: "put_request arguments \<noteq> Inl Crashed"
  by (auto simp: put_request_def ebind_def split: sum.splits)

lemma put_body_reads: "put_request arguments = Inl e \<Longrightarrow> reads (put_body arguments) s"
  using put_request_not_crashed[of arguments] by (auto simp: put_body_def reads_def)

text \<open>The queries of a database that was just opened return or throw.\<close>

lemma opened_queries:
  assumes den: "sys_denotes (h, objs) S" and q: "q \<notin> owners objs" and o: "open_database dir opts h = (Inr D, h')"
  shows "database_get (D, h') k t \<noteq> Inl Crashed" "database_latest (D, h') k \<noteq> Inl Crashed"
    "database_range (D, h') k a b \<noteq> Inl Crashed" "database_series (D, h') \<noteq> Inl Crashed"
    "database_stats (D, h') \<noteq> Inl Crashed"
  using queries_return[OF opened_refines[OF den q o], of q] by simp_all

text \<open>What a command contributes to the history of the system.\<close>

definition run_history :: "string \<Rightarrow> nat \<Rightarrow> (nat \<Rightarrow> Database) \<Rightarrow> process \<Rightarrow> db_op option \<Rightarrow> nat result \<Rightarrow> process \<Rightarrow> bool" where
  "run_history dir q objs p a r p' \<longleftrightarrow>
     (\<exists>evs. client_run q a r evs \<and> sys_steps dir (p_host p, objs) evs (host_after q objs r (p_host p'), objs))"

lemma usage_history: "r \<noteq> Inl Crashed \<Longrightarrow> p_host p' = p_host p \<Longrightarrow> run_history dir q objs p None r p'"
  unfolding run_history_def using client_usage sys_steps_Nil by (fastforce simp: host_after_def)

lemma throw_history: "Inl e = r \<and> p = p' \<Longrightarrow> e \<noteq> Crashed \<Longrightarrow> run_history dir q objs p' None r p'"
  by (auto intro: usage_history)

lemma reading_history:
  assumes "with_database dir body p = (r, p')" "q \<notin> owners objs"
    and "\<And>D h s. open_database dir default_options (p_host p) = (Inr D, h) \<Longrightarrow> fst s = D \<Longrightarrow> p_host (snd s) = h \<Longrightarrow> reads body s"
  shows "run_history dir q objs p None r p'"
  unfolding run_history_def by (rule with_database_history[OF assms(1,2)]) (use assms(3) in auto)

lemma running_history:
  assumes "with_database dir body p = (r, p')" "q \<notin> owners objs" "db_op_wf a" "\<And>s. runs_op a body s"
  shows "run_history dir q objs p (Some a) r p'"
  unfolding run_history_def by (rule with_database_history[OF assms(1,2)]) (use assms(3,4) in auto)

lemma query_history:
  assumes run: "f arguments p = (r, p')" and den: "sys_denotes (p_host p, objs) S" and q: "q \<notin> owners objs"
    and dir: "3 \<le> length arguments \<Longrightarrow> arguments ! 2 = dir"
    and f: "f \<in> {run_latest, run_get, run_range, run_stats, run_series}"
  shows "run_history dir q objs p None r p'"
proof -
  note oq = opened_queries[OF den q] and defs = run_latest_def run_get_def run_range_def run_stats_def run_series_def
  from f run dir show ?thesis
    apply (elim insertE emptyE; simp add: defs split: if_splits)
    apply (erule throw_history reading_history[OF _ q]; auto simp: oq intro!: reads_bind)+
    done
qed

lemma put_history:
  assumes run: "run_put arguments p = (r, p')" and q: "q \<notin> owners objs"
    and dir: "3 \<le> length arguments \<Longrightarrow> arguments ! 2 = dir"
  shows "run_history dir q objs p
    (if length arguments < 6 then None else case put_request arguments of Inl _ \<Rightarrow> None | Inr (k, x) \<Rightarrow> Some (DbPut k x)) r p'"
proof (cases "length arguments < 6")
  case True
  then show ?thesis using run by (auto simp: run_put_def intro: usage_history)
next
  case False
  then have w: "with_database dir (put_body arguments) p = (r, p')" using run dir by (simp add: run_put_body)
  show ?thesis
  proof (cases "put_request arguments")
    case (Inl e)
    then show ?thesis using reading_history[OF w q] put_body_reads[OF Inl] False by simp
  next
    case (Inr kx)
    obtain k x where kx: "kx = (k, x)" by force
    then have b: "runs_op (DbPut k x) (put_body arguments) s" for s
      using on_database_runs[of "DbPut k x" s] Inr by (simp add: put_body_def)
    have "db_op_wf (DbPut k x)" using put_request_wf Inr kx by simp
    then show ?thesis using running_history[OF w q _ b] Inr kx False by simp
  qed
qed

lemma maintenance_history:
  assumes run: "run_maintenance command arguments p = (r, p')" and q: "q \<notin> owners objs"
    and dir: "3 \<le> length arguments \<Longrightarrow> arguments ! 2 = dir"
  shows "run_history dir q objs p
    (if length arguments \<noteq> 3 then None
     else Some (if command = ''sync'' then DbSync else if command = ''flush'' then DbFlush else DbCompact)) r p'"
proof (cases "length arguments \<noteq> 3")
  case True
  then show ?thesis using run by (auto simp: run_maintenance_def intro: usage_history)
next
  case False
  let ?a = "if command = ''sync'' then DbSync else if command = ''flush'' then DbFlush else DbCompact"
  have "with_database dir (act_bind (on_database (run_db_op ?a)) (\<lambda>_. act_return 0)) p = (r, p')"
    using run False dir by (auto simp: run_maintenance_def)
  then show ?thesis using running_history[OF _ q _ on_database_runs] False by simp
qed

definition text_commands :: "string set" where
  "text_commands = - {''put'', ''latest'', ''get'', ''range'', ''stats'', ''series'', ''sync'', ''flush'', ''compact''}"

lemma text_dispatch:
  assumes "dispatch V arguments p = (r, p')" "length arguments < 2 \<or> arguments ! 1 \<in> text_commands"
  shows "(\<exists>n. r = Inr n) \<and> p_host p' = p_host p"
  using assms by (auto simp: dispatch_def Let_def text_commands_def write_out_def write_err_def split: if_splits)

lemma text_requested: "length arguments < 2 \<or> arguments ! 1 \<in> text_commands \<Longrightarrow> requested_op arguments = None"
  by (auto simp: requested_op_def Let_def text_commands_def)

lemma dispatch_history:
  assumes run: "dispatch V arguments p = (r, p')" and den: "sys_denotes (p_host p, objs) S" and q: "q \<notin> owners objs"
    and dir: "3 \<le> length arguments \<Longrightarrow> arguments ! 2 = dir"
  shows "run_history dir q objs p (requested_op arguments) r p'"
proof -
  let ?c = "arguments ! 1"
  consider (usage) "length arguments < 2 \<or> ?c \<in> text_commands"
    | (put) "2 \<le> length arguments" "?c = ''put''"
    | (maintenance) "2 \<le> length arguments" "?c = ''sync'' \<or> ?c = ''flush'' \<or> ?c = ''compact''"
    | (query) f where "2 \<le> length arguments" "(?c, f) \<in> {(''latest'', run_latest), (''get'', run_get), (''range'', run_range),
        (''stats'', run_stats), (''series'', run_series)}"
    unfolding text_commands_def not_less[symmetric] by blast
  then show ?thesis
  proof cases
    case usage
    then show ?thesis using text_dispatch[OF run usage] text_requested[OF usage] by (auto intro: usage_history)
  next
    case put
    then have "run_put arguments p = (r, p')" using run by (simp add: dispatch_def)
    from put_history[OF this q dir] put show ?thesis by (auto simp: requested_op_def Let_def not_less split: if_splits)
  next
    case maintenance
    then have "run_maintenance ?c arguments p = (r, p')" using run by (auto simp: dispatch_def)
    from maintenance_history[OF this q dir] maintenance show ?thesis by (auto simp: requested_op_def Let_def)
  next
    case (query f)
    then have "f arguments p = (r, p')" using run by (auto simp: dispatch_def)
    from query_history[of f arguments p r p', OF this den q dir] query show ?thesis by (auto simp: requested_op_def Let_def)
  qed
qed

section \<open>Exit status and output\<close>

text \<open>
  \<open>mute\<close>: an action that writes nothing.  \<open>tidy\<close>: a body that writes to the standard output only
  when it ends with status 0, and that otherwise throws or returns 2.
\<close>

definition mute :: "(Database \<times> process, 'a) act \<Rightarrow> bool" where
  "mute m \<longleftrightarrow> (\<forall>s. p_out (snd (snd (m s))) = p_out (snd s) \<and> p_err (snd (snd (m s))) = p_err (snd s))"

definition status_ok :: "nat result \<Rightarrow> process \<Rightarrow> process \<Rightarrow> bool" where
  "status_ok r p p' \<longleftrightarrow> p_err p' = p_err p \<and> (r \<noteq> Inr 0 \<longrightarrow> p_out p' = p_out p) \<and> (\<forall>n. r = Inr n \<longrightarrow> n = 0 \<or> n = 2)"

definition tidy :: "(Database \<times> process, nat) act \<Rightarrow> bool" where
  "tidy m \<longleftrightarrow> (\<forall>s. status_ok (fst (m s)) (snd s) (snd (snd (m s))))"

lemma mute_simps [simp]: "mute (check r)" "mute (query f)" "mute (on_database m)" "mute (act_throw e)" "mute (act_return x)"
  by (auto simp: mute_def check_def query_def on_database_def split: prod.splits)

lemma tidy_bind: "mute m \<Longrightarrow> (\<And>x. tidy (k x)) \<Longrightarrow> tidy (act_bind m k)"
  unfolding tidy_def
proof (intro allI)
  fix s
  assume m: "mute m" and k: "\<And>x. \<forall>s. status_ok (fst (k x s)) (snd s) (snd (snd (k x s)))"
  obtain r s' where r: "m s = (r, s')" by (rule prod.exhaust)
  then have "p_out (snd s') = p_out (snd s)" "p_err (snd s') = p_err (snd s)" using m unfolding mute_def by (metis snd_conv)+
  then show "status_ok (fst (act_bind m k s)) (snd s) (snd (snd (act_bind m k s)))"
    using r k[THEN spec, of _ s'] by (cases r) (auto simp: act_bind_def status_ok_def)
qed

lemmas tidy_binds = mute_simps(1-3)[THEN tidy_bind]

lemma print_samples_returns: "\<exists>p. print_samples xs s = (Inr (), (fst s, p)) \<and> p_err p = p_err (snd s)"
proof (induction xs arbitrary: s)
  case (Cons x xs)
  from this[of "apsnd (write_out (sample_text x)) s"] show ?case
    by (cases s) (simp add: act_bind_def print_sample_def write_out_def)
qed (simp add: prod_eq_iff)

lemma tidy_simps [simp]:
  "tidy (act_return 0)" "tidy (act_return 2)" "tidy (act_throw e)" "tidy (act_bind (print_samples xs) (\<lambda>_. act_return 0))"
  "tidy (act_bind (print_text t) (\<lambda>_. act_return 0))" "tidy (report_sample x)"
proof -
  show "tidy (act_bind (print_samples xs) (\<lambda>_. act_return 0))"
    unfolding tidy_def
  proof
    fix s
    show "status_ok (fst (act_bind (print_samples xs) (\<lambda>_. act_return 0) s)) (snd s) (snd (snd (act_bind (print_samples xs) (\<lambda>_. act_return 0) s)))"
      using print_samples_returns[of xs s] by (auto simp: act_bind_def status_ok_def)
  qed
qed (auto simp: tidy_def status_ok_def act_bind_def print_text_def print_sample_def report_sample_def write_out_def
    split: option.splits)

lemma tidy_database:
  assumes "tidy body" "with_database dir body p = (r, p')"
  shows "status_ok r p p'"
proof -
  obtain r0 h where o: "open_database dir default_options (p_host p) = (r0, h)" by force
  show ?thesis
  proof (cases r0)
    case (Inr D)
    obtain r1 D1 p1 where b: "body (D, p\<lparr>p_host := h\<rparr>) = (r1, (D1, p1))" by (rule prod_cases3)
    have "status_ok r1 p p1" using assms(1) b unfolding tidy_def status_ok_def
      by (metis fst_conv process.select_convs(2,3) process.surjective process.update_convs(1) snd_conv)
    then show ?thesis using assms(2) o Inr b by (auto simp: with_database_def status_ok_def)
  qed (use assms(2) o in \<open>auto simp: with_database_def status_ok_def\<close>)
qed

lemma thrown_status: "Inl e = r \<and> p = p' \<Longrightarrow> status_ok r p' p'"
  by (auto simp: status_ok_def)

lemma command_status:
  assumes "f \<in> {run_put, run_latest, run_get, run_range, run_stats, run_series, run_maintenance c}" "f arguments p = (r, p')"
  shows "status_ok r p p'"
proof -
  note defs = run_put_def run_latest_def run_get_def run_range_def run_stats_def run_series_def run_maintenance_def
  from assms show ?thesis
    apply (elim insertE emptyE; simp add: defs split: if_splits)
    apply (erule thrown_status tidy_database[rotated]; auto intro!: tidy_binds)+
    done
qed

lemma dispatch_status:
  assumes "dispatch V arguments p = (r, p')"
  shows "status_ok r p p' \<or> (r = Inr 1 \<and> p_out p' = p_out p \<and> p_err p' \<noteq> p_err p)"
proof -
  have usage: "print_usage V \<noteq> []" by (simp add: print_usage_def)
  consider "length arguments < 2 \<or> arguments ! 1 \<in> text_commands"
    | f c where "f \<in> {run_put, run_latest, run_get, run_range, run_stats, run_series, run_maintenance c}" "f arguments p = (r, p')"
    using assms by (auto simp: text_commands_def dispatch_def Let_def split: if_splits)
  then show ?thesis
  proof cases
    case 1
    then show ?thesis
      using assms usage by (auto simp: dispatch_def Let_def text_commands_def write_out_def write_err_def status_ok_def split: if_splits)
  next
    case (2 f c)
    then show ?thesis using command_status by blast
  qed
qed

section \<open>Writing and reading back\<close>

fun writes_point :: "SeriesKey \<Rightarrow> Timestamp \<Rightarrow> db_event \<Rightarrow> bool" where
  "writes_point k t (DbReturned p (DbPut k' x)) \<longleftrightarrow> k' = k \<and> timestamp x = t"
| "writes_point k t (DbFailed p (DbPut k' x) e) \<longleftrightarrow> k' = k \<and> timestamp x = t"
| "writes_point k t (DbDied p (DbPut k' x)) \<longleftrightarrow> k' = k \<and> timestamp x = t"
| "writes_point k t _ \<longleftrightarrow> False"

lemma spec_next_unwritten: "\<not> writes_point k t ev \<Longrightarrow> S' \<in> db_spec_next ev S \<Longrightarrow> S' k t = S k t"
  by (induction k t ev rule: writes_point.induct) (auto simp: store_put_def)

lemma spec_run_unwritten:
  "list_all (\<lambda>ev. \<not> writes_point k t ev) evs \<Longrightarrow> S' \<in> db_spec_run evs S \<Longrightarrow> S' k t = S k t"
proof (induction evs arbitrary: S)
  case (Cons ev evs)
  then show ?case using spec_next_unwritten[of k t ev] by fastforce
qed simp

abbreviation quiet_host :: "host \<Rightarrow> bool" where
  "quiet_host h \<equiv> h_entry h \<noteq> NotDirectory \<and> \<not> h_exists_fault h \<and> \<not> h_is_directory_fault h \<and> fs_script (h_fs h) = []"

lemma client_get_prints:
  assumes den: "sys_denotes (p_host p, objs) S" and free: "owners objs = {}" and h: "dir \<noteq> []" "quiet_host (p_host p)"
    and args: "arguments = [prog, ''get'', dir, m, ts] @ tgs" "make_series m arguments 5 = Inr k" "parse_timestamp ts = Inr t"
    and S: "S k (Timestamp t) = Some v"
  shows "\<exists>p'. cli_main V strerror arguments p = (Inr 0, p') \<and> p_out p' = p_out p @ sample_text (Sample (Timestamp t) v)"
proof -
  have nl: "\<not> h_locked (p_host p)" using den free by (simp add: sys_denotes_def)
  obtain I h' where o: "open_database dir default_options (p_host p) = (Inr \<lparr>db_impl = Some I\<rparr>, h')"
    using open_database_quiet[OF sys_denotes_disk[OF den] nl h(1)] h(2) by blast
  note d = opened_refines[OF den, of 0, OF _ o]
  have nf: "\<not> se_failed (db_engine I)" using open_database_effect[OF o sys_denotes_disk[OF den]] nl by auto
  have "database_get (\<lparr>db_impl = Some I\<rparr>, h') k (Timestamp t) = Inr (Some (Sample (Timestamp t) v))"
    using database_answers(1)[OF d, of 0 I k "Timestamp t"] free nf S by simp
  then show ?thesis
    using args o
    by (simp add: cli_main_def dispatch_def run_get_def with_database_def check_bind query_def act_bind_def
        report_sample_def print_sample_def write_out_def)
qed

text \<open>The order of the tag arguments is irrelevant.\<close>

lemma emap_Inr: "emap f xs = Inr ys \<longleftrightarrow> list_all (\<lambda>x. \<exists>y. f x = Inr y) xs \<and> ys = map (\<lambda>x. projr (f x)) xs"
proof (induction xs arbitrary: ys)
  case (Cons x xs)
  show ?case
  proof (cases "f x")
    case (Inr y)
    have "emap f (x # xs) = Inr ys \<longleftrightarrow> (\<exists>zs. emap f xs = Inr zs \<and> ys = y # zs)"
      using Inr by (cases "emap f xs") auto
    then show ?thesis using Inr by (simp add: Cons.IH)
  qed simp
qed auto

lemma make_series_permuted:
  assumes "make_series m (pre @ tgs) (length pre) = Inr k" "mset tgs' = mset tgs"
  shows "make_series m (pre' @ tgs') (length pre') = Inr k"
proof -
  have s: "set tgs' = set tgs" using assms(2) by (rule mset_eq_setD)
  obtain ts where ts: "emap parse_tag tgs = Inr ts" "make_SeriesKey m ts = Inr k"
    using assms(1) by (auto simp: make_series_def parse_tags_def ebind_eq_Inr)
  let ?ts = "map (\<lambda>x. projr (parse_tag x)) tgs'"
  have all: "list_all (\<lambda>x. \<exists>y. parse_tag x = Inr y) tgs" "ts = map (\<lambda>x. projr (parse_tag x)) tgs"
    using ts(1) unfolding emap_Inr by blast+
  then have "emap parse_tag tgs' = Inr ?ts" using s by (simp add: emap_Inr list_all_iff)
  moreover have "mset ?ts = mset ts" using all(2) assms(2) by simp
  then have "make_SeriesKey m ?ts = make_SeriesKey m ts" by (simp only: make_SeriesKey_def sort_mset_cong[of ?ts ts])
  ultimately show ?thesis using ts(2) by (simp add: make_series_def parse_tags_def)
qed

section \<open>Claims\<close>

text \<open>
  Claim C16.  A sample that the client wrote is printed by the client: after a \<^verbatim>\<open>put\<close> that exited with
  status 0, and whatever processes do afterwards short of writing the same point, including
  failing and dying, a \<^verbatim>\<open>get\<close> of the same measurement, timestamp and tags, in any order of the tags,
  on a free database and a system that makes no call fail, exits with status 0 and prints one
  line with the timestamp and the value.
\<close>

theorem client_put_get:
  assumes "new_system s0" "sys_steps dir s0 evs (p_host p, objs)" "q \<notin> owners objs"
    and put: "cli_main V strerror ([prog, ''put'', dir, m, ts, val] @ tgs) p = (Inr 0, p1)"
    and req: "put_request ([prog, ''put'', dir, m, ts, val] @ tgs) = Inr (k, x)"
    and later: "sys_steps dir (p_host p1, objs) evs' (p_host p2, objs')" "owners objs' = {}"
      "list_all (\<lambda>ev. \<not> writes_point k (timestamp x) ev) evs'"
    and get: "dir \<noteq> []" "quiet_host (p_host p2)" "mset tgs' = mset tgs"
  shows "\<exists>p3. cli_main V' strerror' ([prog', ''get'', dir, m, ts] @ tgs') p2 = (Inr 0, p3) \<and>
    p_out p3 = p_out p2 @ print_int64 (nanoseconds_since_epoch (timestamp x)) @ tabulator @ print_double (sample_value x) @ newline"
proof -
  let ?put = "[prog, ''put'', dir, m, ts, val] @ tgs" and ?get = "[prog', ''get'', dir, m, ts] @ tgs'"
  obtain S where den: "sys_denotes (p_host p, objs) S" by (rule system_store[OF assms(1,2)])
  have op: "requested_op ?put = Some (DbPut k x)" using req by (simp add: requested_op_def)
  have d: "dispatch V ?put p = (Inr 0, p1)"
    using put by (auto simp: cli_main_def split: sum.splits prod.splits if_splits)
  have "run_history dir q objs p (Some (DbPut k x)) (Inr 0) p1"
    using dispatch_history[OF d den assms(3), of dir] op by simp
  then have "sys_steps dir (p_host p, objs) [DbOpened q, DbReturned q (DbPut k x), DbClosed q] (p_host p1, objs)"
    by (auto simp: run_history_def host_after_def elim: client_done_cases)
  from sys_steps_refine[OF this den] have "sys_denotes (p_host p1, objs) (store_put k x S)" by simp
  from sys_steps_refine[OF later(1) this] obtain S' where S': "S' \<in> db_spec_run evs' (store_put k x S)"
    "sys_denotes (p_host p2, objs') S'" by blast
  have v: "S' k (timestamp x) = Some (sample_value x)"
    using spec_run_unwritten[OF later(3) S'(1)] by (simp add: store_put_def)
  obtain t where t: "parse_timestamp ts = Inr t" "timestamp x = Timestamp t" and k: "make_series m ?put 6 = Inr k"
    using req by (auto simp: put_request_def ebind_eq_Inr make_Sample_Inr)
  have "make_series m ?get 5 = Inr k"
    using make_series_permuted[OF _ get(3), of m "[prog, ''put'', dir, m, ts, val]" k "[prog', ''get'', dir, m, ts]"] k
    by (simp add: eval_nat_numeral)
  from client_get_prints[OF S'(2) later(2) get(1,2) refl this t(1)] v t(2) have
    "\<exists>p3. cli_main V' strerror' ?get p2 = (Inr 0, p3) \<and> p_out p3 = p_out p2 @ sample_text (Sample (Timestamp t) (sample_value x))"
    by simp
  then show ?thesis using t(2) by (simp add: sample_text_def)
qed

text \<open>
  Claim C18.  The client's exit status: whatever the arguments and the state of the system, a run
  that does not die returns 0, 1 or 2 and lets no exception escape; it returns 1 exactly when it
  writes a diagnosis to the standard error stream, and a run that does not return 0 has
  written nothing to the standard output.
\<close>

theorem client_exit_status:
  "case cli_main V strerror arguments p of
     (Inl e, p') \<Rightarrow> e = Crashed
   | (Inr n, p') \<Rightarrow> n \<le> 2 \<and> (n = 1 \<longleftrightarrow> p_err p' \<noteq> p_err p) \<and> (n = 0 \<or> p_out p' = p_out p)"
proof -
  obtain r p' where r: "dispatch V arguments p = (r, p')" by (rule prod.exhaust)
  show ?thesis
    using dispatch_status[OF r] r by (cases r) (auto simp: cli_main_def status_ok_def write_err_def)
qed

text \<open>
  Claim C17.  The client refines the system: in any history of processes, a run of the client
  by a process that does not own the database contributes exactly the steps of \<^const>\<open>client_run\<close>:
  it opens the database, performs the one operation that its arguments spell or only reads, and
  closes it again, or dies on the way; it exits with status 0 after an operation exactly when the
  operation returned.  So all that holds of histories holds of runs of the client.
\<close>

theorem client_refines:
  assumes "new_system s0" "sys_steps dir s0 evs (p_host p, objs)" "q \<notin> owners objs"
    and "3 \<le> length arguments \<longrightarrow> arguments ! 2 = dir" "cli_main V strerror arguments p = (r, p')"
  shows "\<exists>r0 evs'. client_run q (requested_op arguments) r0 evs' \<and>
    r = (case r0 of Inl e \<Rightarrow> if e = Crashed then Inl Crashed else Inr 1 | Inr n \<Rightarrow> Inr n) \<and>
    sys_steps dir s0 (evs @ evs') (host_after q objs r (p_host p'), objs)"
proof -
  obtain S where den: "sys_denotes (p_host p, objs) S" by (rule system_store[OF assms(1,2)])
  obtain r0 p0 where d: "dispatch V arguments p = (r0, p0)" by (rule prod.exhaust)
  have r: "r = (case r0 of Inl e \<Rightarrow> if e = Crashed then Inl Crashed else Inr 1 | Inr n \<Rightarrow> Inr n)" "p_host p' = p_host p0"
    using assms(5) d by (auto simp: cli_main_def write_err_def split: sum.splits if_splits)
  then have h: "host_after q objs r (p_host p') = host_after q objs r0 (p_host p0)"
    by (auto simp: host_after_def split: sum.splits)
  obtain evs' where e: "client_run q (requested_op arguments) r0 evs'"
    "sys_steps dir (p_host p, objs) evs' (host_after q objs r0 (p_host p0), objs)"
    using dispatch_history[OF d den assms(3)] assms(4) unfolding run_history_def by blast
  show ?thesis using e(1) r(1) sys_steps_append[OF assms(2) e(2)] h by metis
qed

section \<open>Runs for the witnesses\<close>

definition demo_process :: process where
  "demo_process = \<lparr>p_host = demo_host, p_out = '''', p_err = ''''\<rparr>"

abbreviation demo_put :: "string list" where
  "demo_put \<equiv> [''chronostore'', ''put'', ''db'', ''cpu'', ''5'', ''0'']"

lemma demo_request: "put_request demo_put = Inr (wal_series demo_record, wal_sample demo_record)"
proof -
  have v: "from_chars_double ''0'' = Some 0" by code_simp
  have t: "from_chars_int64 ''5'' = Some 5" by code_simp
  show ?thesis
    by (simp add: put_request_def make_series_def parse_tags_def make_SeriesKey_def parse_timestamp_def parse_value_def
        v t make_Sample_def isfinite_def demo_record_def)
qed

lemma demo_client_put:
  "\<exists>p1. cli_main V strerror demo_put demo_process = (Inr 0, p1) \<and> h_entry (p_host p1) = Directory"
proof -
  obtain I h segs where o: "open_database ''db'' default_options demo_host = (Inr \<lparr>db_impl = Some I\<rparr>, h)"
    "db_flush_threshold_samples I = 4096" "fs_script (h_fs h) = []" "h_entry h = Directory"
    "engine_inv wal_filename (db_engine I, h_fs h) segs []"
    using demo_open[of default_options] by (auto simp: default_options_def)
  obtain E f where put: "database_put (wal_series demo_record) (wal_sample demo_record) (\<lparr>db_impl = Some I\<rparr>, h) =
    (Inr (), (\<lparr>db_impl = Some (I\<lparr>db_engine := E\<rparr>)\<rparr>, h\<lparr>h_fs := f\<rparr>))"
    using demo_put_returns[OF _ o(3,5)] o(2) by auto
  let ?k = "wal_series demo_record" and ?x = "wal_sample demo_record" and ?h = "release_lock (h\<lparr>h_fs := f\<rparr>)"
  have "put_body demo_put = act_bind (on_database (database_put ?k ?x)) (\<lambda>_. act_return 0)"
    unfolding put_body_def demo_request by simp
  then have w: "with_database ''db'' (put_body demo_put) demo_process = (Inr 0, demo_process\<lparr>p_host := ?h\<rparr>)"
    using o(1) put by (simp add: with_database_def on_database_def act_bind_def demo_process_def close_database_def)
  have "run_put demo_put = with_database ''db'' (put_body demo_put)" using run_put_body[of demo_put] by simp
  moreover have "dispatch V demo_put = run_put demo_put" by (simp add: dispatch_def)
  ultimately have "cli_main V strerror demo_put demo_process = (Inr 0, demo_process\<lparr>p_host := ?h\<rparr>)"
    using w unfolding cli_main_def by (simp only: prod.case sum.case)
  moreover have "h_entry ?h = Directory" using release_lock_effect[of "h\<lparr>h_fs := f\<rparr>"] o(4) by simp
  ultimately show ?thesis by (intro exI[of _ "demo_process\<lparr>p_host := ?h\<rparr>"]) simp
qed

theorem client_put_get_witness:
  "\<exists>p1 p2 p3. cli_main ''0.1.0'' (\<lambda>_. ''error'') demo_put demo_process = (Inr 0, p1) \<and>
     sys_steps ''db'' (p_host p1, \<lambda>_. closed) [DbEnvironment] (p_host p2, \<lambda>_. closed) \<and>
     cli_main ''0.1.0'' (\<lambda>_. ''error'') [''chronostore'', ''get'', ''db'', ''cpu'', ''5''] p2 = (Inr 0, p3) \<and>
     p_out p3 = ''5'' @ tabulator @ ''0'' @ newline"
proof -
  obtain p1 where p1: "cli_main ''0.1.0'' (\<lambda>_. ''error'') demo_put demo_process = (Inr 0, p1)" "h_entry (p_host p1) = Directory"
    using demo_client_put by blast
  let ?h = "(p_host p1)\<lparr>h_fs := (h_fs (p_host p1))\<lparr>fs_script := []\<rparr>, h_exists_fault := False, h_is_directory_fault := False\<rparr>"
  let ?p2 = "\<lparr>p_host = ?h, p_out = '''', p_err = ''''\<rparr>"
  have n: "new_system (p_host demo_process, \<lambda>_. closed)" using demo_system_new by (simp add: demo_system_def demo_process_def)
  have later: "sys_steps ''db'' (p_host p1, \<lambda>_. closed) [DbEnvironment] (p_host ?p2, \<lambda>_. closed)"
    by (intro sys_steps_one) (simp, rule sys_environment)
  have none: "(0 :: nat) \<notin> owners (\<lambda>_. closed)" "owners (\<lambda>_. closed) = {}" by (simp_all add: owners_def)
  have q: "quiet_host (p_host ?p2)" using p1(2) by simp
  have put: "cli_main ''0.1.0'' (\<lambda>_. ''error'') ([''chronostore'', ''put'', ''db'', ''cpu'', ''5'', ''0''] @ []) demo_process = (Inr 0, p1)"
    "put_request ([''chronostore'', ''put'', ''db'', ''cpu'', ''5'', ''0''] @ []) = Inr (wal_series demo_record, wal_sample demo_record)"
    using p1(1) demo_request by simp_all
  have printed: "print_double 0 = ''0''" "print_int64 5 = ''5''"
    by (simp_all add: print_double_def double_magnitude_def double_sign_def double_parts_def infinity_bits_def
        print_magnitude_def print_int64_def decimal_digit char_of_def bit_0)
  obtain p3 where "cli_main ''0.1.0'' (\<lambda>_. ''error'') ([''chronostore'', ''get'', ''db'', ''cpu'', ''5''] @ []) ?p2 = (Inr 0, p3)"
    "p_out p3 = p_out ?p2 @ print_int64 5 @ tabulator @ print_double 0 @ newline"
    using client_put_get[OF n sys_steps_Nil none(1) put later none(2) _ _ q, of "[]" "''0.1.0''" "\<lambda>_. ''error''" "''chronostore''"]
    by (auto simp: demo_record_def)
  then show ?thesis using p1(1) later printed by (intro exI[of _ p1] exI[of _ ?p2] exI[of _ p3]) simp
qed

theorem client_refines_witness:
  "\<exists>p1. cli_main ''0.1.0'' (\<lambda>_. ''error'') demo_put demo_process = (Inr 0, p1) \<and>
     sys_steps ''db'' demo_system [DbOpened 0, DbReturned 0 (DbPut (wal_series demo_record) (wal_sample demo_record)), DbClosed 0]
       (p_host p1, \<lambda>_. closed)"
proof -
  obtain p1 where p1: "cli_main ''0.1.0'' (\<lambda>_. ''error'') demo_put demo_process = (Inr 0, p1)"
    using demo_client_put by blast
  have n: "sys_steps ''db'' demo_system [] (p_host demo_process, \<lambda>_. closed)" "(0 :: nat) \<notin> owners (\<lambda>_. closed)"
    using sys_steps_Nil[of "''db''" demo_system] by (simp_all add: demo_system_def demo_process_def owners_def)
  have op: "requested_op demo_put = Some (DbPut (wal_series demo_record) (wal_sample demo_record))"
    using demo_request by (simp add: requested_op_def)
  obtain r0 evs where r: "client_run 0 (requested_op demo_put) r0 evs"
    "Inr 0 = (case r0 of Inl e \<Rightarrow> if e = Crashed then Inl Crashed else Inr 1 | Inr n \<Rightarrow> Inr n)"
    "sys_steps ''db'' demo_system ([] @ evs) (host_after 0 (\<lambda>_. closed) (Inr 0 :: nat result) (p_host p1), \<lambda>_. closed)"
    using client_refines[OF demo_system_new n _ p1] by auto
  have "r0 = Inr 0" using r(2) by (auto split: sum.splits if_splits)
  then have "evs = [DbOpened 0, DbReturned 0 (DbPut (wal_series demo_record) (wal_sample demo_record)), DbClosed 0]"
    using r(1) op by (auto elim: client_done_cases)
  then show ?thesis using p1 r(3) by (auto simp: host_after_def)
qed

section \<open>Printed samples\<close>

lemma no_tabulator: "list_all (\<lambda>c. c \<noteq> CHR 0x09) (print_int64 t)"
proof -
  have "list_all (\<lambda>c. c \<noteq> CHR 0x09) (decimal n)" for n
    using decimal_is_digit[of n] by (auto simp: list_all_iff is_digit_def)
  then show ?thesis by (simp add: print_int64_def)
qed

text \<open>
  Claim C19.  The lines that the client prints can be read back: the text of a valid sample, cut at
  its tabulator and its newline, gives the same sample, bit for bit, when the client's own argument
  parsers read its fields; in particular different samples are printed differently.
\<close>

theorem printed_sample_reads_back:
  assumes "sample_wf x"
  defines "stamp \<equiv> takeWhile (\<lambda>c. c \<noteq> CHR 0x09) (sample_text x)"
  defines "val \<equiv> butlast (drop (length stamp + 1) (sample_text x))"
  shows "ebind (parse_timestamp stamp) (\<lambda>t. ebind (parse_value val) (make_Sample (Timestamp t))) = Inr x"
proof -
  let ?t = "print_int64 (nanoseconds_since_epoch (timestamp x))" and ?v = "print_double (sample_value x)"
  have x: "sample_text x = ?t @ CHR 0x09 # ?v @ newline" by (simp add: sample_text_def)
  have stamp: "stamp = ?t"
    unfolding stamp_def x by (rule takeWhile_stops(1)[OF no_tabulator]) simp
  have "val = ?v" unfolding val_def stamp unfolding x by simp
  then show ?thesis
    using assms(1) stamp printed_int64_reads_back printed_double_reads_back
    by (simp add: parse_timestamp_def parse_value_def sample_wf_def make_Sample_def)
qed

theorem printed_sample_reads_back_witness:
  "sample_wf (Sample (Timestamp 5) 0xBFF8000000000000) \<and>
   ebind (parse_timestamp (takeWhile (\<lambda>c. c \<noteq> CHR 0x09) (sample_text (Sample (Timestamp 5) 0xBFF8000000000000))))
     (\<lambda>t. ebind (parse_value (butlast (drop (length (takeWhile (\<lambda>c. c \<noteq> CHR 0x09)
        (sample_text (Sample (Timestamp 5) 0xBFF8000000000000))) + 1) (sample_text (Sample (Timestamp 5) 0xBFF8000000000000)))))
     (make_Sample (Timestamp t))) = Inr (Sample (Timestamp 5) 0xBFF8000000000000)"
proof -
  have w: "sample_wf (Sample (Timestamp 5) 0xBFF8000000000000)" by (simp add: sample_wf_def isfinite_def)
  show ?thesis using w printed_sample_reads_back[OF w] by blast
qed

end
