(* ===== verification/ViewProperties.thy ===== *)
theory ViewProperties
  imports ChronoView CliProperties
begin

text \<open>
  Properties of the graphical client: the invariant of its state, which exceptions escape its
  event loop, when a selected series can be queried, and its sessions as histories of the system.
\<close>

section \<open>The invariant\<close>

definition results_ok :: "GuiState \<Rightarrow> bool" where
  "results_ok g \<longleftrightarrow>
     (case gs_query_kind g of
        query_none \<Rightarrow> gs_single_result g = None \<and> gs_range_result g = [] \<and> gs_plot_x g = [] \<and> gs_plot_y g = []
      | query_range \<Rightarrow> gs_single_result g = None \<and> gs_plot_y g = map sample_value (gs_range_result g) \<and>
          gs_plot_x g = map (plot_offset (nanoseconds_since_epoch (timestamp (hd (gs_range_result g))))) (gs_range_result g)
      | _ \<Rightarrow> gs_range_result g = [] \<and> gs_plot_x g = [] \<and> gs_plot_y g = [])"

definition gui_inv :: "GuiState \<Rightarrow> bool" where
  "gui_inv g \<longleftrightarrow>
     field_ok path_capacity (gs_database_path g) \<and> field_ok measurement_capacity (gs_measurement g) \<and>
     field_ok tags_capacity (gs_tags g) \<and> gs_selected_series g < int (length (gs_known_series g)) \<and> results_ok g \<and>
     (gs_database g = None \<longrightarrow>
        gs_known_series g = [] \<and> gs_selected_series g = - 1 \<and> gs_stats g = no_stats \<and> gs_query_kind g = query_none)"

lemma results_ok_update [simp]:
  "results_ok (g\<lparr>gs_database := d\<rparr>) = results_ok g" "results_ok (g\<lparr>gs_stats := st\<rparr>) = results_ok g"
  "results_ok (g\<lparr>gs_known_series := ks\<rparr>) = results_ok g" "results_ok (g\<lparr>gs_selected_series := i\<rparr>) = results_ok g"
  "results_ok (g\<lparr>gs_database_path := f\<rparr>) = results_ok g" "results_ok (g\<lparr>gs_measurement := f\<rparr>) = results_ok g"
  "results_ok (g\<lparr>gs_tags := f\<rparr>) = results_ok g" "results_ok (g\<lparr>gs_sync_on_write := b\<rparr>) = results_ok g"
  "results_ok (g\<lparr>gs_flush_threshold_samples := t\<rparr>) = results_ok g" "results_ok (g\<lparr>gs_point_timestamp := t\<rparr>) = results_ok g"
  "results_ok (g\<lparr>gs_range_start := t\<rparr>) = results_ok g" "results_ok (g\<lparr>gs_range_end := t\<rparr>) = results_ok g"
  "results_ok (g\<lparr>gs_write_timestamp := t\<rparr>) = results_ok g" "results_ok (g\<lparr>gs_write_value := v\<rparr>) = results_ok g"
  "results_ok (g\<lparr>gs_status := x\<rparr>) = results_ok g" "results_ok (g\<lparr>gs_status_is_error := b\<rparr>) = results_ok g"
  by (cases "gs_query_kind g"; simp add: results_ok_def)+

text \<open>\<open>keeps\<close>: an action that keeps the invariant; \<open>keeps_open\<close>: one that does so on an open database and leaves it open.\<close>

definition keeps :: "(gui, 'a) act \<Rightarrow> bool" where
  "keeps m \<longleftrightarrow> (\<forall>s. gui_inv (fst s) \<longrightarrow> gui_inv (fst (snd (m s))))"

definition keeps_open :: "(gui, 'a) act \<Rightarrow> bool" where
  "keeps_open m \<longleftrightarrow>
     (\<forall>s. gui_inv (fst s) \<and> connected (fst s) \<longrightarrow> gui_inv (fst (snd (m s))) \<and> connected (fst (snd (m s))))"

lemma keeps_bind: "keeps m \<Longrightarrow> (\<And>x. keeps (k x)) \<Longrightarrow> keeps (act_bind m k)"
  unfolding keeps_def
proof (intro allI impI)
  fix s :: gui
  assume m: "\<forall>s. gui_inv (fst s) \<longrightarrow> gui_inv (fst (snd (m s)))" "\<And>x. \<forall>s. gui_inv (fst s) \<longrightarrow> gui_inv (fst (snd (k x s)))"
    and s: "gui_inv (fst s)"
  obtain r s' where r: "m s = (r, s')" by (rule prod.exhaust)
  then have "gui_inv (fst s')" using m(1)[rule_format, OF s] by simp
  then show "gui_inv (fst (snd (act_bind m k s)))" using m(2)[THEN spec, of s'] r by (cases r) (simp_all add: act_bind_def)
qed

lemma keeps_open_bind: "keeps_open m \<Longrightarrow> (\<And>x. keeps_open (k x)) \<Longrightarrow> keeps_open (act_bind m k)"
  unfolding keeps_open_def
proof (intro allI impI)
  fix s :: gui
  let ?P = "\<lambda>s :: gui. gui_inv (fst s) \<and> connected (fst s)"
  assume m: "\<forall>s. ?P s \<longrightarrow> ?P (snd (m s))" "\<And>x. \<forall>s. ?P s \<longrightarrow> ?P (snd (k x s))" and s: "?P s"
  obtain r s' where r: "m s = (r, s')" by (rule prod.exhaust)
  then have "?P s'" using m(1)[rule_format, OF s] by simp
  then show "?P (snd (act_bind m k s))" using m(2)[THEN spec, of s'] r by (cases r) (simp_all add: act_bind_def)
qed

lemma keeps_open_at: "(\<And>s. keeps_open (m s)) \<Longrightarrow> keeps_open (\<lambda>s. m s s)"
  by (simp add: keeps_open_def)

lemma keeps_required: "(\<And>x. keeps_open (k x)) \<Longrightarrow> keeps (act_bind require_database k)"
  by (auto simp: keeps_def keeps_open_def act_bind_def require_database_def connected_def)

lemma keeps_open_required [simp]: "keeps_open require_database"
  by (simp add: keeps_open_def require_database_def)

lemma keeps_open_reads [simp]: "keeps_open (act_get f)" "keeps_open (act_return x)" "keeps_open (Pair (Inr x))" "keeps_open get_series"
  by (simp_all add: keeps_open_def get_series_def)

lemma keeps_open_call [simp]: "keeps_open (gui_call m)"
  by (auto simp: keeps_open_def gui_call_def gui_inv_def connected_def split: option.splits prod.splits)

lemma keeps_open_query [simp]: "keeps_open (gui_query q)"
  unfolding gui_query_def by (rule keeps_open_call)

lemma keeps_open_modify:
  "(\<And>g. gui_inv g \<Longrightarrow> connected g \<Longrightarrow> gui_inv (f g) \<and> connected (f g)) \<Longrightarrow> keeps_open (gui_modify f)"
  by (simp add: keeps_open_def gui_modify_def)

lemma set_text_ok: "set_text capacity source = Inr field \<Longrightarrow> field_ok capacity field"
  by (auto simp: set_text_def field_ok_def split: if_splits)

lemma keeps_set_field:
  assumes "\<And>g field. gui_inv g \<Longrightarrow> connected g \<Longrightarrow> field_ok capacity field \<Longrightarrow> gui_inv (put field g) \<and> connected (put field g)"
  shows "keeps_open (set_field capacity source put)"
  using assms set_text_ok[of capacity source]
  by (cases "set_text capacity source") (auto simp: keeps_open_def set_field_def act_bind_def gui_modify_def)

lemma int_of_size_le: "int_of_size n \<le> int n"
proof -
  have "- 2147483648 \<le> uint (of_nat n :: 32 word)" by (rule order.trans[OF _ uint_ge_0]) simp
  then have "sint (of_nat n :: 32 word) \<le> uint (of_nat n :: 32 word)"
    by (simp add: sint_uint signed_take_bit_int_less_eq_self_iff)
  also have "\<dots> \<le> int n" by (simp add: unsigned_of_nat take_bit_eq_mod zmod_int[symmetric])
  finally show ?thesis by (simp add: int_of_size_def)
qed

lemma keeps_refresh: "keeps_open refresh_metadata" "keeps refresh_metadata"
proof -
  have m: "keeps_open (gui_modify (\<lambda>g. g\<lparr>gs_known_series := ks,
      gs_selected_series := (if gs_selected_series g \<ge> int_of_size (length ks) then - 1 else gs_selected_series g)\<rparr>))" for ks
    using int_of_size_le[of "length ks"] by (intro keeps_open_modify) (auto simp: gui_inv_def connected_def)
  have st: "keeps_open (gui_modify (\<lambda>g. g\<lparr>gs_stats := st\<rparr>))" for st
    by (intro keeps_open_modify) (auto simp: gui_inv_def connected_def)
  show "keeps_open refresh_metadata" unfolding refresh_metadata_def by (intro keeps_open_bind m st) simp_all
  show "keeps refresh_metadata" unfolding refresh_metadata_def by (intro keeps_required keeps_open_bind m st) simp_all
qed

lemma keeps_select: "keeps (select_series index)" "keeps_open (select_series index)"
proof -
  have sel: "gui_inv (g\<lparr>gs_selected_series := int_of_size index\<rparr>)" if "gui_inv g" "index < length (gs_known_series g)" for g
    using that int_of_size_le[of index] by (auto simp: gui_inv_def)
  have clear: "gui_inv (clear_results g)" if "gui_inv g" for g
    using that by (auto simp: gui_inv_def clear_results_def results_ok_def)
  have set: "gui_inv (g\<lparr>gs_measurement := f\<rparr>)" if "gui_inv g" "set_text measurement_capacity x = Inr f" for g f x
    using that set_text_ok by (auto simp: gui_inv_def)
  have set': "gui_inv (g\<lparr>gs_tags := f\<rparr>)" if "gui_inv g" "set_text tags_capacity x = Inr f" for g f x
    using that set_text_ok by (auto simp: gui_inv_def)
  have inv: "gui_inv (fst (snd (select_series index s))) \<and> gs_database (fst (snd (select_series index s))) = gs_database (fst s)"
    if "gui_inv (fst s)" for s
    using sel[OF that] clear set set'
    by (simp add: select_series_def Let_def act_bind_def set_field_def gui_modify_def that clear_results_def split: sum.splits)
  then show "keeps (select_series index)" "keeps_open (select_series index)" by (simp_all add: keeps_def keeps_open_def connected_def)
qed

lemma keeps_select_known: "keeps_open (gui_modify (select_known_series series))"
proof (intro keeps_open_modify)
  fix g
  assume g: "gui_inv g" "connected g"
  have "find_series series n ks = Some i \<Longrightarrow> i < n + length ks" for n ks i
    by (induction ks arbitrary: n) (auto split: if_splits, fastforce)
  then have "find_series series 0 (gs_known_series g) = Some i \<Longrightarrow> int_of_size i < int (length (gs_known_series g))" for i
    using int_of_size_le[of i] by fastforce
  then show "gui_inv (select_known_series series g) \<and> connected (select_known_series series g)"
    using g by (auto simp: select_known_series_def gui_inv_def connected_def split: option.splits)
qed

lemma keeps_put: "keeps put_sample"
  unfolding put_sample_def by (intro keeps_required keeps_open_bind keeps_refresh keeps_select_known) simp_all

lemma keeps_show_single: "kind = query_point \<or> kind = query_latest \<Longrightarrow> keeps_open (gui_modify (show_single kind x))"
  by (intro keeps_open_modify) (auto simp: gui_inv_def connected_def show_single_def results_ok_def)

lemma keeps_queries: "keeps gui_query_point" "keeps gui_query_latest"
proof -
  have p: "keeps_open (\<lambda>s. act_bind (gui_query (f s)) (\<lambda>x. gui_modify (show_single query_point x)) s)" for f
    by (rule keeps_open_at[of "\<lambda>s. act_bind (gui_query (f s)) (\<lambda>x. gui_modify (show_single query_point x))"])
      (intro keeps_open_bind keeps_show_single, simp_all)
  show "keeps gui_query_point" unfolding gui_query_point_def by (intro keeps_required keeps_open_bind p) simp_all
  show "keeps gui_query_latest" unfolding gui_query_latest_def
    by (intro keeps_required keeps_open_bind keeps_show_single) simp_all
qed

lemma rebuild_plot_ok: "gs_query_kind g = query_range \<Longrightarrow> gs_single_result g = None \<Longrightarrow> results_ok (rebuild_plot g)"
  by (auto simp: rebuild_plot_def results_ok_def split: list.splits)

lemma keeps_range: "keeps gui_query_range" "keeps_open gui_query_range"
proof -
  have m: "keeps_open (gui_modify (\<lambda>g. rebuild_plot (g\<lparr>gs_range_result := xs, gs_single_result := None, gs_query_kind := query_range\<rparr>)))" for xs
  proof (intro keeps_open_modify)
    fix g
    assume "gui_inv g" "connected g"
    moreover have "gs_database (rebuild_plot g) = gs_database g" "gs_known_series (rebuild_plot g) = gs_known_series g"
      "gs_selected_series (rebuild_plot g) = gs_selected_series g" "gs_measurement (rebuild_plot g) = gs_measurement g"
      "gs_tags (rebuild_plot g) = gs_tags g" "gs_database_path (rebuild_plot g) = gs_database_path g" for g
      by (simp_all add: rebuild_plot_def split: list.splits)
    ultimately show "gui_inv (rebuild_plot (g\<lparr>gs_range_result := xs, gs_single_result := None, gs_query_kind := query_range\<rparr>)) \<and>
        connected (rebuild_plot (g\<lparr>gs_range_result := xs, gs_single_result := None, gs_query_kind := query_range\<rparr>))"
      using rebuild_plot_ok by (auto simp: gui_inv_def connected_def)
  qed
  have q: "keeps_open (\<lambda>s. act_bind (gui_query (f s))
      (\<lambda>xs. gui_modify (\<lambda>g. rebuild_plot (g\<lparr>gs_range_result := xs, gs_single_result := None, gs_query_kind := query_range\<rparr>))) s)" for f
    by (rule keeps_open_at[of "\<lambda>s. act_bind (gui_query (f s)) (\<lambda>xs. gui_modify (\<lambda>g. rebuild_plot
          (g\<lparr>gs_range_result := xs, gs_single_result := None, gs_query_kind := query_range\<rparr>)))"])
      (intro keeps_open_bind m, simp)
  show "keeps gui_query_range" unfolding gui_query_range_def by (intro keeps_required keeps_open_bind q) simp_all
  show "keeps_open gui_query_range" unfolding gui_query_range_def by (intro keeps_open_bind q) simp_all
qed

lemma keeps_demo: "keeps (generate_demo demo_value)"
proof -
  have p: "keeps_open (put_demo demo_value series ns)" for series ns
    by (induction ns) (auto intro!: keeps_open_bind)
  have f: "keeps_open (set_field measurement_capacity x (\<lambda>field g. g\<lparr>gs_measurement := field\<rparr>))"
    "keeps_open (set_field tags_capacity x (\<lambda>field g. g\<lparr>gs_tags := field\<rparr>))" for x
    by (intro keeps_set_field; auto simp: gui_inv_def connected_def)+
  have t: "keeps_open (gui_modify (\<lambda>g. let stop = demo_start_timestamp + of_nat demo_sample_count * nanoseconds_per_second
       in g\<lparr>gs_range_start := demo_start_timestamp, gs_range_end := stop,
            gs_point_timestamp := demo_start_timestamp, gs_write_timestamp := stop\<rparr>))"
    by (intro keeps_open_modify) (auto simp: gui_inv_def connected_def Let_def)
  show ?thesis
    unfolding generate_demo_def
    by (intro keeps_required keeps_open_bind p f t keeps_refresh keeps_select_known keeps_range) simp_all
qed

lemma keeps_maintain: "keeps (gui_maintain m)"
  unfolding gui_maintain_def by (intro keeps_required keeps_open_bind keeps_refresh) simp_all

lemma keeps_perform: "keeps m \<Longrightarrow> keeps (perform strerror message m)"
proof -
  assume m: "keeps m"
  have status: "gui_inv (g\<lparr>gs_status := x, gs_status_is_error := b\<rparr>) = gui_inv g" for g x b by (simp add: gui_inv_def)
  show ?thesis
    using m unfolding keeps_def
    by (auto simp: perform_def status split: prod.splits sum.splits) (metis fst_conv snd_conv)+
qed

lemma keeps_open_database: "keeps gui_open_database"
proof -
  have "keeps make_database"
    unfolding keeps_def
  proof (intro allI impI)
    fix s :: gui
    assume s: "gui_inv (fst s)"
    then show "gui_inv (fst (snd (make_database s)))"
      by (cases "open_database (c_str (gs_database_path (fst s))) (gui_options (fst s)) (snd s)"; 
          cases "fst (open_database (c_str (gs_database_path (fst s))) (gui_options (fst s)) (snd s))")
        (auto simp: make_database_def gui_inv_def)
  qed
  moreover have "keeps (\<lambda>s. if gs_known_series (fst s) \<noteq> [] then select_series 0 s else (Inr (), s))"
    using keeps_select(1)[of 0] by (simp add: keeps_def)
  ultimately have "keeps (act_bind make_database (\<lambda>_. act_bind refresh_metadata (\<lambda>_ s.
      if gs_known_series (fst s) \<noteq> [] then select_series 0 s else (Inr (), s))))"
    by (intro keeps_bind keeps_refresh)
  then show ?thesis by (simp add: keeps_def gui_open_database_def)
qed

lemma keeps_edit: "(\<And>g. gui_inv g \<Longrightarrow> enabled \<Longrightarrow> gui_inv (f g)) \<Longrightarrow> keeps (edit enabled f)"
  by (simp add: keeps_def edit_def gui_modify_def)

lemma keeps_close: "gui_inv (fst s) \<Longrightarrow> gui_inv (fst (gui_close_database s))"
  by (simp add: gui_close_database_def gui_inv_def clear_results_def results_ok_def)

lemma keeps_trivial [simp]: "keeps (act_return x)" "keeps (Pair (Inr x))"
  by (simp_all add: keeps_def)

lemma keeps_sidebar: "keeps (sidebar_event strerror ev)"
proof -
  have p: "gui_inv (fst s) \<Longrightarrow> gui_inv (fst (snd (perform strerror m gui_open_database s)))"
    "gui_inv (fst s) \<Longrightarrow> gui_inv (fst (snd (perform strerror m refresh_metadata s)))"
    "gui_inv (fst s) \<Longrightarrow> gui_inv (fst (snd (select_series i s)))" for m s i
    using keeps_perform[OF keeps_open_database] keeps_perform[OF keeps_refresh(2)] keeps_select(1) unfolding keeps_def by blast+
  show ?thesis
    unfolding keeps_def
  proof (intro allI impI)
    fix s :: gui
    assume "gui_inv (fst s)"
    then show "gui_inv (fst (snd (sidebar_event strerror ev s)))"
      by (cases ev) (simp_all add: p keeps_close, simp_all add: edit_def gui_modify_def gui_inv_def connected_def)
  qed
qed

lemma keeps_panel: "keeps (panel_event strerror demo_value ev)"
proof -
  have "keeps (explore_event strerror ev)"
    by (cases ev) (auto intro!: keeps_edit keeps_perform keeps_queries keeps_range simp: gui_inv_def)
  moreover have "keeps (write_event strerror demo_value ev)"
    by (cases ev) (auto intro!: keeps_edit keeps_perform keeps_put keeps_demo simp: gui_inv_def)
  moreover have "keeps (maintenance_event strerror ev)"
    by (cases ev) (auto intro!: keeps_perform keeps_maintain simp: gui_sync_def gui_flush_def gui_compact_def)
  ultimately have "keeps (act_bind (explore_event strerror ev) (\<lambda>_.
           act_bind (write_event strerror demo_value ev) (\<lambda>_. maintenance_event strerror ev)))"
    by (intro keeps_bind)
  then show ?thesis by (simp add: keeps_def panel_event_def)
qed

lemma keeps_frames: "keeps (gui_frames strerror demo_value evs)"
  by (induction evs) (auto simp: gui_handle_def intro!: keeps_bind keeps_sidebar keeps_panel)

lemma keeps_start: "keeps (start_session strerror demo_value open_on_start demo)"
proof -
  have "keeps (\<lambda>s. if demo \<and> connected (fst s) then perform strerror ''Demo series generated'' (generate_demo demo_value) s else (Inr (), s))"
    using keeps_perform[OF keeps_demo] by (simp add: keeps_def)
  then show ?thesis
    unfolding start_session_def by (intro keeps_bind) (auto intro!: keeps_perform keeps_open_database)
qed

text \<open>The states of a session: what a run of the program reaches from its initial state.\<close>

definition session ::
  "(exn \<Rightarrow> string) \<Rightarrow> (nat \<Rightarrow> double) \<Rightarrow> bool \<Rightarrow> bool \<Rightarrow> gui_event list \<Rightarrow> (gui, unit) act" where
  "session strerror demo_value open_on_start demo events =
     act_bind (start_session strerror demo_value open_on_start demo) (\<lambda>_. gui_frames strerror demo_value events)"

lemma initial_inv: "make_GuiState path = Inr g \<Longrightarrow> gui_inv g"
  using set_text_ok by (auto simp: make_GuiState_def ebind_eq_Inr gui_inv_def results_ok_def)

text \<open>
  Claim C22.  The state of the graphical client is well formed after every sequence of events, also
  when an exception ends it: the text fields are NUL-terminated within their arrays, the selected
  index is below the number of known series, the plot is computed from the samples of the last range
  query, results of another kind of query are gone, and without a database there is nothing to show.
\<close>

theorem gui_state_well_formed:
  assumes "make_GuiState path = Inr g" "session strerror demo_value open_on_start demo events (g, h) = (r, (g', h'))"
  shows "gui_inv g'"
proof -
  have "keeps (session strerror demo_value open_on_start demo events)"
    unfolding session_def by (intro keeps_bind keeps_start keeps_frames)
  then show ?thesis using initial_inv[OF assms(1)] assms(2) unfolding keeps_def by (metis fst_conv snd_conv)
qed

theorem gui_state_well_formed_witness:
  "\<exists>g r g' h'. make_GuiState ''db'' = Inr g \<and>
     session (\<lambda>_. ''error'') (\<lambda>_. 0) True False [ClickPut, ClickRange, ClickClose] (g, demo_host) = (r, (g', h')) \<and> gui_inv g'"
proof -
  obtain g where g: "make_GuiState ''db'' = Inr g"
    by (auto simp: make_GuiState_def set_text_def path_capacity_def measurement_capacity_def tags_capacity_def)
  obtain r g' h' where r: "session (\<lambda>_. ''error'') (\<lambda>_. 0) True False [ClickPut, ClickRange, ClickClose] (g, demo_host) = (r, (g', h'))"
    by (rule prod_cases3)
  show ?thesis using g r gui_state_well_formed[OF g r] by blast
qed

section \<open>Exceptions\<close>

definition contained :: "('s, 'a) act \<Rightarrow> bool" where
  "contained m \<longleftrightarrow> (\<forall>s e. fst (m s) = Inl e \<longrightarrow> e = Crashed)"

lemma contained_bind: "contained m \<Longrightarrow> (\<And>x. contained (k x)) \<Longrightarrow> contained (act_bind m k)"
  unfolding contained_def act_bind_def by (auto split: prod.splits sum.splits) (metis fst_conv)+

lemma contained_simps [simp]:
  "contained (perform strerror message m)" "contained (edit b f)" "contained (act_return x)" "contained (Pair (Inr x))"
  by (auto simp: contained_def perform_def edit_def gui_modify_def split: prod.splits sum.splits)

lemma contained_panel: "contained (panel_event strerror demo_value ev)"
proof -
  have "contained (explore_event strerror ev)" "contained (write_event strerror demo_value ev)" "contained (maintenance_event strerror ev)"
    by (cases ev; simp)+
  then have "contained (act_bind (explore_event strerror ev) (\<lambda>_.
           act_bind (write_event strerror demo_value ev) (\<lambda>_. maintenance_event strerror ev)))"
    by (intro contained_bind)
  then show ?thesis by (simp add: contained_def panel_event_def)
qed

lemma contained_sidebar:
  assumes "\<And>i. ev \<noteq> ClickSeries i"
  shows "contained (sidebar_event strerror ev)"
  unfolding contained_def
proof (intro allI)
  fix s :: gui and e
  have c: "fst (perform strerror message m s) = Inl e \<Longrightarrow> e = Crashed" for message m
    using contained_simps(1)[of strerror message m] unfolding contained_def by blast
  show "fst (sidebar_event strerror ev s) = Inl e \<longrightarrow> e = Crashed"
    using assms by (cases ev) (auto simp: edit_def gui_modify_def dest: c)
qed

definition fits :: "SeriesKey \<Rightarrow> bool" where
  "fits k \<longleftrightarrow> length (measurement k) < measurement_capacity \<and> length (encode_tags (tags k)) < tags_capacity"

lemma select_series_outcome:
  "i < length (gs_known_series (fst s)) \<Longrightarrow>
   fst (select_series i s) = (if fits (gs_known_series (fst s) ! i) then Inr ()
     else Inl (LengthError ''ChronoView text field exceeds its supported size''))"
  by (simp add: select_series_def Let_def act_bind_def set_field_def gui_modify_def set_text_def fits_def not_le)

text \<open>
  Claim C23.  Exactly one kind of event lets an exception escape the event loop, which ends the program:
  a click on a listed series whose measurement or tags, in the tag notation, do not fit into their
  text fields.  Every other event reports its exceptions in the status line.
\<close>

theorem escaping_exceptions:
  "(\<exists>e s'. gui_handle strerror demo_value ev s = (Inl e, s') \<and> e \<noteq> Crashed) \<longleftrightarrow>
   (\<exists>i. ev = ClickSeries i \<and> i < length (gs_known_series (fst s)) \<and> \<not> fits (gs_known_series (fst s) ! i))"
proof -
  let ?m = "gui_handle strerror demo_value ev"
  have panel: "fst (panel_event strerror demo_value ev s') = Inl e \<Longrightarrow> e = Crashed" for s' e
    using contained_panel unfolding contained_def by blast
  show ?thesis
  proof (cases "\<exists>i. ev = ClickSeries i")
    case True
    then obtain i where ev: "ev = ClickSeries i" by blast
    obtain r s1 where r: "sidebar_event strerror ev s = (r, s1)" by (rule prod.exhaust)
    have "(\<exists>e s'. ?m s = (Inl e, s') \<and> e \<noteq> Crashed) \<longleftrightarrow> (\<exists>e. r = Inl e \<and> e \<noteq> Crashed)"
    proof (cases r)
      case (Inr u)
      then have "?m s = panel_event strerror demo_value ev s1" using r by (simp add: gui_handle_def act_bind_def)
      then show ?thesis using panel[of s1] Inr by (auto simp: prod_eq_iff)
    qed (use r in \<open>simp add: gui_handle_def act_bind_def\<close>)
    moreover have "r = (if i < length (gs_known_series (fst s)) \<and> \<not> fits (gs_known_series (fst s) ! i)
        then Inl (LengthError ''ChronoView text field exceeds its supported size'') else Inr ())"
      using r ev select_series_outcome[of i s] by (auto split: if_splits)
    ultimately show ?thesis using ev by simp
  next
    case False
    then have "contained ?m"
      unfolding gui_handle_def by (intro contained_bind contained_sidebar contained_panel) blast
    then show ?thesis using False unfolding contained_def by (metis fst_conv)
  qed
qed

section \<open>Selecting a series\<close>

lemma c_str_set_text: "set_text capacity source = Inr field \<Longrightarrow> c_str field = takeWhile (\<lambda>c. c \<noteq> CHR 0x00) source"
proof -
  assume "set_text capacity source = Inr field"
  then have f: "field = source @ replicate (capacity - length source) CHR 0x00" "0 < capacity - length source"
    by (auto simp: set_text_def split: if_splits)
  then obtain n where "field = source @ CHR 0x00 # replicate n CHR 0x00" by (metis gr0_conv_Suc replicate_Suc)
  then show ?thesis by (induction source arbitrary: field) (auto simp: c_str_def)
qed

definition nul_free :: "string \<Rightarrow> bool" where
  "nul_free s \<longleftrightarrow> CHR 0x00 \<notin> set s"

lemma nul_free_takeWhile: "nul_free s \<longleftrightarrow> takeWhile (\<lambda>c. c \<noteq> CHR 0x00) s = s"
  by (auto simp: nul_free_def takeWhile_eq_all_conv)

lemma nul_free_encoded: "nul_free (encode_tags ts) \<longleftrightarrow> list_all (\<lambda>t. nul_free (tag_key t) \<and> nul_free (tag_value t)) ts"
proof (cases ts)
  case (Cons t us)
  then show ?thesis by (auto simp: encode_tags_Cons nul_free_def tag_text_def list_all_iff)
qed (simp add: encode_tags_def nul_free_def)

lemma select_series_fields:
  assumes "select_series i (g, h) = (Inr (), (g', h'))" "i < length (gs_known_series g)" "k = gs_known_series g ! i"
  shows "c_str (gs_measurement g') = takeWhile (\<lambda>c. c \<noteq> CHR 0x00) (measurement k)"
    "c_str (gs_tags g') = takeWhile (\<lambda>c. c \<noteq> CHR 0x00) (encode_tags (tags k))"
proof -
  obtain m t where "set_text measurement_capacity (measurement k) = Inr m" "set_text tags_capacity (encode_tags (tags k)) = Inr t"
    "gs_measurement g' = m" "gs_tags g' = t"
    using assms by (auto simp: select_series_def Let_def act_bind_def set_field_def gui_modify_def clear_results_def split: sum.splits)
  then show "c_str (gs_measurement g') = takeWhile (\<lambda>c. c \<noteq> CHR 0x00) (measurement k)"
    "c_str (gs_tags g') = takeWhile (\<lambda>c. c \<noteq> CHR 0x00) (encode_tags (tags k))"
    using c_str_set_text by blast+
qed

text \<open>
  Claim C24.  After a series was selected, the queries are about this series exactly when its text fits
  the notation of the editor: no NUL in it, no comma and no surrounding white space in its tags and no
  equals sign in their keys.  For other series the editor denotes another series or none.
\<close>

theorem selected_series_is_current:
  assumes "select_series i (g, h) = (Inr (), (g', h'))" "i < length (gs_known_series g)" "series_wf (gs_known_series g ! i)"
  shows "current_series g' = Inr (gs_known_series g ! i) \<longleftrightarrow>
    nul_free (measurement (gs_known_series g ! i)) \<and>
    list_all (\<lambda>t. plain_tag t \<and> nul_free (tag_key t) \<and> nul_free (tag_value t)) (tags (gs_known_series g ! i))"
proof -
  let ?k = "gs_known_series g ! i"
  note f = select_series_fields[OF assms(1,2) refl]
  let ?text = "takeWhile (\<lambda>c. c \<noteq> CHR 0x00) (encode_tags (tags ?k))"
  show ?thesis
  proof
    assume "current_series g' = Inr ?k"
    then obtain ts where ts: "view_parse_tags ?text = Inr ts" "make_SeriesKey (takeWhile (\<lambda>c. c \<noteq> CHR 0x00) (measurement ?k)) ts = Inr ?k"
      using f by (auto simp: current_series_def ebind_eq_Inr)
    then have m: "nul_free (measurement ?k)" and s: "set (tags ?k) = set ts"
      unfolding nul_free_takeWhile make_SeriesKey_Inr by (metis SeriesKey.sel(1), metis SeriesKey.sel(2) set_sort)
    have "CHR 0x00 \<notin> set ?text" by (auto dest: set_takeWhileD)
    then show "nul_free (measurement ?k) \<and> list_all (\<lambda>t. plain_tag t \<and> nul_free (tag_key t) \<and> nul_free (tag_value t)) (tags ?k)"
      using m s parsed_tags_plain[OF ts(1)] unfolding list_all_iff nul_free_def by blast
  next
    assume p: "nul_free (measurement ?k) \<and> list_all (\<lambda>t. plain_tag t \<and> nul_free (tag_key t) \<and> nul_free (tag_value t)) (tags ?k)"
    then have "nul_free (encode_tags (tags ?k))" "list_all plain_tag (tags ?k)" by (auto simp: nul_free_encoded list_all_iff)
    then have "c_str (gs_measurement g') = measurement ?k" "c_str (gs_tags g') = encode_tags (tags ?k)"
      "view_parse_tags (encode_tags (tags ?k)) = Inr (tags ?k)"
      using f p tag_notation[of "tags ?k"] unfolding nul_free_takeWhile by metis+
    then show "current_series g' = Inr ?k" using assms(3) by (simp add: current_series_def)
  qed
qed

definition gui_with :: "SeriesKey list \<Rightarrow> GuiState" where
  "gui_with ks = (projr (make_GuiState ''db''))\<lparr>gs_known_series := ks\<rparr>"

lemma gui_with_simps [simp]: "gs_known_series (gui_with ks) = ks"
  by (simp add: gui_with_def)

theorem selected_series_is_current_witness:
  "\<exists>g'. select_series 0 (gui_with [SeriesKey ''cpu'' [Tag ''host'' ''a'']], demo_host) = (Inr (), (g', demo_host)) \<and>
     current_series g' = Inr (SeriesKey ''cpu'' [Tag ''host'' ''a''])"
proof -
  let ?k = "SeriesKey ''cpu'' [Tag ''host'' ''a'']" and ?s = "(gui_with [SeriesKey ''cpu'' [Tag ''host'' ''a'']], demo_host)"
  have o: "fst (select_series 0 ?s) = Inr ()"
    using select_series_outcome[of 0 ?s] by (simp add: fits_def measurement_capacity_def tags_capacity_def encode_tags_def)
  moreover have "snd (snd (select_series 0 ?s)) = demo_host"
    by (simp add: select_series_def Let_def act_bind_def set_field_def gui_modify_def split: sum.splits)
  ultimately have s: "select_series 0 ?s = (Inr (), (fst (snd (select_series 0 ?s)), demo_host))" by (metis prod.collapse)
  have "series_wf ?k" by (simp add: series_wf_def tag_wf_def)
  moreover have "plain_tag (Tag ''host'' ''a'')" by (simp add: plain_tag_def trimmed_def is_space_def)
  ultimately have "current_series (fst (snd (select_series 0 ?s))) = Inr ?k"
    using selected_series_is_current[OF s] by (simp add: nul_free_def)
  then show ?thesis using s by blast
qed

text \<open>
  A tag value with a comma: after selecting its series, the editor denotes a series with two tags,
  and the queries answer for that one.
\<close>

theorem selected_series_misread:
  "\<exists>g'. select_series 0 (gui_with [SeriesKey ''cpu'' [Tag ''a'' ''1,b=2'']], h) = (Inr (), (g', h)) \<and>
     current_series g' = Inr (SeriesKey ''cpu'' [Tag ''a'' ''1'', Tag ''b'' ''2''])"
proof -
  let ?s = "(gui_with [SeriesKey ''cpu'' [Tag ''a'' ''1,b=2'']], h)"
  have e: "encode_tags [Tag ''a'' ''1,b=2''] = ''a=1,b=2''" by (simp add: encode_tags_def)
  have p: "view_parse_tags ''a=1,b=2'' = Inr [Tag ''a'' ''1'', Tag ''b'' ''2'']" by code_simp
  have "fst (select_series 0 ?s) = Inr ()"
    using select_series_outcome[of 0 ?s] by (simp add: fits_def measurement_capacity_def tags_capacity_def e)
  moreover have "snd (snd (select_series 0 ?s)) = h"
    by (simp add: select_series_def Let_def act_bind_def set_field_def gui_modify_def split: sum.splits)
  ultimately have s: "select_series 0 ?s = (Inr (), (fst (snd (select_series 0 ?s)), h))" by (metis prod.collapse)
  have "c_str (gs_measurement (fst (snd (select_series 0 ?s)))) = ''cpu''" "c_str (gs_tags (fst (snd (select_series 0 ?s)))) = ''a=1,b=2''"
    using select_series_fields[OF s] e by simp_all
  then show ?thesis
    using s p by (intro exI[of _ "fst (snd (select_series 0 ?s))"]) (simp add: current_series_def make_SeriesKey_def less_eq_Tag_def)
qed

section \<open>Reading tags\<close>

text \<open>
  Claim C25.  The loop that reads the tag notation ends on every text, although it moves by searches
  for commas, and it reads what splitting the trimmed text at its commas gives, item by item; it
  returns tags that the notation can express or throws \<^verbatim>\<open>std::invalid_argument\<close>.
\<close>

theorem parse_tags_correct:
  "view_parse_tags input =
     (if trim input = [] then Inr [] else emap (\<lambda>item. parse_item (trim item)) (split_commas (trim input))) \<and>
   (case view_parse_tags input of Inl e \<Rightarrow> \<exists>msg. e = InvalidArgument msg | Inr ts \<Rightarrow> list_all plain_tag ts)"
proof (intro conjI view_parse_tags_split)
  have "emap (\<lambda>item. parse_item (trim item)) xs = Inl e \<Longrightarrow> \<exists>msg. e = InvalidArgument msg" for xs e
  proof (induction xs)
    case (Cons x xs)
    have "parse_item y = Inl e \<Longrightarrow> \<exists>msg. e = InvalidArgument msg" for y
      by (auto simp: parse_item_def make_Tag_def Let_def split: if_splits)
    then show ?case using Cons by (auto simp: ebind_def split: sum.splits)
  qed simp
  then show "case view_parse_tags input of Inl e \<Rightarrow> \<exists>msg. e = InvalidArgument msg | Inr ts \<Rightarrow> list_all plain_tag ts"
    using parsed_tags_plain(1)[of input] by (auto simp: list_all_iff view_parse_tags_split split: sum.splits if_splits)
qed

end
