(* ===== verification/ViewSystem.thy ===== *)
theory ViewSystem
  imports ViewProperties
begin

text \<open>
  A session of the graphical client as a part of the history of the system: whatever the user does
  on one path, the session contributes steps of one process, so all that holds of histories holds
  of sessions.
\<close>

section \<open>Simulation\<close>

fun event_by :: "nat \<Rightarrow> db_event \<Rightarrow> bool" where
  "event_by q (DbOpened p) \<longleftrightarrow> p = q"
| "event_by q (DbOpenFailed p e) \<longleftrightarrow> p = q"
| "event_by q (DbOpenDied p) \<longleftrightarrow> p = q"
| "event_by q (DbReturned p a) \<longleftrightarrow> p = q"
| "event_by q (DbFailed p a e) \<longleftrightarrow> p = q"
| "event_by q (DbDied p a) \<longleftrightarrow> p = q"
| "event_by q (DbClosed p) \<longleftrightarrow> p = q"
| "event_by q DbEnvironment \<longleftrightarrow> False"

definition gui_obj :: "GuiState \<Rightarrow> Database" where
  "gui_obj g = (case gs_database g of None \<Rightarrow> closed | Some D \<Rightarrow> D)"

definition gui_path :: "GuiState \<Rightarrow> string" where
  "gui_path g = c_str (gs_database_path g)"

text \<open>The system in which the client is the process \<open>q\<close>, and after it died.\<close>

definition gui_system :: "nat \<Rightarrow> (nat \<Rightarrow> Database) \<Rightarrow> 'a result \<Rightarrow> gui \<Rightarrow> system" where
  "gui_system q objs r s =
     (if r = Inl Crashed then (drop_locks q objs (snd s), objs(q := closed)) else (snd s, objs(q := gui_obj (fst s))))"

abbreviation gui_now :: "nat \<Rightarrow> (nat \<Rightarrow> Database) \<Rightarrow> gui \<Rightarrow> system" where
  "gui_now q objs s \<equiv> (snd s, objs(q := gui_obj (fst s)))"

definition simulates :: "string \<Rightarrow> nat \<Rightarrow> (nat \<Rightarrow> Database) \<Rightarrow> (gui, 'a) act \<Rightarrow> bool" where
  "simulates dir q objs m \<longleftrightarrow>
     (\<forall>s S. sys_denotes (gui_now q objs s) S \<and> gui_path (fst s) = dir \<longrightarrow>
        gui_path (fst (snd (m s))) = dir \<and>
        (\<exists>evs. list_all (event_by q) evs \<and> sys_steps dir (gui_now q objs s) evs (gui_system q objs (fst (m s)) (snd (m s)))))"

lemma simulatesI:
  assumes "\<And>s S r s'. sys_denotes (gui_now q objs s) S \<Longrightarrow> gui_path (fst s) = dir \<Longrightarrow> m s = (r, s') \<Longrightarrow>
    gui_path (fst s') = dir \<and> (\<exists>evs. list_all (event_by q) evs \<and> sys_steps dir (gui_now q objs s) evs (gui_system q objs r s'))"
  shows "simulates dir q objs m"
  unfolding simulates_def using assms by (metis prod.collapse)

lemma simulatesD:
  assumes "simulates dir q objs m" "sys_denotes (gui_now q objs s) S" "gui_path (fst s) = dir" "m s = (r, s')"
  obtains evs where "gui_path (fst s') = dir" "list_all (event_by q) evs" "sys_steps dir (gui_now q objs s) evs (gui_system q objs r s')"
  using assms unfolding simulates_def by (metis fst_conv snd_conv)

lemma sim_bind:
  assumes m: "simulates dir q objs m" and k: "\<And>x. simulates dir q objs (k x)"
  shows "simulates dir q objs (act_bind m k)"
proof (rule simulatesI)
  fix s S r s'
  assume s: "sys_denotes (gui_now q objs s) S" "gui_path (fst s) = dir" "act_bind m k s = (r, s')"
  obtain r1 s1 where 1: "m s = (r1, s1)" by (rule prod.exhaust)
  obtain evs where e: "gui_path (fst s1) = dir" "list_all (event_by q) evs" "sys_steps dir (gui_now q objs s) evs (gui_system q objs r1 s1)"
    by (rule simulatesD[OF m s(1,2) 1])
  show "gui_path (fst s') = dir \<and> (\<exists>evs. list_all (event_by q) evs \<and> sys_steps dir (gui_now q objs s) evs (gui_system q objs r s'))"
  proof (cases r1)
    case (Inl err)
    then have "r = Inl err" "s' = s1" using s(3) 1 by (simp_all add: act_bind_def)
    then show ?thesis using e Inl by (auto simp: gui_system_def)
  next
    case (Inr x)
    then have 2: "k x s1 = (r, s')" and st: "sys_steps dir (gui_now q objs s) evs (gui_now q objs s1)"
      using s(3) 1 e(3) by (simp_all add: act_bind_def gui_system_def)
    obtain S1 where S1: "sys_denotes (gui_now q objs s1) S1" using sys_steps_refine[OF st s(1)] by blast
    obtain evs' where "gui_path (fst s') = dir" "list_all (event_by q) evs'"
      "sys_steps dir (gui_now q objs s1) evs' (gui_system q objs r s')" by (rule simulatesD[OF k S1 e(1) 2])
    then show ?thesis using e(2) sys_steps_append[OF st] by (intro conjI exI[of _ "evs @ evs'"]) simp_all
  qed
qed

lemma sim_at: "(\<And>s. simulates dir q objs (m s)) \<Longrightarrow> simulates dir q objs (\<lambda>s. m s s)"
  unfolding simulates_def by blast

lemma sim_if: "simulates dir q objs m \<Longrightarrow> simulates dir q objs m' \<Longrightarrow> simulates dir q objs (\<lambda>s. if b s then m s else m' s)"
  unfolding simulates_def by simp

text \<open>An action that leaves the database, its path and the host alone.\<close>

lemma sim_local:
  assumes "\<And>g h. \<exists>r g'. m (g, h) = (r, (g', h)) \<and> r \<noteq> Inl Crashed \<and> gs_database g' = gs_database g \<and>
    gs_database_path g' = gs_database_path g"
  shows "simulates dir q objs m"
proof (rule simulatesI)
  fix s S r s'
  assume s: "gui_path (fst s) = dir" "m s = (r, s')"
  obtain g h where gh: "s = (g, h)" by force
  have "r \<noteq> Inl Crashed" "snd s' = h" "gui_obj (fst s') = gui_obj g" "gui_path (fst s') = dir"
    using assms[of g h] s gh by (auto simp: gui_obj_def gui_path_def)
  then show "gui_path (fst s') = dir \<and> (\<exists>evs. list_all (event_by q) evs \<and> sys_steps dir (gui_now q objs s) evs (gui_system q objs r s'))"
    using gh sys_steps_Nil by (intro conjI exI[of _ "[]"]) (simp_all add: gui_system_def)
qed

lemma sim_simps [simp]:
  "simulates dir q objs (act_return x)" "simulates dir q objs (Pair (Inr x))" "simulates dir q objs require_database"
  by (intro sim_local; simp add: require_database_def)+

lemma sim_modify:
  "(\<And>g. gs_database (f g) = gs_database g \<and> gs_database_path (f g) = gs_database_path g) \<Longrightarrow> simulates dir q objs (gui_modify f)"
  by (intro sim_local) (simp add: gui_modify_def)

lemma sim_get:
  assumes "\<And>s. F s \<noteq> Inl Crashed" "\<And>s x. F s = Inr x \<Longrightarrow> simulates dir q objs (k x)"
  shows "simulates dir q objs (act_bind (act_get F) k)"
proof (rule simulatesI)
  fix s S r s'
  assume s: "sys_denotes (gui_now q objs s) S" "gui_path (fst s) = dir" "act_bind (act_get F) k s = (r, s')"
  show "gui_path (fst s') = dir \<and> (\<exists>evs. list_all (event_by q) evs \<and> sys_steps dir (gui_now q objs s) evs (gui_system q objs r s'))"
  proof (cases "F s")
    case (Inl e)
    then show ?thesis
      using s assms(1)[of s] sys_steps_Nil by (intro conjI exI[of _ "[]"]) (auto simp: act_bind_def gui_system_def)
  next
    case (Inr x)
    then have "k x s = (r, s')" using s(3) by (simp add: act_bind_def)
    then show ?thesis using simulatesD[OF assms(2)[OF Inr] s(1,2)] by metis
  qed
qed

section \<open>Calls of the database\<close>

lemma owners_elsewhere: "owners (objs(q := closed)) \<subseteq> owners objs - {q}"
  by (auto simp: owners_def)

lemma drop_locks_update: "drop_locks q (objs(q := D)) h = drop_locks q objs h"
  by (rule owners_irrelevant)

lemma sim_op:
  assumes wf: "db_op_wf a"
  shows "simulates dir q objs (gui_call (run_db_op a))"
proof (rule simulatesI)
  fix s S r s'
  assume s: "sys_denotes (gui_now q objs s) S" "gui_path (fst s) = dir" "gui_call (run_db_op a) s = (r, s')"
  show "gui_path (fst s') = dir \<and> (\<exists>evs. list_all (event_by q) evs \<and> sys_steps dir (gui_now q objs s) evs (gui_system q objs r s'))"
  proof (cases "gs_database (fst s)")
    case None
    then show ?thesis
      using s sys_steps_Nil by (intro conjI exI[of _ "[]"]) (auto simp: gui_call_def gui_system_def)
  next
    case (Some D)
    obtain D' h' where op: "run_db_op a (D, snd s) = (r, (D', h'))" and s': "s' = ((fst s)\<lparr>gs_database := Some D'\<rparr>, h')"
      using s(3) Some by (cases "run_db_op a (D, snd s)") (auto simp: gui_call_def split: prod.splits)
    let ?o = "objs(q := D)"
    have now: "gui_now q objs s = (snd s, ?o)" using Some by (simp add: gui_obj_def)
    have op': "run_db_op a (?o q, snd s) = (r, (D', h'))" using op by simp
    let ?ev = "case r of Inr _ \<Rightarrow> DbReturned q a | Inl e \<Rightarrow> if e = Crashed then DbDied q a else DbFailed q a e"
    have "sys_step dir (snd s, ?o) ?ev (gui_system q objs r s')"
    proof (cases r)
      case (Inl e)
      then show ?thesis
        using sys_died[OF wf, of ?o q "snd s" D' h' dir] sys_failed[OF wf, of ?o q "snd s" e D' h' dir] op' s'
        by (auto simp: gui_system_def gui_obj_def drop_locks_update)
    next
      case (Inr u)
      then show ?thesis
        using sys_returned[OF wf, of ?o q "snd s" D' h' dir] op' s' by (simp add: gui_system_def gui_obj_def)
    qed
    moreover have "event_by q ?ev" by (simp split: sum.splits)
    ultimately show ?thesis
      using sys_steps_one[of dir "(snd s, ?o)" ?ev] now s' s(2)
      by (intro conjI exI[of _ "[?ev]"]) (simp_all add: gui_path_def)
  qed
qed

lemma sim_query:
  assumes "\<And>h S D. sys_denotes (h, objs(q := D)) S \<Longrightarrow> f (D, h) \<noteq> Inl Crashed"
  shows "simulates dir q objs (gui_query f)"
proof (rule simulatesI)
  fix s S r s'
  assume s: "sys_denotes (gui_now q objs s) S" "gui_path (fst s) = dir" "gui_query f s = (r, s')"
  have "r \<noteq> Inl Crashed" "snd s' = snd s" "gui_obj (fst s') = gui_obj (fst s)" "gui_path (fst s') = dir"
    using s assms[of "snd s" "gui_obj (fst s)"]
    by (auto simp: gui_query_def gui_call_def gui_obj_def gui_path_def split: option.splits)
  then show "gui_path (fst s') = dir \<and> (\<exists>evs. list_all (event_by q) evs \<and> sys_steps dir (gui_now q objs s) evs (gui_system q objs r s'))"
    using sys_steps_Nil by (intro conjI exI[of _ "[]"]) (simp_all add: gui_system_def)
qed

lemma sim_queries:
  "simulates dir q objs (gui_query (\<lambda>d. database_get d k t))" "simulates dir q objs (gui_query (\<lambda>d. database_latest d k))"
  "simulates dir q objs (gui_query (\<lambda>d. database_range d k a b))" "simulates dir q objs (gui_query database_series)"
  "simulates dir q objs (gui_query database_stats)"
  by (intro sim_query; use queries_return[where objs = "objs(q := _)" and p = q] in simp)+

lemma sim_make_database:
  "simulates dir q objs (\<lambda>s. if gs_database (fst s) \<noteq> None then (Inr (), s) else make_database s)"
proof (rule simulatesI)
  fix s S r s'
  let ?m = "\<lambda>s. if gs_database (fst s) \<noteq> None then (Inr (), s) else make_database s"
  assume s: "sys_denotes (gui_now q objs s) S" "gui_path (fst s) = dir" "?m s = (r, s')"
  show "gui_path (fst s') = dir \<and> (\<exists>evs. list_all (event_by q) evs \<and> sys_steps dir (gui_now q objs s) evs (gui_system q objs r s'))"
  proof (cases "gs_database (fst s)")
    case (Some D)
    then show ?thesis using s sys_steps_Nil by (intro conjI exI[of _ "[]"]) (auto simp: gui_system_def)
  next
    case None
    let ?o = "objs(q := closed)" and ?opts = "gui_options (fst s)"
    have now: "gui_now q objs s = (snd s, ?o)" and no: "q \<notin> owners ?o" using None by (simp_all add: gui_obj_def owners_def)
    obtain r0 h where o: "open_database dir ?opts (snd s) = (r0, h)" by force
    then have out: "r = map_sum id (\<lambda>_. ()) r0" "snd s' = h" "gs_database_path (fst s') = gs_database_path (fst s)"
      "\<forall>D. r0 = Inr D \<longrightarrow> gs_database (fst s') = Some D" "\<forall>e. r0 = Inl e \<longrightarrow> gs_database (fst s') = None"
      using s(2,3) None by (auto simp: make_database_def gui_path_def split: sum.splits prod.splits)
    let ?ev = "case r0 of Inr _ \<Rightarrow> DbOpened q | Inl e \<Rightarrow> if e = Crashed then DbOpenDied q else DbOpenFailed q e"
    have "sys_step dir (snd s, ?o) ?ev (gui_system q objs r s')"
    proof (cases r0)
      case (Inl e)
      then show ?thesis
        using sys_open_died[OF no, of dir ?opts "snd s" h] sys_open_failed[OF no, of dir ?opts "snd s" e h] o out
        by (auto simp: gui_system_def gui_obj_def drop_locks_update)
    next
      case (Inr D)
      then show ?thesis using sys_opened[OF no, of dir ?opts "snd s" D h] o out by (simp add: gui_system_def gui_obj_def)
    qed
    moreover have "event_by q ?ev" by (simp split: sum.splits)
    ultimately show ?thesis
      using sys_steps_one[of dir "(snd s, ?o)" ?ev] now s(2) out(3)
      by (intro conjI exI[of _ "[?ev]"]) (simp_all add: gui_path_def)
  qed
qed

section \<open>Operations\<close>

lemma sim_refresh: "simulates dir q objs refresh_metadata"
  unfolding refresh_metadata_def by (intro sim_bind sim_queries sim_modify sim_simps) simp_all

lemma sim_set_field:
  assumes "\<And>field g. gs_database (put field g) = gs_database g \<and> gs_database_path (put field g) = gs_database_path g"
  shows "simulates dir q objs (set_field capacity source put)"
  unfolding set_field_def by (intro sim_get sim_modify assms) (simp add: set_text_def)

lemma sim_select: "simulates dir q objs (select_series index)"
  by (intro sim_local)
    (simp add: select_series_def Let_def act_bind_def set_field_def gui_modify_def set_text_def clear_results_def)

lemma sim_open: "simulates dir q objs gui_open_database"
proof -
  let ?create = "\<lambda>s. if gs_database (fst s) \<noteq> None then (Inr (), s) else make_database s"
  let ?rest = "act_bind refresh_metadata (\<lambda>_ s. if gs_known_series (fst s) \<noteq> [] then select_series 0 s else (Inr (), s))"
  have small: "\<not> 18446744073709551615 < unat w" for w :: u64 using unat_u64_less[of w] by simp
  have eq: "gui_open_database = (\<lambda>s. if gs_database (fst s) \<noteq> None then (Inr (), s) else act_bind ?create (\<lambda>_. ?rest) s)"
    using small by (auto simp: fun_eq_iff gui_open_database_def act_bind_def)
  have "simulates dir q objs ?rest" by (intro sim_bind sim_refresh sim_if sim_select) simp
  then have "simulates dir q objs (act_bind ?create (\<lambda>_. ?rest))" by (rule sim_bind[OF sim_make_database])
  then show ?thesis unfolding eq by (rule sim_if[OF sim_simps(2)])
qed

lemma current_series_wf: "current_series g = Inr k \<Longrightarrow> series_wf k" "current_series g \<noteq> Inl Crashed"
proof -
  have item: "parse_item x \<noteq> Inl Crashed" for x by (simp add: parse_item_def make_Tag_def Let_def)
  have "emap (\<lambda>x. parse_item (trim x)) xs \<noteq> Inl Crashed" for xs
    by (induction xs) (auto simp: ebind_def item split: sum.splits)
  then have "view_parse_tags s \<noteq> Inl Crashed" for s by (simp add: view_parse_tags_split)
  then show "current_series g \<noteq> Inl Crashed"
    using make_SeriesKey_error[of _ _ Crashed] by (auto simp: current_series_def ebind_def split: sum.splits)
  show "current_series g = Inr k \<Longrightarrow> series_wf k"
    using parsed_tags_plain(1)
    by (fastforce simp: current_series_def ebind_eq_Inr list_all_iff plain_tag_def tag_wf_def intro: make_SeriesKey_wf)
qed

lemma sim_series: "(\<And>k. series_wf k \<Longrightarrow> simulates dir q objs (f k)) \<Longrightarrow> simulates dir q objs (act_bind get_series f)"
  unfolding get_series_def by (intro sim_get) (auto intro: current_series_wf simp: current_series_wf(2))

lemma sim_put_call: "series_wf k \<Longrightarrow> sample_wf x \<Longrightarrow> simulates dir q objs (gui_call (database_put k x))"
  using sim_op[of "DbPut k x"] by simp

lemma sim_sample:
  "(\<And>x. sample_wf x \<Longrightarrow> simulates dir q objs (f x)) \<Longrightarrow>
   simulates dir q objs (act_bind (act_get (\<lambda>s. make_Sample (t s) (v s))) f)"
  by (intro sim_get) (auto simp: make_Sample_Inr sample_wf_def make_Sample_def split: if_splits)

lemma sim_select_known: "simulates dir q objs (gui_modify (select_known_series k))"
  by (intro sim_modify) (simp add: select_known_series_def split: option.splits)

lemma sim_put: "simulates dir q objs put_sample"
  unfolding put_sample_def by (intro sim_bind[OF sim_simps(3)] sim_series sim_sample sim_bind sim_put_call sim_refresh sim_select_known)

lemma sim_point: "simulates dir q objs gui_query_point"
proof -
  have "simulates dir q objs (\<lambda>s. act_bind (gui_query (\<lambda>d. database_get d k (Timestamp (gs_point_timestamp (fst s)))))
      (\<lambda>x. gui_modify (show_single query_point x)) s)" for k
    by (rule sim_at[of dir q objs "\<lambda>s. act_bind (gui_query (\<lambda>d. database_get d k (Timestamp (gs_point_timestamp (fst s)))))
      (\<lambda>x. gui_modify (show_single query_point x))"]) (intro sim_bind sim_queries sim_modify, simp add: show_single_def)
  then show ?thesis unfolding gui_query_point_def by (intro sim_bind[OF sim_simps(3)] sim_series)
qed

lemma sim_latest: "simulates dir q objs gui_query_latest"
  unfolding gui_query_latest_def
  by (intro sim_bind[OF sim_simps(3)] sim_series sim_bind sim_queries sim_modify) (simp add: show_single_def)

lemma sim_range: "simulates dir q objs gui_query_range"
proof -
  let ?show = "\<lambda>xs. gui_modify (\<lambda>g. rebuild_plot (g\<lparr>gs_range_result := xs, gs_single_result := None, gs_query_kind := query_range\<rparr>))"
  have show_sim: "simulates dir q objs (?show xs)" for xs
    by (intro sim_modify) (simp add: rebuild_plot_def split: list.splits)
  have "simulates dir q objs (\<lambda>s. act_bind (gui_query (\<lambda>d. database_range d k (Timestamp (gs_range_start (fst s))) (Timestamp (gs_range_end (fst s))))) ?show s)" for k
    by (rule sim_at[of dir q objs "\<lambda>s. act_bind (gui_query (\<lambda>d. database_range d k (Timestamp (gs_range_start (fst s))) (Timestamp (gs_range_end (fst s))))) ?show"])
      (intro sim_bind sim_queries show_sim)
  then show ?thesis unfolding gui_query_range_def by (intro sim_bind[OF sim_simps(3)] sim_series)
qed

lemma sim_put_demo: "series_wf k \<Longrightarrow> simulates dir q objs (put_demo demo_value k ns)"
  by (induction ns) (simp_all add: sim_sample sim_bind sim_put_call)

lemma sim_demo: "simulates dir q objs (generate_demo demo_value)"
proof -
  have flush: "simulates dir q objs (gui_call database_flush)" using sim_op[of DbFlush] by simp
  show ?thesis
    unfolding generate_demo_def
    by (intro sim_bind[OF sim_simps(3)] sim_bind[OF sim_set_field] sim_series sim_bind sim_put_demo flush sim_modify sim_refresh
        sim_select_known sim_range) (simp_all add: Let_def)
qed

lemma sim_maintain: "simulates dir q objs gui_sync" "simulates dir q objs gui_flush" "simulates dir q objs gui_compact"
proof -
  have op: "simulates dir q objs (gui_call database_sync)" "simulates dir q objs (gui_call database_flush)"
    "simulates dir q objs (gui_call database_compact)" using sim_op[of DbSync] sim_op[of DbFlush] sim_op[of DbCompact] by simp_all
  then show "simulates dir q objs gui_sync" "simulates dir q objs gui_flush" "simulates dir q objs gui_compact"
    unfolding gui_sync_def gui_flush_def gui_compact_def gui_maintain_def by (intro sim_bind sim_simps sim_refresh op)+
qed

section \<open>Events\<close>

lemma sim_perform:
  assumes m: "simulates dir q objs m"
  shows "simulates dir q objs (perform strerror message m)"
proof (rule simulatesI)
  fix s S r s'
  assume s: "sys_denotes (gui_now q objs s) S" "gui_path (fst s) = dir" "perform strerror message m s = (r, s')"
  obtain r1 s1 where 1: "m s = (r1, s1)" by (rule prod.exhaust)
  obtain evs where e: "gui_path (fst s1) = dir" "list_all (event_by q) evs" "sys_steps dir (gui_now q objs s) evs (gui_system q objs r1 s1)"
    by (rule simulatesD[OF m s(1,2) 1])
  have "(r = Inl Crashed \<longleftrightarrow> r1 = Inl Crashed) \<and> snd s' = snd s1 \<and> gs_database (fst s') = gs_database (fst s1) \<and>
      gs_database_path (fst s') = gs_database_path (fst s1)"
    using s(3) 1 by (cases r1) (auto simp: perform_def split: if_splits)
  then show "gui_path (fst s') = dir \<and> (\<exists>evs. list_all (event_by q) evs \<and> sys_steps dir (gui_now q objs s) evs (gui_system q objs r s'))"
    using e by (auto simp: gui_system_def gui_obj_def gui_path_def split: if_splits)
qed

lemma sim_edit:
  "(\<And>g. gs_database (f g) = gs_database g \<and> gs_database_path (f g) = gs_database_path g) \<Longrightarrow> simulates dir q objs (edit b f)"
  by (intro sim_local) (simp add: edit_def gui_modify_def)

lemma close_steps:
  "\<exists>evs. list_all (event_by q) evs \<and> sys_steps dir (gui_now q objs s) evs (gui_now q objs (gui_close_database s))"
proof (cases "gs_database (fst s)")
  case None
  then show ?thesis
    using sys_steps_Nil by (intro exI[of _ "[]"]) (simp add: gui_close_database_def gui_obj_def clear_results_def)
next
  case (Some D)
  then have "sys_step dir (gui_now q objs s) (DbClosed q) (gui_now q objs (gui_close_database s))"
    using sys_closed[of dir "snd s" "objs(q := D)" q] by (simp add: gui_close_database_def gui_obj_def)
  then show ?thesis using sys_steps_one by (intro exI[of _ "[DbClosed q]"]) simp
qed

lemma sim_close: "simulates dir q objs (\<lambda>s. (Inr (), gui_close_database s))"
proof (rule simulatesI)
  fix s :: gui and S r s'
  assume s: "gui_path (fst s) = dir" "(Inr (), gui_close_database s) = (r :: unit result, s')"
  then show "gui_path (fst s') = dir \<and> (\<exists>evs. list_all (event_by q) evs \<and> sys_steps dir (gui_now q objs s) evs (gui_system q objs r s'))"
    using close_steps[where q = q and dir = dir and objs = objs and s = s] by (auto simp: gui_system_def gui_path_def gui_close_database_def clear_results_def)
qed

fun same_path :: "gui_event \<Rightarrow> bool" where
  "same_path (EditPath field h) \<longleftrightarrow> False"
| "same_path _ \<longleftrightarrow> True"

lemma sim_sidebar:
  assumes "same_path ev"
  shows "simulates dir q objs (sidebar_event strerror ev)"
proof -
  have eta: "sidebar_event strerror ClickOpen = (\<lambda>s. if connected (fst s) then (Inr (), s) else perform strerror ''Database opened'' gui_open_database s)"
    "sidebar_event strerror ClickRefresh = (\<lambda>s. if connected (fst s) then perform strerror ''Metadata refreshed'' refresh_metadata s else (Inr (), s))"
    "sidebar_event strerror ClickClose = (\<lambda>s. if connected (fst s) then (Inr (), gui_close_database s) else (Inr (), s))"
    "sidebar_event strerror (ClickSeries i) = (\<lambda>s. if i < length (gs_known_series (fst s)) then select_series i s else (Inr (), s))" for i
    by (simp_all add: fun_eq_iff)
  have local: "\<exists>r g'. sidebar_event strerror ev (g, h) = (r, (g', h)) \<and> r \<noteq> Inl Crashed \<and> gs_database g' = gs_database g \<and>
    gs_database_path g' = gs_database_path g" if "ev \<noteq> ClickOpen" "ev \<noteq> ClickRefresh" "ev \<noteq> ClickClose" "\<And>i. ev \<noteq> ClickSeries i" for g h
    using that assms by (cases ev) (auto simp: edit_def gui_modify_def)
  show ?thesis
  proof (cases "ev = ClickOpen \<or> ev = ClickRefresh \<or> ev = ClickClose \<or> (\<exists>i. ev = ClickSeries i)")
    case True
    then show ?thesis by (auto simp: eta intro!: sim_if sim_perform sim_open sim_refresh sim_close sim_select)
  next
    case False
    then show ?thesis using local by (intro sim_local) blast
  qed
qed

lemma sim_panel: "simulates dir q objs (panel_event strerror demo_value ev)"
proof -
  have e: "simulates dir q objs (explore_event strerror ev)"
    by (cases ev) (auto intro!: sim_edit sim_perform sim_latest sim_point sim_range)
  have w: "simulates dir q objs (write_event strerror demo_value ev)"
    by (cases ev) (auto intro!: sim_edit sim_perform sim_put sim_demo)
  have m: "simulates dir q objs (maintenance_event strerror ev)"
    by (cases ev) (auto intro!: sim_perform sim_maintain)
  have "panel_event strerror demo_value ev = (\<lambda>s. if \<not> connected (fst s) then (Inr (), s) else
      act_bind (explore_event strerror ev) (\<lambda>_. act_bind (write_event strerror demo_value ev) (\<lambda>_. maintenance_event strerror ev)) s)"
    by (simp add: fun_eq_iff panel_event_def)
  then show ?thesis using sim_if[OF sim_simps(2) sim_bind[OF e sim_bind[OF w m]]] by simp
qed

lemma sim_frames: "list_all same_path evs \<Longrightarrow> simulates dir q objs (gui_frames strerror demo_value evs)"
  by (induction evs) (auto simp: gui_handle_def intro!: sim_bind sim_sidebar sim_panel)

lemma sim_start: "simulates dir q objs (start_session strerror demo_value open_on_start demo)"
  unfolding start_session_def
  by (intro sim_bind sim_if sim_perform sim_demo) (auto intro: sim_perform sim_open)

section \<open>Sessions\<close>

lemma initial_path: "make_GuiState path = Inr g \<Longrightarrow> nul_free path \<Longrightarrow> gui_path g = path \<and> gs_database g = None"
  using c_str_set_text by (fastforce simp: make_GuiState_def ebind_eq_Inr gui_path_def nul_free_takeWhile)

lemma run_gui_history:
  assumes "new_system s0" "sys_steps dir s0 evs (h, objs)" "q \<notin> owners objs" "nul_free dir" "list_all same_path events"
    and run: "run_gui win strerror demo_value events dir open_on_start demo h = (r, h')"
  shows "\<exists>evs'. list_all (event_by q) evs' \<and> sys_steps dir s0 (evs @ evs') (host_after q objs r h', objs)"
proof -
  have objs: "objs(q := closed) = objs" by (rule objs_closed[OF assms(3)])
  show ?thesis
  proof (cases "win = window_open \<and> (\<exists>g. make_GuiState dir = Inr g)")
    case False
    have "make_GuiState dir \<noteq> Inl Crashed" by (auto simp: make_GuiState_def set_text_def ebind_def split: if_splits)
    then have "h' = h" "r \<noteq> Inl Crashed"
      using run False by (auto simp: run_gui_def split: window_result.splits sum.splits)
    then show ?thesis using assms(2) by (intro exI[of _ "[]"]) (simp add: host_after_def)
  next
    case True
    then obtain g where g: "make_GuiState dir = Inr g" and w: "win = window_open" by blast
    note ip = initial_path[OF g assms(4)]
    let ?m = "act_bind (start_session strerror demo_value open_on_start demo) (\<lambda>_. gui_frames strerror demo_value events)"
    have sim: "simulates dir q objs ?m" by (intro sim_bind sim_start sim_frames assms(5))
    have now: "gui_now q objs (g, h) = (h, objs)" using ip objs by (simp add: gui_obj_def)
    obtain S where S: "sys_denotes (gui_now q objs (g, h)) S" unfolding now by (rule system_store[OF assms(1,2)])
    obtain r1 s1 where 1: "?m (g, h) = (r1, s1)" by (rule prod.exhaust)
    obtain evs1 where e: "list_all (event_by q) evs1" "sys_steps dir (gui_now q objs (g, h)) evs1 (gui_system q objs r1 s1)"
      using simulatesD[OF sim S _ 1] ip by auto
    have out: "r = map_sum id (\<lambda>_. 0) r1" "h' = (if r1 = Inl Crashed then snd s1 else snd (gui_close_database s1))"
      using run g w 1 by (auto simp: run_gui_def split: sum.splits if_splits)
    show ?thesis
    proof (cases "r1 = Inl Crashed")
      case True
      then have "gui_system q objs r1 s1 = (host_after q objs r h', objs)"
        using out objs by (simp add: gui_system_def host_after_def)
      then show ?thesis using sys_steps_append[OF assms(2)] e now by auto
    next
      case False
      then have "r \<noteq> Inl Crashed" using out(1) by (cases r1) auto
      obtain evs2 where e2: "list_all (event_by q) evs2" "sys_steps dir (gui_now q objs s1) evs2 (gui_now q objs (gui_close_database s1))"
        using close_steps by blast
      have "gui_now q objs (gui_close_database s1) = (h', objs)"
        using out(2) False objs by (simp add: gui_close_database_def gui_obj_def)
      then have "sys_steps dir (h, objs) (evs1 @ evs2) (h', objs)"
        using sys_steps_append e(2) e2(2) now False by (auto simp: gui_system_def)
      then show ?thesis
        using sys_steps_append[OF assms(2)] e(1) e2(1) \<open>r \<noteq> Inl Crashed\<close>
        by (intro exI[of _ "evs1 @ evs2"]) (simp add: host_after_def)
    qed
  qed
qed

text \<open>
  Claim C20.  A session of the graphical client refines the system: in any history of processes, a run
  of the program on the path of its arguments, whatever the user does short of editing the path, contributes steps of one
  process that ends with the database closed, however the session ends: the window is closed, an
  exception escapes, with exit status 1, or the process dies.  So ownership, refinement and durability hold of sessions too.
\<close>

theorem gui_session_refines:
  assumes "new_system s0" "sys_steps dir s0 evs (p_host p, objs)" "q \<notin> owners objs" "nul_free dir" "list_all same_path events"
    and path: "view_arguments (tl arguments) ''chronostore-gui-db'' False False = Inr (dir, provided, demo)"
    and run: "view_main win strerror demo_value events arguments p = (r, p')"
  shows "\<exists>evs'. list_all (event_by q) evs' \<and> sys_steps dir s0 (evs @ evs') (host_after q objs r (p_host p'), objs) \<and>
    (r = Inr 0 \<or> r = Inr 1 \<or> r = Inl Crashed)"
proof -
  obtain r1 h1 where 1: "run_gui win strerror demo_value events dir (provided \<or> demo) demo (p_host p) = (r1, h1)" by (rule prod.exhaust)
  have zero: "r1 = Inr n \<Longrightarrow> n = 0" for n
    using 1 by (auto simp: run_gui_def split: window_result.splits sum.splits prod.splits)
  have "p_host p' = h1" "r = (case r1 of Inl e \<Rightarrow> if e = Crashed then Inl Crashed else Inr 1 | Inr n \<Rightarrow> Inr n)"
    using run path 1 by (auto simp: view_main_def act_bind_def write_err_def split: sum.splits if_splits)
  then have "host_after q objs r (p_host p') = host_after q objs r1 h1" "r = Inr 0 \<or> r = Inr 1 \<or> r = Inl Crashed"
    using zero by (auto simp: host_after_def split: sum.splits)
  then show ?thesis using run_gui_history[OF assms(1-5) 1] by auto
qed

theorem gui_session_refines_witness:
  "\<exists>r p' evs'. view_main window_open (\<lambda>_. ''error'') (\<lambda>_. 0) [ClickPut, ClickRange, ClickFlush] [''chronoview'', ''db''] demo_process = (r, p') \<and>
     list_all (event_by 0) evs' \<and> sys_steps ''db'' demo_system evs' (host_after 0 (\<lambda>_. closed) r (p_host p'), \<lambda>_. closed)"
proof -
  obtain r p' where r: "view_main window_open (\<lambda>_. ''error'') (\<lambda>_. 0) [ClickPut, ClickRange, ClickFlush] [''chronoview'', ''db''] demo_process = (r, p')"
    by (rule prod.exhaust)
  have n: "sys_steps ''db'' demo_system [] (p_host demo_process, \<lambda>_. closed)" "(0 :: nat) \<notin> owners (\<lambda>_. closed)"
    using sys_steps_Nil[of "''db''" demo_system] by (simp_all add: demo_system_def demo_process_def owners_def)
  have p: "nul_free ''db''" "list_all same_path [ClickPut, ClickRange, ClickFlush]"
    "view_arguments (tl [''chronoview'', ''db'']) ''chronostore-gui-db'' False False = Inr (''db'', True, False)"
    by (simp_all add: nul_free_def)
  show ?thesis using gui_session_refines[OF demo_system_new n p r] r by auto
qed

end
