(* ===== verification/ViewDisplay.thy ===== *)
theory ViewDisplay
  imports ViewSystem
begin

text \<open>
  What the graphical client draws from its state: the status line, the statistics, the list of
  series and the results of a query, as the texts and numbers that it passes to the toolkit.
  What the toolkit decides is a parameter: which tables, lists and plots are on the screen, and
  which rows of a table the clipper asks for.
\<close>

section \<open>Drawing\<close>

datatype drawn =
    DrawSeparator string
  | DrawText string
  | DrawDisabled string
  | DrawColored bool string
  | DrawSelectable string bool
  | DrawTooltip string
  | DrawTable "string list" "(string \<times> string) list"
  | DrawPlot "double list" "double list"

record toolkit =
  begin_table :: bool
  begin_list_box :: bool
  begin_plot :: bool
  hovered_item :: "nat option"
  clipper_steps :: "nat \<Rightarrow> (nat \<times> nat) list"

text \<open>The colour is the one for errors or the other one.\<close>

definition draw_status :: "GuiState \<Rightarrow> drawn list" where
  "draw_status g = [DrawColored (gs_status_is_error g) (c_str (gs_status g))]"

definition draw_stats :: "toolkit \<Rightarrow> DatabaseStats \<Rightarrow> drawn list" where
  "draw_stats tk st =
     (if begin_table tk
      then [DrawTable [] [(''Samples'', decimal (ds_sample_count st)),
                          (''In MemTable'', decimal (ds_memtable_sample_count st)),
                          (''Segments'', decimal (ds_segment_count st)),
                          (''WAL bytes'', decimal (unat (ds_wal_size_bytes st)))]]
      else [])"

definition draw_series_list :: "toolkit \<Rightarrow> GuiState \<Rightarrow> drawn list" where
  "draw_series_list tk g =
     (if begin_list_box tk
      then concat (map (\<lambda>(index, k).
               DrawSelectable (c_str (series_label k)) (gs_selected_series g = int_of_size index) #
               (if hovered_item tk = Some index then [DrawTooltip (c_str (series_label k))] else []))
             (enumerate 0 (gs_known_series g))) @
           (if gs_known_series g = [] then [DrawDisabled ''No series''] else [])
      else [])"

definition int_max :: nat where "int_max = 2 ^ 31 - 1"

definition sample_row :: "Sample \<Rightarrow> string \<times> string" where
  "sample_row x = (print_int64 (nanoseconds_since_epoch (timestamp x)), print_double (sample_value x))"

text \<open>The rows that the clipper asks for, in its steps from a first row to one before the last.\<close>

definition clipped_rows :: "toolkit \<Rightarrow> nat \<Rightarrow> nat list" where
  "clipped_rows tk n = concat (map (\<lambda>(a, b). [a..<b]) (clipper_steps tk (min n int_max)))"

definition draw_sample_table :: "toolkit \<Rightarrow> Sample list \<Rightarrow> drawn list" where
  "draw_sample_table tk samples =
     (if \<not> begin_table tk then []
      else [DrawTable [''Timestamp (ns)'', ''Value''] (map (\<lambda>row. sample_row (samples ! row)) (clipped_rows tk (length samples)))])"

definition draw_results :: "toolkit \<Rightarrow> GuiState \<Rightarrow> drawn list" where
  "draw_results tk g =
     DrawSeparator ''Results'' #
     (if gs_query_kind g = query_none then [DrawDisabled ''No query run'']
      else if gs_query_kind g = query_point \<or> gs_query_kind g = query_latest
      then (case gs_single_result g of
              None \<Rightarrow> [DrawDisabled ''No sample found'']
            | Some x \<Rightarrow> draw_sample_table tk [x])
      else DrawText (decimal (length (gs_range_result g)) @ '' samples'') #
        (if gs_range_result g = [] then [DrawDisabled ''No samples in range'']
         else (if begin_plot tk
               then let plot_count = min (length (gs_plot_x g)) int_max
                    in [DrawPlot (take plot_count (gs_plot_x g)) (take plot_count (gs_plot_y g))]
               else []) @
              draw_sample_table tk (gs_range_result g)))"

section \<open>Reading the screen\<close>

text \<open>The clipper asks for rows that exist.\<close>

definition clipper_ok :: "toolkit \<Rightarrow> bool" where
  "clipper_ok tk \<longleftrightarrow> (\<forall>n a b. (a, b) \<in> set (clipper_steps tk n) \<longrightarrow> b \<le> n)"

fun table_rows :: "drawn list \<Rightarrow> (string \<times> string) list" where
  "table_rows [] = []"
| "table_rows (DrawTable headers rows # ds) = rows @ table_rows ds"
| "table_rows (_ # ds) = table_rows ds"

text \<open>A row read as two numbers.\<close>

definition read_row :: "string \<times> string \<Rightarrow> Sample option" where
  "read_row row =
     (case (from_chars_int64 (fst row), from_chars_double (snd row)) of
        (Some t, Some v) \<Rightarrow> Some (Sample (Timestamp t) v)
      | _ \<Rightarrow> None)"

text \<open>
  The screen after a query that found \<open>xs\<close>: no error, and the rows in the table, read as
  numbers, are the samples with the indices that the clipper asks for.
\<close>

definition shows_samples :: "toolkit \<Rightarrow> Sample list \<Rightarrow> GuiState \<Rightarrow> bool" where
  "shows_samples tk xs g \<longleftrightarrow>
     \<not> gs_status_is_error g \<and>
     map read_row (table_rows (draw_results tk g)) =
       (if begin_table tk then map (\<lambda>i. Some (xs ! i)) (clipped_rows tk (length xs)) else []) \<and>
     (\<forall>i\<in>set (clipped_rows tk (length xs)). i < length xs)"

text \<open>The screen after an operation that threw: the message, and the results as before.\<close>

definition shows_error :: "toolkit \<Rightarrow> GuiState \<Rightarrow> string \<Rightarrow> GuiState \<Rightarrow> bool" where
  "shows_error tk g message g' \<longleftrightarrow>
     draw_status g' = [DrawColored True (c_str message)] \<and> draw_results tk g' = draw_results tk g"

lemma read_sample_row: "sample_wf x \<Longrightarrow> read_row (sample_row x) = Some x"
  using printed_double_reads_back[of "sample_value x"] printed_int64_reads_back[of "nanoseconds_since_epoch (timestamp x)"]
  by (cases x) (simp add: read_row_def sample_row_def sample_wf_def)

lemma clipped_in_range: "clipper_ok tk \<Longrightarrow> i \<in> set (clipped_rows tk n) \<Longrightarrow> i < n"
  by (force simp: clipper_ok_def clipped_rows_def)

lemma read_sample_table:
  assumes "clipper_ok tk" "list_all sample_wf xs"
  shows "map read_row (table_rows (draw_sample_table tk xs)) =
    (if begin_table tk then map (\<lambda>i. Some (xs ! i)) (clipped_rows tk (length xs)) else [])"
  using clipped_in_range[OF assms(1)] assms(2)
  by (auto simp: draw_sample_table_def list_all_length intro!: read_sample_row)

lemma clipped_none: "clipper_ok tk \<Longrightarrow> clipped_rows tk 0 = []"
  using clipped_in_range[of tk _ 0] by (cases "clipped_rows tk 0") auto

lemma table_rows_append [simp]: "table_rows (a @ b) = table_rows a @ table_rows b"
  by (induction a rule: table_rows.induct) simp_all

lemma single_shown:
  assumes "clipper_ok tk" "list_all sample_wf (case x of None \<Rightarrow> [] | Some y \<Rightarrow> [y])"
    and "gs_query_kind g = query_point \<or> gs_query_kind g = query_latest" "gs_single_result g = x" "\<not> gs_status_is_error g"
  shows "shows_samples tk (case x of None \<Rightarrow> [] | Some y \<Rightarrow> [y]) g"
proof (cases x)
  case None
  then show ?thesis using assms by (auto simp: shows_samples_def draw_results_def clipped_none)
next
  case (Some y)
  then show ?thesis
    using assms read_sample_table[OF assms(1), of "[y]"] clipped_in_range[OF assms(1), of _ 1]
    by (auto simp: shows_samples_def draw_results_def)
qed

lemma range_shown:
  assumes "clipper_ok tk" "list_all sample_wf xs" "gs_query_kind g = query_range" "gs_range_result g = xs" "\<not> gs_status_is_error g"
  shows "shows_samples tk xs g"
  using assms read_sample_table[OF assms(1,2)] clipped_in_range[OF assms(1)]
  by (auto simp: shows_samples_def draw_results_def clipped_none Let_def)

section \<open>Queries\<close>

lemma bind_unit: "act_bind m (\<lambda>_. act_return ()) = (m :: ('s, unit) act)" "act_bind m (\<lambda>_. Pair (Inr ())) = m"
  by (auto simp: act_bind_def fun_eq_iff split: prod.splits sum.splits)

lemma handle_query:
  assumes "gs_database g = Some D"
  shows "gui_handle strerror demo_value ClickGet (g, h) = perform strerror ''Point query complete'' gui_query_point (g, h)"
    "gui_handle strerror demo_value ClickLatest (g, h) = perform strerror ''Latest query complete'' gui_query_latest (g, h)"
    "gui_handle strerror demo_value ClickRange (g, h) = perform strerror ''Range query complete'' gui_query_range (g, h)"
  using assms by (simp_all add: gui_handle_def act_bind_def[of "sidebar_event _ _"] panel_event_def connected_def bind_unit)

lemma gui_query_answer: "gs_database g = Some D \<Longrightarrow> gui_query q (g, h) = (q (D, h), (g, h))"
  by (simp add: gui_query_def gui_call_def)

lemma perform_error:
  assumes "m (g, h) = (Inl e, (g, h))" "e \<noteq> Crashed"
  shows "\<exists>g'. perform strerror message m (g, h) = (Inr (), (g', h)) \<and> shows_error tk g (what strerror e) g'"
  using assms by (simp add: perform_def shows_error_def draw_status_def draw_results_def)

lemma perform_shown:
  assumes "m (g, h) = (Inr (), (g1, h))" "shows_samples tk xs (g1\<lparr>gs_status := message, gs_status_is_error := False\<rparr>)"
  shows "\<exists>g'. perform strerror message m (g, h) = (Inr (), (g', h)) \<and> shows_samples tk xs g'"
  using assms by (simp add: perform_def)

lemma series_error:
  assumes "gs_database g = Some D" "current_series g = Inl e"
  shows "gui_query_point (g, h) = (Inl e, (g, h))" "gui_query_latest (g, h) = (Inl e, (g, h))" "gui_query_range (g, h) = (Inl e, (g, h))"
  using assms by (simp_all add: gui_query_point_def gui_query_latest_def gui_query_range_def act_bind_def require_database_def get_series_def)

text \<open>A query of a series.\<close>

lemma query_runs:
  assumes "gs_database g = Some D" "current_series g = Inr k"
  shows "gui_query_point (g, h) = (case database_get (D, h) k (Timestamp (gs_point_timestamp g)) of
      Inl e \<Rightarrow> (Inl e, (g, h)) | Inr x \<Rightarrow> (Inr (), (show_single query_point x g, h)))"
    "gui_query_latest (g, h) = (case database_latest (D, h) k of
      Inl e \<Rightarrow> (Inl e, (g, h)) | Inr x \<Rightarrow> (Inr (), (show_single query_latest x g, h)))"
    "gui_query_range (g, h) = (case database_range (D, h) k (Timestamp (gs_range_start g)) (Timestamp (gs_range_end g)) of
      Inl e \<Rightarrow> (Inl e, (g, h))
    | Inr xs \<Rightarrow> (Inr (), (rebuild_plot (g\<lparr>gs_range_result := xs, gs_single_result := None, gs_query_kind := query_range\<rparr>), h)))"
  using assms
  by (simp_all add: gui_query_point_def gui_query_latest_def gui_query_range_def act_bind_def require_database_def get_series_def
      gui_query_answer gui_modify_def split: sum.splits)

lemma owned_finite:
  assumes "sys_denotes (h, objs) S" "db_impl (objs q) = Some I" "\<not> se_failed (db_engine I)"
  shows "store_finite_values S"
proof -
  obtain segs recs where "engine_inv wal_filename (db_engine I, h_fs h) segs recs" "db_store segs recs = S"
    using owned(3)[OF assms(1,2)] assms(3) by auto
  then show ?thesis using engine_inv_ready engine_store_finite by metis
qed

lemma rebuild_plot_simps [simp]:
  "gs_query_kind (rebuild_plot g) = gs_query_kind g" "gs_range_result (rebuild_plot g) = gs_range_result g"
  by (simp_all add: rebuild_plot_def split: list.splits)

lemma answers_wf:
  assumes "store_finite_values S"
  shows "is_range S k a b xs \<Longrightarrow> list_all sample_wf xs" "is_latest S k x \<Longrightarrow> list_all sample_wf (case x of None \<Rightarrow> [] | Some y \<Rightarrow> [y])"
    "list_all sample_wf (case map_option (Sample t) (S k t) of None \<Rightarrow> [] | Some y \<Rightarrow> [y])"
  using assms by (auto simp: is_range_def is_latest_def list_all_iff sample_wf_def store_finite_values_def split: option.splits)

lemma point_query_shown:
  assumes "gs_database g = Some D" "current_series g = Inr k" "clipper_ok tk"
    and "database_get (D, h) k (Timestamp (gs_point_timestamp g)) = Inr x" "list_all sample_wf (case x of None \<Rightarrow> [] | Some y \<Rightarrow> [y])"
  shows "\<exists>g'. perform strerror message gui_query_point (g, h) = (Inr (), (g', h)) \<and>
    shows_samples tk (case x of None \<Rightarrow> [] | Some y \<Rightarrow> [y]) g'"
proof (rule perform_shown)
  show "gui_query_point (g, h) = (Inr (), (show_single query_point x g, h))" using query_runs(1)[OF assms(1,2), of h] assms(4) by simp
  show "shows_samples tk (case x of None \<Rightarrow> [] | Some y \<Rightarrow> [y])
      ((show_single query_point x g)\<lparr>gs_status := message, gs_status_is_error := False\<rparr>)"
    by (rule single_shown[OF assms(3,5)]) (simp_all add: show_single_def)
qed

lemma latest_query_shown:
  assumes "gs_database g = Some D" "current_series g = Inr k" "clipper_ok tk"
    and "database_latest (D, h) k = Inr x" "list_all sample_wf (case x of None \<Rightarrow> [] | Some y \<Rightarrow> [y])"
  shows "\<exists>g'. perform strerror message gui_query_latest (g, h) = (Inr (), (g', h)) \<and>
    shows_samples tk (case x of None \<Rightarrow> [] | Some y \<Rightarrow> [y]) g'"
proof (rule perform_shown)
  show "gui_query_latest (g, h) = (Inr (), (show_single query_latest x g, h))" using query_runs(2)[OF assms(1,2), of h] assms(4) by simp
  show "shows_samples tk (case x of None \<Rightarrow> [] | Some y \<Rightarrow> [y])
      ((show_single query_latest x g)\<lparr>gs_status := message, gs_status_is_error := False\<rparr>)"
    by (rule single_shown[OF assms(3,5)]) (simp_all add: show_single_def)
qed

lemma range_query_shown:
  assumes "gs_database g = Some D" "current_series g = Inr k" "clipper_ok tk"
    and "database_range (D, h) k (Timestamp (gs_range_start g)) (Timestamp (gs_range_end g)) = Inr xs" "list_all sample_wf xs"
  shows "\<exists>g'. perform strerror message gui_query_range (g, h) = (Inr (), (g', h)) \<and> shows_samples tk xs g'"
proof (rule perform_shown)
  let ?g = "rebuild_plot (g\<lparr>gs_range_result := xs, gs_single_result := None, gs_query_kind := query_range\<rparr>)"
  show "gui_query_range (g, h) = (Inr (), (?g, h))" using query_runs(3)[OF assms(1,2), of h] assms(4) by simp
  show "shows_samples tk xs (?g\<lparr>gs_status := message, gs_status_is_error := False\<rparr>)"
    by (rule range_shown[OF assms(3,5)]) simp_all
qed

text \<open>Refreshing shows the statistics and the series of the store.\<close>

lemma displayed_metadata:
  assumes den: "sys_denotes (h, objs) S" and own: "db_impl (objs q) = Some I" "\<not> se_failed (db_engine I)"
    and g: "gs_database g = Some (objs q)" and tk: "begin_table tk"
  shows "\<exists>g'. gui_handle strerror demo_value ClickRefresh (g, h) = (Inr (), (g', h)) \<and>
    hd (table_rows (draw_stats tk (gs_stats g'))) = (''Samples'', decimal (card (store_keys S) mod 2 ^ 64)) \<and>
    sorted_wrt (<) (gs_known_series g') \<and> set (gs_known_series g') = {k. \<exists>t. S k t \<noteq> None}"
proof -
  note ans = database_answers[OF den own]
  obtain st where st: "database_stats (objs q, h) = Inr st" "ds_sample_count st = card (store_keys S) mod 2 ^ 64" using ans(6) by blast
  obtain ks where ks: "database_series (objs q, h) = Inr ks" "sorted_wrt (<) ks" "set ks = {k. \<exists>t. S k t \<noteq> None}" using ans(4) by blast
  have "gui_handle strerror demo_value ClickRefresh (g, h) = perform strerror ''Metadata refreshed'' refresh_metadata (g, h)"
    using g by (cases "perform strerror ''Metadata refreshed'' refresh_metadata (g, h)"; cases "fst (perform strerror ''Metadata refreshed'' refresh_metadata (g, h))")
      (auto simp: gui_handle_def panel_event_def connected_def act_bind_def)
  then show ?thesis
    using st ks g tk by (simp add: perform_def refresh_metadata_def act_bind_def require_database_def gui_query_answer gui_modify_def draw_stats_def)
qed

text \<open>
  Claim C21.  The screen shows the database: in any history of the system, a click on a query of the
  client that owns the database leaves its files alone, and the result table then has, for
  exactly the rows that the toolkit asks for, the samples with which the store of the history
  answers the query for the series in the text fields; the texts denote these samples bit for
  bit.  When the fields do not spell a series or the range is reversed, the status line says so
  and the results stay as they were.
\<close>

theorem displayed_results_correct:
  assumes sys: "new_system s0" "sys_steps dir s0 evs (h, objs)" and own: "db_impl (objs q) = Some I" "\<not> se_failed (db_engine I)"
    and g: "gs_database g = Some (objs q)" and tk: "clipper_ok tk"
  shows "\<exists>S\<in>db_spec_run evs (\<lambda>_. Map.empty). \<exists>g1 g2 g3.
    gui_handle strerror demo_value ClickGet (g, h) = (Inr (), (g1, h)) \<and>
    gui_handle strerror demo_value ClickLatest (g, h) = (Inr (), (g2, h)) \<and>
    gui_handle strerror demo_value ClickRange (g, h) = (Inr (), (g3, h)) \<and>
    (case current_series g of
       Inl e \<Rightarrow> shows_error tk g (what strerror e) g1 \<and> shows_error tk g (what strerror e) g2 \<and> shows_error tk g (what strerror e) g3
     | Inr k \<Rightarrow>
         let t = Timestamp (gs_point_timestamp g); a = Timestamp (gs_range_start g); b = Timestamp (gs_range_end g)
         in shows_samples tk (case S k t of None \<Rightarrow> [] | Some v \<Rightarrow> [Sample t v]) g1 \<and>
            (\<exists>x. is_latest S k x \<and> shows_samples tk (case x of None \<Rightarrow> [] | Some y \<Rightarrow> [y]) g2) \<and>
            (if a \<le> b then \<exists>xs. is_range S k a b xs \<and> shows_samples tk xs g3
             else shows_error tk g ''range end must not precede range start'' g3))"
proof -
  obtain S where S: "S \<in> db_spec_run evs (\<lambda>_. Map.empty)" and den: "sys_denotes (h, objs) S" by (rule system_store[OF sys])
  note fin = answers_wf[OF owned_finite[OF den own]] and ans = database_answers[OF den own] and hq = handle_query[OF g]
  show ?thesis
  proof (cases "current_series g")
    case (Inl e)
    have e: "e \<noteq> Crashed" using current_series_wf(2)[of g] Inl by auto
    note err = perform_error[of gui_query_point g h, OF series_error(1)[OF g Inl] e] perform_error[of gui_query_latest g h, OF series_error(2)[OF g Inl] e]
      perform_error[of gui_query_range g h, OF series_error(3)[OF g Inl] e]
    show ?thesis
      using err(1)[of strerror "''Point query complete''" tk] err(2)[of strerror "''Latest query complete''" tk]
        err(3)[of strerror "''Range query complete''" tk] S unfolding hq Inl by (auto simp del: what.simps)
  next
    case (Inr k)
    let ?t = "Timestamp (gs_point_timestamp g)" and ?a = "Timestamp (gs_range_start g)" and ?b = "Timestamp (gs_range_end g)"
    obtain g1 where 1: "perform strerror ''Point query complete'' gui_query_point (g, h) = (Inr (), (g1, h))"
      "shows_samples tk (case map_option (Sample ?t) (S k ?t) of None \<Rightarrow> [] | Some y \<Rightarrow> [y]) g1"
      using point_query_shown[OF g Inr tk ans(1) fin(3)] by blast
    obtain x where x: "database_latest (objs q, h) k = Inr x" "is_latest S k x" using ans(2) by blast
    obtain g2 where 2: "perform strerror ''Latest query complete'' gui_query_latest (g, h) = (Inr (), (g2, h))"
      "shows_samples tk (case x of None \<Rightarrow> [] | Some y \<Rightarrow> [y]) g2"
      using latest_query_shown[OF g Inr tk x(1) fin(2)[OF x(2)]] by blast
    have shown1: "shows_samples tk (case S k ?t of None \<Rightarrow> [] | Some v \<Rightarrow> [Sample ?t v]) g1" using 1(2) by (cases "S k ?t") simp_all
    have "\<exists>g3. perform strerror ''Range query complete'' gui_query_range (g, h) = (Inr (), (g3, h)) \<and>
      (if ?a \<le> ?b then \<exists>xs. is_range S k ?a ?b xs \<and> shows_samples tk xs g3
       else shows_error tk g ''range end must not precede range start'' g3)"
    proof (cases "?a \<le> ?b")
      case True
      then obtain xs where "database_range (objs q, h) k ?a ?b = Inr xs" "is_range S k ?a ?b xs" using ans(3)[of ?a ?b k] by auto
      then show ?thesis using range_query_shown[OF g Inr tk _ fin(1)] True by fastforce
    next
      case False
      then have "gui_query_range (g, h) = (Inl (InvalidArgument ''range end must not precede range start''), (g, h))"
        using query_runs(3)[OF g Inr, of h] ans(3)[of ?a ?b k] by simp
      from perform_error[of gui_query_range g h, OF this, of strerror _ tk] False show ?thesis by simp
    qed
    then show ?thesis
      using 1(1) shown1 2 x(2) S unfolding hq Inr Let_def sum.case by blast
  qed
qed

definition full_screen :: toolkit where
  "full_screen = \<lparr>begin_table = True, begin_list_box = True, begin_plot = True, hovered_item = None, clipper_steps = (\<lambda>n. [(0, n)])\<rparr>"

definition demo_gui :: "Database \<Rightarrow> GuiState" where
  "demo_gui D = (gui_with [])\<lparr>gs_database := Some D, gs_measurement := ''cpu'' @ [CHR 0x00], gs_tags := [CHR 0x00],
     gs_point_timestamp := 5\<rparr>"

lemma demo_gui_series: "current_series (demo_gui D) = Inr (wal_series demo_record)"
  by (simp add: demo_gui_def current_series_def c_str_def view_parse_tags_def trim_def make_SeriesKey_def demo_record_def)

theorem displayed_results_correct_witness:
  "\<exists>D h g'. gui_handle (\<lambda>_. ''error'') (\<lambda>_. 0) ClickGet (demo_gui D, h) = (Inr (), (g', h)) \<and>
     map read_row (table_rows (draw_results full_screen g')) = [Some (wal_sample demo_record)]"
proof -
  let ?evs = "[DbOpened 0, DbEnvironment, DbReturned 0 (DbPut (wal_series demo_record) (wal_sample demo_record))]"
  obtain h J where d: "sys_steps ''db'' demo_system ?evs (h, (\<lambda>_. closed)(0 := \<lparr>db_impl = Some J\<rparr>))" "\<not> se_failed (db_engine J)"
    using demo_put_history by blast
  let ?D = "\<lparr>db_impl = Some J\<rparr>"
  have h: "db_impl (((\<lambda>_. closed)(0 := ?D)) 0) = Some J" "gs_database (demo_gui ?D) = Some (((\<lambda>_. closed)(0 := ?D)) 0)" "clipper_ok full_screen"
    by (simp_all add: demo_gui_def clipper_ok_def full_screen_def)
  have t: "gs_point_timestamp (demo_gui ?D) = 5" by (simp add: demo_gui_def)
  from displayed_results_correct[OF demo_system_new d(1) h(1) d(2) h(2,3), of "\<lambda>_. ''error''" "\<lambda>_. 0"]
  obtain S g' where S: "S \<in> db_spec_run ?evs (\<lambda>_. Map.empty)"
    and g': "gui_handle (\<lambda>_. ''error'') (\<lambda>_. 0) ClickGet (demo_gui ?D, h) = (Inr (), (g', h))"
    "shows_samples full_screen (case S (wal_series demo_record) (Timestamp 5) of None \<Rightarrow> [] | Some v \<Rightarrow> [Sample (Timestamp 5) v]) g'"
    unfolding demo_gui_series t sum.case Let_def by blast
  have "S (wal_series demo_record) (Timestamp 5) = Some 0" using S by (simp add: demo_record_def store_put_def)
  then have "map read_row (table_rows (draw_results full_screen g')) = [Some (wal_sample demo_record)]"
    using g'(2) by (simp add: shows_samples_def clipped_rows_def full_screen_def int_max_def demo_record_def)
  then show ?thesis using g'(1) by (intro exI[of _ ?D] exI[of _ h] exI[of _ g']) simp
qed

end
