(* ===== verification/Benchmark.thy ===== *)
theory Benchmark
  imports Cli
begin

text \<open>
  The benchmark program \<^verbatim>\<open>tools/chronostore_benchmark/main.cpp\<close>: it creates a directory that
  must not exist, writes samples to a database in it, queries them, prints a report and
  removes the directory.  What the program asks the system for beside files is a
  \<open>bench_env\<close>: the directory for temporary files, the readings of the steady clock in
  nanoseconds, and the texts of error codes.
\<close>

record bench_env =
  temp_directory_path :: "string result"
  token_reading :: "64 word"
  write_start :: "64 word"
  write_end :: "64 word"
  query_start :: "64 word"
  query_end :: "64 word"
  error_text :: "exn \<Rightarrow> string"

section \<open>Arithmetic on doubles\<close>

text \<open>The magnitude of a finite double as a fraction.\<close>

definition double_fraction :: "double \<Rightarrow> nat \<times> nat" where
  "double_fraction v =
     (case double_parts (double_magnitude v) of (M, E) \<Rightarrow> (M * 2 ^ nat E, 2 ^ nat (- E)))"

text \<open>\<^verbatim>\<open>v * 0.5\<close> for a finite \<open>v\<close>.\<close>

definition times_half :: "double \<Rightarrow> double" where
  "times_half v = (case double_fraction v of (n, d) \<Rightarrow> double_of (double_sign v) (rounded_magnitude n (2 * d)))"

text \<open>
  \<^verbatim>\<open>v / w\<close> for a finite \<open>v\<close> and a finite \<open>w\<close> that are not both zero; the program divides
  the counts, which are at least one, and by a constant.
\<close>

definition double_div :: "double \<Rightarrow> double \<Rightarrow> double" where
  "double_div v w =
     (case (double_fraction v, double_fraction w) of ((n, d), (n', d')) \<Rightarrow>
        double_of (double_sign v \<noteq> double_sign w)
          (if n' = 0 then infinity_bits else rounded_magnitude (n * d') (d * n')))"

text \<open>The conversion of a duration with a period of a nanosecond.\<close>

definition seconds :: "64 word \<Rightarrow> double" where
  "seconds duration = double_div (double_of_int (sint duration)) (double_of_int 1000000000)"

text \<open>Output with \<^verbatim>\<open>std::fixed\<close> and \<^verbatim>\<open>std::setprecision(3)\<close>.\<close>

definition print_fixed :: "double \<Rightarrow> string" where
  "print_fixed v =
     (case double_fraction v of (n, d) \<Rightarrow>
        (if double_sign v then ''-'' else '''') @
        (if double_magnitude v > infinity_bits then ''nan''
         else if double_magnitude v = infinity_bits then ''inf''
         else let m = round_scaled n d 10 (- 3); ds = decimal (m mod 1000)
              in decimal (m div 1000) @ ''.'' @ replicate (3 - length ds) CHR ''0'' @ ds))"

section \<open>Arguments and the scratch directory\<close>

text \<open>\<^verbatim>\<open>std::from_chars\<close> of a \<^verbatim>\<open>std::size_t\<close> accepts no sign.\<close>

definition parse_count :: "string \<Rightarrow> nat result" where
  "parse_count text =
     (if \<not> all_digits text \<or> decimal_value text \<ge> 2 ^ 64 \<or> decimal_value text = 0 \<or> decimal_value text > 2 ^ 63 - 1
      then Inl (InvalidArgument ''sample count must be a positive integer'')
      else Inr (decimal_value text))"

definition default_database_path :: "bench_env \<Rightarrow> string result" where
  "default_database_path env =
     ebind (temp_directory_path env) (\<lambda>t.
       Inr (t @ (if t \<noteq> [] \<and> last t = CHR ''/'' then '''' else ''/'') @
            ''chronostore-benchmark-'' @ print_int64 (token_reading env)))"

text \<open>
  The constructor of \<^verbatim>\<open>ScratchDatabaseDirectory\<close>.  \<^verbatim>\<open>std::filesystem::create_directory\<close> reports
  that it created nothing, and no error, when a directory is there.
\<close>

definition create_scratch :: "string \<Rightarrow> (host, unit) act" where
  "create_scratch path h =
     (if path = [] \<or> h_entry h = NotDirectory
      then (Inl (SystemError ''failed to create benchmark database directory''), h)
      else if h_entry h = Directory
      then (Inl (InvalidArgument (''benchmark database path already exists: '' @ path)), h)
      else (case next_outcome (h_fs h) of
              (Succeeds, f) \<Rightarrow> (Inr (), h\<lparr>h_fs := f, h_entry := Directory\<rparr>)
            | (Dies n, f) \<Rightarrow> (Inl Crashed, h\<lparr>h_fs := f, h_entry := if n = 0 then Missing else Directory\<rparr>)
            | (_, f) \<Rightarrow> (Inl (SystemError ''failed to create benchmark database directory''), h\<lparr>h_fs := f\<rparr>)))"

text \<open>
  \<^verbatim>\<open>std::filesystem::remove_all\<close> with an error code that the destructor ignores: it stops at
  the first error, of the iteration or of a removal, and removes the directory itself last.
\<close>

fun remove_entries :: "nat option \<Rightarrow> string list \<Rightarrow> (fs, bool) act" where
  "remove_entries fault [] f = (Inr (fault \<noteq> Some 0), f)"
| "remove_entries fault (name # rest) f =
     (if fault = Some 0 then (Inr False, f)
      else case sys_unlink name f of
             (Ret _, f) \<Rightarrow> remove_entries (map_option (\<lambda>n. n - 1) fault) rest f
           | (Died, f) \<Rightarrow> (Inl Crashed, f)
           | (_, f) \<Rightarrow> (Inr False, f))"

definition remove_directory :: "(host, unit) act" where
  "remove_directory h =
     (case next_outcome (h_fs h) of
        (Succeeds, f) \<Rightarrow> (Inr (), h\<lparr>h_fs := f, h_entry := Missing\<rparr>)
      | (Dies n, f) \<Rightarrow> (Inl Crashed, h\<lparr>h_fs := f, h_entry := if n = 0 then h_entry h else Missing\<rparr>)
      | (_, f) \<Rightarrow> (Inr (), h\<lparr>h_fs := f\<rparr>))"

definition remove_scratch :: "(host, unit) act" where
  "remove_scratch h =
     act_bind (on_dir (remove_entries (fs_dir_fault (h_fs h)) (map fst (fs_files (h_fs h))))) (\<lambda>emptied.
       if emptied then remove_directory else act_return ()) h"

text \<open>
  A block with a local object: the destructor runs when the block returns and when it throws,
  and not when the process dies.
\<close>

definition act_finally :: "('s, 'a) act \<Rightarrow> ('s, unit) act \<Rightarrow> ('s, 'a) act" where
  "act_finally m d s =
     (case m s of (r, s) \<Rightarrow>
        if r = Inl Crashed then (r, s)
        else case d s of (r', s) \<Rightarrow> (if r' = Inl Crashed then Inl Crashed else r, s))"

definition on_host :: "(host, 'a) act \<Rightarrow> (process, 'a) act" where
  "on_host m p = (case m (p_host p) of (r, h) \<Rightarrow> (r, p\<lparr>p_host := h\<rparr>))"

definition with_scratch :: "string \<Rightarrow> (process, 'a) act \<Rightarrow> (process, 'a) act" where
  "with_scratch path body =
     act_bind (on_host (create_scratch path)) (\<lambda>_. act_finally body (on_host remove_scratch))"

section \<open>The workload\<close>

definition bench_options :: DatabaseOptions where
  "bench_options = \<lparr>durability = durability_buffered, memtable_flush_threshold_samples = 8192\<rparr>"

definition bench_series :: "SeriesKey result" where
  "bench_series = ebind (make_Tag ''source'' ''sequential'') (\<lambda>t. make_SeriesKey ''benchmark'' [t])"

definition bench_sample :: "nat \<Rightarrow> Sample result" where
  "bench_sample index = make_Sample (Timestamp (of_nat index)) (times_half (double_of_int (int index)))"

text \<open>The loop over the indices from \<open>index\<close> on, the number of which is the last argument.\<close>

fun write_samples :: "SeriesKey \<Rightarrow> nat \<Rightarrow> nat \<Rightarrow> (Database \<times> process, unit) act" where
  "write_samples series index 0 = act_return ()"
| "write_samples series index (Suc n) =
     act_bind (check (bench_sample index)) (\<lambda>x.
     act_bind (on_database (database_put series x)) (\<lambda>_.
     write_samples series (index + 1) n))"

definition query_count :: nat where
  "query_count = 1000"

text \<open>
  The first index and the width of a query.  With a query below a thousand and a count below
  two to the power 63 no operation of the \<^verbatim>\<open>std::size_t\<close> arithmetic wraps around.
\<close>

definition start_index :: "nat \<Rightarrow> nat \<Rightarrow> nat" where
  "start_index sample_count q = (q * 97) mod sample_count"

definition query_width :: "nat \<Rightarrow> nat \<Rightarrow> nat" where
  "query_width sample_count q =
     (let available = sample_count - start_index sample_count q in if available < 100 then available else 100)"

fun run_queries :: "SeriesKey \<Rightarrow> nat \<Rightarrow> nat \<Rightarrow> nat \<Rightarrow> nat \<Rightarrow> (Database \<times> process, nat) act" where
  "run_queries series sample_count q 0 samples_read = act_return samples_read"
| "run_queries series sample_count q (Suc n) samples_read =
     (let start = start_index sample_count q; width = query_width sample_count q in
      act_bind (query (\<lambda>s. database_range s series (Timestamp (of_nat start)) (Timestamp (of_nat (start + width))))) (\<lambda>xs.
      run_queries series sample_count (q + 1) n (samples_read + length xs)))"

definition report_text :: "bench_env \<Rightarrow> nat \<Rightarrow> nat \<Rightarrow> nat \<Rightarrow> string" where
  "report_text env sample_count samples_read segments =
     (let write_seconds = seconds (write_end env - write_start env);
          query_seconds = seconds (query_end env - query_start env)
      in ''samples='' @ decimal sample_count @ newline @
         ''write_seconds='' @ print_fixed write_seconds @ newline @
         ''write_samples_per_second='' @ print_fixed (double_div (double_of_int (int sample_count)) write_seconds) @ newline @
         ''query_seconds='' @ print_fixed query_seconds @ newline @
         ''queries_per_second='' @ print_fixed (double_div (double_of_int (int query_count)) query_seconds) @ newline @
         ''samples_read='' @ decimal samples_read @ newline @
         ''segments='' @ decimal segments @ newline)"

definition bench_body :: "bench_env \<Rightarrow> nat \<Rightarrow> (Database \<times> process, nat) act" where
  "bench_body env sample_count =
     act_bind (check bench_series) (\<lambda>series.
     act_bind (write_samples series 0 sample_count) (\<lambda>_.
     act_bind (on_database database_flush) (\<lambda>_.
     act_bind (run_queries series sample_count 0 query_count 0) (\<lambda>samples_read.
     act_bind (query database_stats) (\<lambda>stats.
     act_bind (print_text (report_text env sample_count samples_read (ds_segment_count stats))) (\<lambda>_.
     act_return 0))))))"

definition bench_database :: "string \<Rightarrow> (Database \<times> process, 'a) act \<Rightarrow> (process, 'a) act" where
  "bench_database path body p =
     (case open_database path bench_options (p_host p) of
        (Inl e, h) \<Rightarrow> (Inl e, p\<lparr>p_host := h\<rparr>)
      | (Inr D, h) \<Rightarrow>
          (case body (D, p\<lparr>p_host := h\<rparr>) of (r, (D, p)) \<Rightarrow>
             (r, if r = Inl Crashed then p else p\<lparr>p_host := close_database D (p_host p)\<rparr>)))"

section \<open>The program\<close>

definition bench_arguments :: "bench_env \<Rightarrow> string list \<Rightarrow> (nat \<times> string) result" where
  "bench_arguments env arguments =
     (if length arguments > 3
      then Inl (InvalidArgument ''usage: chronostore-benchmark [sample-count] [new-scratch-directory]'')
      else ebind (if length arguments > 1 then parse_count (arguments ! 1) else Inr 100000) (\<lambda>sample_count.
           ebind (if length arguments > 2 then Inr (arguments ! 2) else default_database_path env) (\<lambda>path.
             Inr (sample_count, path))))"

definition bench_run :: "bench_env \<Rightarrow> string list \<Rightarrow> (process, nat) act" where
  "bench_run env arguments =
     act_bind (check (bench_arguments env arguments)) (\<lambda>(sample_count, path).
       with_scratch path (bench_database path (bench_body env sample_count)))"

definition bench_main :: "bench_env \<Rightarrow> string list \<Rightarrow> (process, nat) act" where
  "bench_main env arguments p =
     (case bench_run env arguments p of
        (Inl e, p) \<Rightarrow>
          if e = Crashed then (Inl Crashed, p)
          else (Inr 1, write_err (''chronostore-benchmark: '' @ what (error_text env) e @ newline) p)
      | (Inr status, p) \<Rightarrow> (Inr status, p))"

end
