(* ===== verification/BenchmarkOutcome.thy ===== *)
theory BenchmarkOutcome
  imports Benchmark DatabaseProperties
begin

text \<open>
  What a run of the benchmark can lead to, whatever the system does: the samples that the
  write loop stored, the number that the queries read, and what the program prints.
\<close>

section \<open>Timestamps of the workload\<close>

abbreviation bench_time :: "nat \<Rightarrow> Timestamp" where
  "bench_time j \<equiv> Timestamp (of_nat j)"

lemma sint_small: "j < 2 ^ 63 \<Longrightarrow> sint (of_nat j :: u64) = int j"
  by transfer (simp add: signed_take_bit_int_eq_self)

lemma bench_time_simps [simp]:
  assumes "i < 2 ^ 63" "j < 2 ^ 63"
  shows "bench_time i < bench_time j \<longleftrightarrow> i < j" "bench_time i \<le> bench_time j \<longleftrightarrow> i \<le> j"
    "(of_nat i :: u64) = of_nat j \<longleftrightarrow> i = j"
  using assms sint_small[OF assms(1)] sint_small[OF assms(2)]
  by (simp_all add: less_Timestamp_def less_eq_Timestamp_def not_less) (metis of_nat_eq_iff)

text \<open>The series has samples at the first \<open>n\<close> indices.\<close>

definition filled :: "SeriesKey \<Rightarrow> nat \<Rightarrow> store \<Rightarrow> bool" where
  "filled k n S \<longleftrightarrow> (\<forall>t. S k t \<noteq> None \<longleftrightarrow> (\<exists>j<n. t = bench_time j))"

lemma filled_put: "filled k n S \<Longrightarrow> timestamp x = bench_time n \<Longrightarrow> filled k (Suc n) (store_put k x S)"
  by (auto simp: filled_def store_put_def less_Suc_eq)

lemma filled_range:
  assumes "filled k n S" "a \<le> b" "b \<le> n" "n < 2 ^ 63" "is_range S k (bench_time a) (bench_time b) xs"
  shows "length xs = b - a"
proof -
  have "set (map timestamp xs) = bench_time ` {a..<b}"
  proof (rule set_eqI)
    fix t
    have "t \<in> set (map timestamp xs) \<longleftrightarrow> (\<exists>v. S k t = Some v) \<and> bench_time a \<le> t \<and> t < bench_time b"
      using assms(5) by (force simp: is_range_def)
    also have "\<dots> \<longleftrightarrow> (\<exists>j<n. t = bench_time j) \<and> bench_time a \<le> t \<and> t < bench_time b"
      using assms(1) by (simp add: filled_def)
    also have "\<dots> \<longleftrightarrow> t \<in> bench_time ` {a..<b}" using assms(2-4) by auto (metis less_le_trans)
    finally show "t \<in> set (map timestamp xs) \<longleftrightarrow> t \<in> bench_time ` {a..<b}" .
  qed
  moreover have "distinct (map timestamp xs)" using assms(5) by (simp add: is_range_def strict_sorted_iff)
  moreover have "inj_on bench_time {a..<b}" using assms(3,4) by (auto simp: inj_on_def)
  ultimately show ?thesis by (metis card_atLeastLessThan card_image distinct_card length_map)
qed

section \<open>The workload on one database\<close>

definition sole :: "Database \<Rightarrow> nat \<Rightarrow> Database" where
  "sole D q = (if q = 0 then D else closed)"

lemma sole_simps [simp]: "sole D 0 = D" "(sole D)(0 := D') = sole D'"
  by (simp_all add: sole_def fun_eq_iff)

lemma range_answer:
  assumes den: "sys_denotes (h, objs) S" and run: "database_range (objs p, h) k a b = Inr xs"
  shows "is_range S k a b xs"
proof -
  obtain I where I: "db_impl (objs p) = Some I" using run by (cases "db_impl (objs p)") (simp_all add: database_range_def implementation_def)
  have "\<not> se_failed (db_engine I)"
    using run I by (auto simp: database_range_def implementation_def engine_range_def engine_ensure_usable_def)
  from database_answers(3)[OF den I this, of a b k] run show ?thesis by (auto split: if_splits)
qed

text \<open>Actions that leave the standard streams alone.\<close>

definition silent :: "(Database \<times> process, 'a) act \<Rightarrow> bool" where
  "silent m \<longleftrightarrow> (\<forall>D p. case m (D, p) of (r, (D', p')) \<Rightarrow> p_out p' = p_out p \<and> p_err p' = p_err p)"

lemma silent_run: "silent m \<Longrightarrow> m (D, p) = (r, (D', p')) \<Longrightarrow> p_out p' = p_out p \<and> p_err p' = p_err p"
  by (force simp: silent_def split: prod.splits)

lemma silent_simps [simp]: "silent (act_return x)" "silent (check r)" "silent (query f)" "silent (on_database m)"
  by (auto simp: silent_def check_def query_def on_database_def split: prod.splits)

lemma silent_bind: "silent m \<Longrightarrow> (\<And>x. silent (k x)) \<Longrightarrow> silent (act_bind m k)"
  by (fastforce simp: silent_def act_bind_def split: prod.splits sum.splits)

lemma silent_write_samples [simp]: "silent (write_samples k i n)"
  by (induction n arbitrary: i) (simp_all add: silent_bind)

lemma silent_run_queries [simp]: "silent (run_queries k N q n acc)"
  by (induction n arbitrary: q acc) (simp_all add: Let_def silent_bind)

lemma bench_sample_time: "bench_sample i = Inr x \<Longrightarrow> sample_wf x \<and> timestamp x = bench_time i"
  by (auto simp: bench_sample_def make_Sample_Inr sample_wf_def)

lemma put_filled:
  assumes "sys_denotes (p_host p, sole D) S" "filled k i S" "series_wf k" "bench_sample i = Inr x"
    and "on_database (database_put k x) (D, p) = (Inr (), (D', p'))"
  shows "\<exists>S'. sys_denotes (p_host p', sole D') S' \<and> filled k (Suc i) S'"
proof -
  have "run_db_op (DbPut k x) (sole D 0, p_host p) = (Inr (), (D', p_host p'))"
    using assms(5) by (auto simp: on_database_def split: prod.splits)
  from returned_refines[OF assms(1) _ this] assms(3) bench_sample_time[OF assms(4)] filled_put[OF assms(2)]
  show ?thesis by auto
qed

lemma write_samples_filled:
  assumes "sys_denotes (p_host p, sole D) S" "filled k i S" "series_wf k"
    and "write_samples k i n (D, p) = (Inr (), (D', p'))"
  shows "\<exists>S'. sys_denotes (p_host p', sole D') S' \<and> filled k (i + n) S'"
  using assms
proof (induction n arbitrary: i D p S)
  case (Suc n)
  obtain x D1 p1 where x: "bench_sample i = Inr x" "on_database (database_put k x) (D, p) = (Inr (), (D1, p1))"
    "write_samples k (i + 1) n (D1, p1) = (Inr (), (D', p'))"
    using Suc.prems(4) by (auto simp: act_bind_Inr check_def)
  obtain S1 where S1: "sys_denotes (p_host p1, sole D1) S1" "filled k (Suc i) S1"
    using put_filled[OF Suc.prems(1-3) x(1,2)] by blast
  from Suc.IH[OF S1 Suc.prems(3)] x(3) show ?case by simp
qed auto

lemma query_width_min: "query_width N q = min 100 (N - start_index N q)"
  by (simp add: query_width_def Let_def)

lemma run_queries_count:
  assumes den: "sys_denotes (p_host p, sole D) S" and fill: "filled k N S" and N: "0 < N" "N < 2 ^ 63"
    and run: "run_queries k N q n acc (D, p) = (Inr m, s')"
  shows "s' = (D, p) \<and> m = acc + (\<Sum>j<n. query_width N (q + j))"
  using run
proof (induction n arbitrary: q acc)
  case (Suc n)
  let ?a = "start_index N q" and ?w = "query_width N q"
  obtain xs where xs: "database_range (D, p_host p) k (bench_time ?a) (bench_time (?a + ?w)) = Inr xs"
    "run_queries k N (q + 1) n (acc + length xs) (D, p) = (Inr m, s')"
    using Suc.prems by (auto simp: act_bind_Inr query_def Let_def)
  have "?a < N" using N(1) by (simp add: start_index_def)
  then have le: "?a + ?w \<le> N" by (simp add: query_width_min)
  have "is_range S k (bench_time ?a) (bench_time (?a + ?w)) xs" using range_answer[OF den, of 0] xs(1) by simp
  from filled_range[OF fill _ le N(2) this] have "length xs = ?w" by simp
  then show ?case using Suc.IH[OF xs(2)] sum.lessThan_Suc_shift[of "\<lambda>j. query_width N (q + j)" n] by simp
qed simp

text \<open>The number of samples that the queries return in all.\<close>

definition expected_reads :: "nat \<Rightarrow> nat" where
  "expected_reads N = (\<Sum>q<1000. min 100 (N - (q * 97) mod N))"

lemma bench_series_ok: "bench_series = Inr k \<Longrightarrow> series_wf k"
  using make_SeriesKey_wf by (auto simp: bench_series_def ebind_eq_Inr make_Tag_Inr tag_wf_def)

text \<open>The workload up to the report.\<close>

definition bench_measure :: "nat \<Rightarrow> (Database \<times> process, nat \<times> DatabaseStats) act" where
  "bench_measure N =
     act_bind (check bench_series) (\<lambda>series.
     act_bind (write_samples series 0 N) (\<lambda>_.
     act_bind (on_database database_flush) (\<lambda>_.
     act_bind (run_queries series N 0 query_count 0) (\<lambda>samples_read.
     act_bind (query database_stats) (\<lambda>stats.
     act_return (samples_read, stats))))))"

lemma act_bind_assoc: "act_bind (act_bind m k) l = act_bind m (\<lambda>x. act_bind (k x) l)"
  by (auto simp: act_bind_def fun_eq_iff split: prod.splits sum.splits)

lemma bench_body_measure:
  "bench_body env N = act_bind (bench_measure N) (\<lambda>(samples_read, stats).
     act_bind (print_text (report_text env N samples_read (ds_segment_count stats))) (\<lambda>_. act_return 0))"
  by (simp add: bench_body_def bench_measure_def act_bind_assoc)

lemma silent_bench_measure: "silent (bench_measure N)"
  by (simp add: bench_measure_def silent_bind)

lemma flush_filled:
  assumes "sys_denotes (p_host p, sole D) S" "on_database database_flush (D, p) = (Inr (), (D', p'))"
  shows "sys_denotes (p_host p', sole D') S"
proof -
  have "run_db_op DbFlush (sole D 0, p_host p) = (Inr (), (D', p_host p'))"
    using assms(2) by (auto simp: on_database_def split: prod.splits)
  from returned_refines[OF assms(1) _ this] show ?thesis by simp
qed

lemma bench_measure_count:
  assumes den: "sys_denotes (p_host p, sole D) (\<lambda>_. Map.empty)" and N: "0 < N" "N < 2 ^ 63"
    and run: "bench_measure N (D, p) = (Inr (m, stats), (D', p'))"
  shows "m = expected_reads N \<and> database_stats (D', p_host p') = Inr stats"
proof -
  obtain k D1 p1 D2 p2 D3 p3 where k: "bench_series = Inr k" and w: "write_samples k 0 N (D, p) = (Inr (), (D1, p1))"
    and f: "on_database database_flush (D1, p1) = (Inr (), (D2, p2))"
    and q: "run_queries k N 0 query_count 0 (D2, p2) = (Inr m, (D3, p3))"
    and st: "query database_stats (D3, p3) = (Inr stats, (D', p'))"
    using run by (auto simp: bench_measure_def act_bind_Inr check_def)
  have "filled k 0 (\<lambda>_. Map.empty)" by (simp add: filled_def)
  then obtain S where S: "sys_denotes (p_host p1, sole D1) S" "filled k N S"
    using write_samples_filled[OF den _ bench_series_ok[OF k] w] by auto
  from run_queries_count[OF flush_filled[OF S(1) f] S(2) N q] st show ?thesis
    by (auto simp: query_def expected_reads_def query_count_def query_width_min start_index_def)
qed

lemma bench_body_outcome:
  assumes den: "sys_denotes (p_host p, sole D) (\<lambda>_. Map.empty)" and N: "0 < N" "N < 2 ^ 63"
    and run: "bench_body env N (D, p) = (r, (D', p'))"
  shows "p_err p' = p_err p \<and>
    (case r of Inl e \<Rightarrow> p_out p' = p_out p
     | Inr st \<Rightarrow> st = 0 \<and> (\<exists>stats. database_stats (D', p_host p') = Inr stats \<and>
         p_out p' = p_out p @ report_text env N (expected_reads N) (ds_segment_count stats)))"
proof -
  obtain r1 D1 p1 where m: "bench_measure N (D, p) = (r1, (D1, p1))" by (rule prod_cases3)
  note quiet = silent_run[OF silent_bench_measure m]
  show ?thesis
  proof (cases r1)
    case (Inl e)
    then show ?thesis using run m quiet by (auto simp: bench_body_measure act_bind_def)
  next
    case (Inr v)
    obtain c stats where v: "v = (c, stats)" by force
    from bench_measure_count[OF den N m[unfolded Inr v]] run m quiet Inr v show ?thesis
      by (auto simp: bench_body_measure act_bind_def print_text_def write_out_def)
  qed
qed

section \<open>The program\<close>

text \<open>What a run prints: nothing when it fails, and the report when it succeeds.\<close>

definition reported :: "bench_env \<Rightarrow> nat \<Rightarrow> process \<Rightarrow> nat result \<Rightarrow> process \<Rightarrow> bool" where
  "reported env N p r p' \<longleftrightarrow> p_err p' = p_err p \<and>
     (case r of Inl e \<Rightarrow> r = Inl Crashed \<or> p_out p' = p_out p
      | Inr st \<Rightarrow> st = 0 \<and> (\<exists>segs. p_out p' = p_out p @ report_text env N (expected_reads N) segs))"

lemma opened_empty:
  assumes "new_directory (h_fs (p_host p))" "\<not> h_locked (p_host p)" "open_database path opts (p_host p) = (Inr D, h)"
  shows "sys_denotes (p_host (p\<lparr>p_host := h\<rparr>), sole D) (\<lambda>_. Map.empty)"
proof -
  have "sys_denotes (p_host p, \<lambda>_. closed) (\<lambda>_. Map.empty)"
    by (rule new_system_denotes) (simp add: new_system_def owners_def assms)
  moreover have "(\<lambda>_. closed)(0 := D) = sole D" by (simp add: sole_def fun_eq_iff)
  ultimately show ?thesis using opened_refines[OF _ _ assms(3), of "\<lambda>_. closed" _ 0] by (simp add: owners_def)
qed

lemma bench_database_reported:
  assumes new: "new_directory (h_fs (p_host p))" "\<not> h_locked (p_host p)" and N: "0 < N" "N < 2 ^ 63"
    and run: "bench_database path (bench_body env N) p = (r, p')"
  shows "reported env N p r p'"
proof -
  obtain r1 h1 where o: "open_database path bench_options (p_host p) = (r1, h1)" by force
  show ?thesis
  proof (cases r1)
    case (Inl e)
    then show ?thesis using run o by (auto simp: bench_database_def reported_def)
  next
    case (Inr D)
    obtain r2 D2 p2 where b: "bench_body env N (D, p\<lparr>p_host := h1\<rparr>) = (r2, (D2, p2))" by (rule prod_cases3)
    then have "r = r2" "p_out p' = p_out p2" "p_err p' = p_err p2"
      using run o Inr by (auto simp: bench_database_def split: if_splits)
    then show ?thesis
      using bench_body_outcome[OF opened_empty[OF new o[unfolded Inr]] N b] by (auto simp: reported_def split: sum.splits)
  qed
qed

lemma create_scratch_cases:
  assumes "create_scratch path h = (r, h')"
  shows "h_entry h \<noteq> Missing \<Longrightarrow> h' = h \<and> r \<noteq> Inl Crashed \<and> r \<noteq> Inr ()"
    "r = Inr () \<Longrightarrow> h_entry h = Missing \<and> h_locked h' = h_locked h \<and> (new_directory (h_fs h) \<longrightarrow> new_directory (h_fs h'))"
proof -
  obtain oc f where n: "next_outcome (h_fs h) = (oc, f)" by force
  then have "new_directory (h_fs h) \<longrightarrow> new_directory f"
    using next_outcome_fields[OF n] by (simp add: new_directory_def no_read_faults_def)
  then show "h_entry h \<noteq> Missing \<Longrightarrow> h' = h \<and> r \<noteq> Inl Crashed \<and> r \<noteq> Inr ()"
    "r = Inr () \<Longrightarrow> h_entry h = Missing \<and> h_locked h' = h_locked h \<and> (new_directory (h_fs h) \<longrightarrow> new_directory (h_fs h'))"
    using assms n by (cases "h_entry h"; auto simp: create_scratch_def split: os_outcome.splits if_splits)+
qed

lemma reported_finally:
  assumes "act_finally m (on_host d) p1 = (r, p')" "\<And>r1 p2. m p1 = (r1, p2) \<Longrightarrow> reported env N p r1 p2"
  shows "reported env N p r p'"
proof -
  obtain r1 p2 where m: "m p1 = (r1, p2)" by force
  obtain r2 h2 where d: "d (p_host p2) = (r2, h2)" by force
  from assms(2)[OF m] assms(1) m d show ?thesis
    by (auto simp: act_finally_def on_host_def reported_def split: if_splits sum.splits)
qed

text \<open>A path at which nothing is has no files and no lock.\<close>

definition path_wf :: "host \<Rightarrow> bool" where
  "path_wf h \<longleftrightarrow> (h_entry h = Missing \<longrightarrow> new_directory (h_fs h) \<and> \<not> h_locked h)"

lemma with_scratch_reported:
  assumes wf: "path_wf (p_host p)" and N: "0 < N" "N < 2 ^ 63"
    and run: "with_scratch path (bench_database path (bench_body env N)) p = (r, p')"
  shows "reported env N p r p'" "h_entry (p_host p) \<noteq> Missing \<Longrightarrow> p_host p' = p_host p \<and> (\<exists>e. r = Inl e \<and> e \<noteq> Crashed)"
proof -
  obtain r1 h1 where c: "create_scratch path (p_host p) = (r1, h1)" by force
  note cc = create_scratch_cases[OF c]
  have fail: "(r, p') = (Inl e, p\<lparr>p_host := h1\<rparr>)" if "r1 = Inl e" for e
    using run c that by (simp add: with_scratch_def act_bind_def on_host_def)
  show "reported env N p r p'"
  proof (cases r1)
    case (Inl e)
    then show ?thesis using fail by (simp add: reported_def)
  next
    case (Inr u)
    then have fin: "act_finally (bench_database path (bench_body env N)) (on_host remove_scratch) (p\<lparr>p_host := h1\<rparr>) = (r, p')"
      using run c by (simp add: with_scratch_def act_bind_def on_host_def)
    have new: "new_directory (h_fs h1)" "\<not> h_locked h1" using cc(2) Inr wf by (auto simp: path_wf_def)
    have "reported env N p r1 p2" if "bench_database path (bench_body env N) (p\<lparr>p_host := h1\<rparr>) = (r1, p2)" for r1 p2
      using bench_database_reported[OF _ _ N that] new by (auto simp: reported_def split: sum.splits)
    then show ?thesis using reported_finally[OF fin] by blast
  qed
  show "h_entry (p_host p) \<noteq> Missing \<Longrightarrow> p_host p' = p_host p \<and> (\<exists>e. r = Inl e \<and> e \<noteq> Crashed)"
    using cc(1) fail by (cases r1) auto
qed

end
