(* ===== verification/BenchmarkRun.thy ===== *)
theory BenchmarkRun
  imports BenchmarkOutcome DecimalRoundtrip
begin

text \<open>
  A run of the benchmark in which no system call fails returns: the samples are valid, every
  write and flush succeeds within the limits of the formats, and the scratch directory is
  removed.
\<close>

section \<open>Operations of the engine that the system lets succeed\<close>

lemma put_keeps_quiet:
  assumes inv: "engine_inv path (E, f) segs recs" and wf: "series_wf k" "sample_wf x"
    and run: "engine_put k x (E, f) = (Inr (), (E', f'))" and q: "fs_script f = []"
  shows "fs_script f' = []"
proof -
  obtain w' where "wal_append (WalPutRecord k x) (se_wal E, f) = (Inr (), (w', f'))"
    using run by (auto simp: engine_put_def act_bind_Inr on_wal_def modify_def split: prod.splits if_splits)
  moreover have "log_holds (se_wal E, f) recs" "record_wf (WalPutRecord k x)"
    using inv wf by (simp_all add: engine_inv_def record_wf_def)
  ultimately have "touches {ww_path (se_wal E)} f f'" using wal_append_effect by blast
  then show ?thesis using q by (simp add: touches_def)
qed

lemma flush_keeps_quiet:
  assumes inv: "engine_inv path (E, f) segs recs" and q: "fs_script f = []"
    and gen: "mf_generation (se_manifest E) \<noteq> 0xFFFFFFFFFFFFFFFF"
    and run: "engine_flush (E, f) = (Inr (), (E', f'))"
  shows "fs_script f' = []"
proof (cases "memtable_empty (se_memtable E)")
  case True
  then obtain w' where "wal_sync (se_wal E, f) = (Inr (), (w', f'))"
    using run engine_inv_usable[OF inv] by (auto simp: engine_flush_def act_bind_Inr on_wal_def split: prod.splits)
  then have "keeps_files f f'" using wal_sync_effect by blast
  then show ?thesis using q by (simp add: keeps_files_def touches_def)
next
  case False
  let ?name = "segment_filename (mf_generation (se_manifest E) + 1)"
  have ds: "disk_state path f (se_manifest E) segs recs []" and m: "memtable_inv (se_memtable E)"
    using inv by (auto simp: engine_inv_def)
  obtain bs where bs: "make_memtable_blocks E = Inr bs" "list_all block_wf bs" "blocks_store bs = memtable_content (se_memtable E)"
    using make_memtable_blocks_correct[OF m] by blast
  obtain r1 f1 where w: "write_segment_file ?name bs f = (r1, f1)" by force
  note steps = engine_flush_run[OF inv False gen bs(1) w] and we = write_new_segment[OF ds gen bs(2) w]
  obtain md where md: "r1 = Inr md" using steps(1) run by (cases r1) auto
  then have at: "segment_at f1 ?name bs" and ds1: "disk_state path f1 (se_manifest E) segs recs []" using we by auto
  note rd = open_segment_written[OF at]
  obtain r2 f2 where st: "store_manifest (flush_manifest E) f1 = (r2, f2)" by force
  have r2: "r2 = Inr ()" using steps(2)[OF md rd] st run by (cases r2) auto
  note se = store_new_manifest[OF ds1 subset_refl flush_next_db(1)[OF inv bs(3) gen] at st]
  obtain r3 w3 f3 where rs: "wal_reset (se_wal E, f2) = (r3, (w3, f3))" by (rule prod_cases3)
  have "recs \<noteq> []" using memtable_empty_log[OF inv] False by simp
  then have "log_holds (se_wal E, f2) recs"
    using inv se r2 by (auto simp: engine_inv_def log_holds_def disk_state_def log_at_def)
  then have "touches {ww_path (se_wal E)} f2 f3" using wal_reset_effect[OF _ rs] by blast
  moreover have "f' = f3" using steps(3)[OF md rd st[unfolded r2] rs] run by (auto simp: Let_def split: sum.splits)
  ultimately show ?thesis using q we se by (auto simp: touches_def)
qed

lemma segment_total: "engine_inv path (E, f) segs recs \<Longrightarrow> length segs = length (mf_segment_files (se_manifest E))"
  by (metis disk_state_def engine_inv_def fst_conv length_map segs_ok_def)

lemma flush_runs:
  assumes inv: "engine_inv path (E, f) segs recs" and q: "fs_script f = []"
    and gen: "mf_generation (se_manifest E) = of_nat (length segs)" and few: "length segs < max_manifest_segments"
    and ok: "\<forall>bs. make_memtable_blocks E = Inr bs \<longrightarrow> bs = [] \<or> segment_ok bs"
  shows "\<exists>E' f' segs'. engine_flush (E, f) = (Inr (), (E', f')) \<and> engine_inv path (E', f') segs' [] \<and> fs_script f' = [] \<and>
    length segs' = length segs + (if recs = [] then 0 else 1) \<and> mf_generation (se_manifest E') = of_nat (length segs')"
proof -
  obtain r E' f' where run: "engine_flush (E, f) = (r, (E', f'))" by (rule prod_cases3)
  have g: "mf_generation (se_manifest E) \<noteq> 0xFFFFFFFFFFFFFFFF"
  proof
    assume "mf_generation (se_manifest E) = 0xFFFFFFFFFFFFFFFF"
    then have "unat (of_nat (length segs) :: u64) = unat (0xFFFFFFFFFFFFFFFF :: u64)" using gen by simp
    then show False using few by (simp add: unat_of_nat max_manifest_segments_def)
  qed
  note eff = engine_flush_effect[OF inv run, simplified]
  have r: "r = Inr ()" using eff q ok few g by simp
  then obtain segs' where inv': "engine_inv path (E', f') segs' []" using eff by blast
  have mf: "se_manifest E' = (if recs = [] then se_manifest E else flush_manifest E)" using eff r by simp
  have "length segs' = length segs + (if recs = [] then 0 else 1)"
    using segment_total[OF inv] segment_total[OF inv'] mf by (simp add: flush_manifest_def)
  moreover have "fs_script f' = []" using flush_keeps_quiet[OF inv q g] run r by simp
  ultimately show ?thesis using run r inv' mf gen by (intro exI[of _ E'] exI[of _ f'] exI[of _ segs']) (simp add: flush_manifest_def)
qed

section \<open>The samples of the workload\<close>

lemma rounded_magnitude_small:
  assumes d: "0 < d" and n: "n < 2 ^ k * d"
  shows "rounded_magnitude n d < (k + 1024) * 2 ^ 52"
proof (cases "n = 0")
  case False
  define e where "e = floor_log 2 n d"
  define E where "E = max (- 1074) (e - 52)"
  define R where "R = round_scaled n d 2 E"
  have b: "2 powi e \<le> real n / real d" "real n / real d < 2 powi (e + 1)"
    using floor_log_bounds[of 2 n d] False d by (simp_all add: e_def)
  have "real n < real (2 ^ k * d)" using n by (simp only: of_nat_less_iff)
  then have "real n < 2 ^ k * real d" by simp
  then have "real n / real d < 2 ^ k" using d by (simp add: divide_less_eq)
  then have "2 powi e < (2 :: real) powi int k" using b(1) by simp
  then have "e < int k" using power_int_increasing[of "int k" e "2 :: real"] by linarith
  then have E: "E + 1074 \<le> int k + 1021" "e + 1 \<le> E + int 53" by (simp_all add: E_def)
  have p: "0 < (2 :: real) powi E" by simp
  have "real n / real d < 2 ^ 53 * 2 powi E"
    using b(2) E(2) power_int_increasing[of "e + 1" "E + int 53" "2 :: real"] unfolding two_powi by simp
  moreover have "\<bar>real n / real d - real R * 2 powi E\<bar> \<le> 2 powi E / 2"
    using round_scaled_error[of 2 d n E] d by (simp add: R_def)
  ultimately have "real R * 2 powi E < 2 ^ 53 * 2 powi E + 2 powi E" using p by linarith
  then have "real R * 2 powi E < (2 ^ 53 + 1) * 2 powi E" by (simp only: distrib_right mult_1)
  then have "real R < 2 ^ 53 + 1" using p by (simp only: mult_less_cancel_right_pos)
  then have "real R < real (2 ^ 53 + 1)" by simp
  then have R: "R \<le> 2 ^ 53" by (simp only: of_nat_less_iff)
  have "nat (E + 1074) \<le> k + 1021" using E(1) by linarith
  then have "nat (E + 1074) * 2 ^ 52 + R \<le> (k + 1021) * 2 ^ 52 + 2 ^ 53" using R by (intro add_mono mult_right_mono) simp_all
  moreover have "rounded_magnitude n d \<le> nat (E + 1074) * 2 ^ 52 + R"
    using False by (simp add: rounded_magnitude_def Let_def E_def e_def R_def)
  ultimately show ?thesis by simp
qed (simp add: rounded_magnitude_def)

lemma positive_double:
  assumes "b < infinity_bits"
  shows "double_magnitude (double_of False b) = b" "\<not> double_sign (double_of False b)" "isfinite (double_of False b)"
proof -
  have b: "b < 2 ^ 63" "b div 2 ^ 52 < 2047" using assms by (simp_all add: infinity_bits_def less_mult_imp_div_less)
  have u: "unat (of_nat b :: double) = b" using b by (simp add: unat_of_nat)
  show "double_magnitude (double_of False b) = b"
    using b by (simp add: double_of_def double_magnitude_def unsigned_take_bit_eq u take_bit_nat_eq_self)
  show "\<not> double_sign (double_of False b)"
    using b by (simp add: double_of_def double_sign_def bit_of_nat_iff bit_nat_def)
  have "unat (take_bit 11 (drop_bit 52 (of_nat b :: double))) = b div 2 ^ 52"
    unfolding unsigned_take_bit_eq unsigned_drop_bit_eq u using b by (simp add: drop_bit_eq_div take_bit_nat_eq_self)
  then have "unat (take_bit 11 (drop_bit 52 (of_nat b :: double))) \<noteq> unat (0x7FF :: double)" using b(2) by simp
  then show "isfinite (double_of False b)" unfolding isfinite_def double_of_def by (metis (full_types))
qed

text \<open>Every index gives a valid sample.\<close>

lemma bench_sample_valid:
  assumes "i < 2 ^ 63"
  shows "\<exists>v. bench_sample i = Inr (Sample (bench_time i) v) \<and> isfinite v"
proof -
  define b where "b = rounded_magnitude i 1"
  have b: "b < (63 + 1024) * 2 ^ 52" unfolding b_def by (rule rounded_magnitude_small) (use assms in simp_all)
  then have fb: "b < infinity_bits" by (simp add: infinity_bits_def)
  obtain M E where p: "double_parts b = (M, E)" by force
  note pb = double_parts_bounds[OF p]
  have "nat (E + 1074) * 2 ^ 52 \<le> b" using pb(4) by (metis le_add1)
  then have "nat (E + 1074) * 2 ^ 52 < 1087 * 2 ^ 52" using b by simp
  then have "nat E \<le> 12" by simp
  then have "M * 2 ^ nat E < 2 ^ 53 * 2 ^ 12" using pb(1) by (intro mult_less_le_imp_less power_increasing) simp_all
  also have "(2 :: nat) ^ 53 * 2 ^ 12 = 2 ^ 65 * 1" by simp
  also have "\<dots> \<le> 2 ^ 65 * (2 * 2 ^ nat (- E))" by (intro mult_left_mono) (simp_all add: Suc_le_eq)
  finally have n: "M * 2 ^ nat E < 2 ^ 65 * (2 * 2 ^ nat (- E))" .
  define c where "c = rounded_magnitude (M * 2 ^ nat E) (2 * 2 ^ nat (- E))"
  have "c < (65 + 1024) * 2 ^ 52" unfolding c_def by (rule rounded_magnitude_small) (use n in simp_all)
  then have fc: "c < infinity_bits" by (simp add: infinity_bits_def)
  have "double_of_int (int i) = double_of False b" by (simp add: double_of_int_def b_def)
  then have "times_half (double_of_int (int i)) = double_of False c"
    using positive_double[OF fb] p by (simp add: times_half_def double_fraction_def c_def)
  then show ?thesis using positive_double(3)[OF fc] by (simp add: bench_sample_def)
qed

section \<open>Records and blocks of one series\<close>

definition bench_key :: SeriesKey where
  "bench_key = SeriesKey ''benchmark'' [Tag ''source'' ''sequential'']"

lemma bench_series_key: "bench_series = Inr bench_key"
  by (simp add: bench_series_def bench_key_def make_Tag_def make_SeriesKey_def)

lemma length_bench_series: "length (series_bytes bench_key) = 41"
  by (simp add: bench_key_def series_bytes_def length_tag_bytes)

lemma records_store_None:
  "records_store recs k t \<noteq> None \<longleftrightarrow> (\<exists>r\<in>set recs. wal_series r = k \<and> timestamp (wal_sample r) = t)"
  by (induction recs rule: rev_induct) (auto simp: records_store_append store_put_def)

lemma store_keys_records:
  "store_keys (records_store recs) = (\<lambda>r. (wal_series r, timestamp (wal_sample r))) ` set recs"
  by (induction recs rule: rev_induct) (auto simp: records_store_append store_keys_put)

lemma block_keys:
  assumes "list_all block_wf bs" "sorted_wrt block_before bs" "b \<in> set bs"
  shows "blocks_store bs (block_series b) (first_timestamp b) \<noteq> None"
proof -
  have "block_samples b \<noteq> []" using assms by (auto simp: list_all_iff block_wf_def)
  then have "Sample (first_timestamp b) (sample_value (hd (block_samples b))) \<in> set (block_samples b)"
    by (cases "block_samples b") (simp_all add: first_timestamp_def)
  then show ?thesis using blocks_store_Some[OF assms(1,2)] assms(3) by blast
qed

text \<open>Blocks of one series have different first timestamps, so there are at most as many as samples.\<close>

lemma few_blocks:
  assumes wf: "list_all block_wf bs" "sorted_wrt block_before bs" and st: "blocks_store bs = records_store recs"
    and one: "\<forall>r\<in>set recs. wal_series r = k"
  shows "\<forall>b\<in>set bs. block_series b = k" "length bs \<le> length recs"
proof -
  have key: "block_series b = k \<and> first_timestamp b \<in> (timestamp \<circ> wal_sample) ` set recs" if b: "b \<in> set bs" for b
    using block_keys[OF wf b] one unfolding st records_store_None by (auto intro: rev_image_eqI)
  then show "\<forall>b\<in>set bs. block_series b = k" by blast
  have "sorted_wrt (\<lambda>a b. first_timestamp a < first_timestamp b) bs"
  proof (rule sorted_wrt_mono_rel[OF _ wf(2)])
    fix a b
    assume ab: "a \<in> set bs" "b \<in> set bs" "block_before a b"
    then have "block_wf a" "block_series a = block_series b" using wf(1) key by (auto simp: list_all_iff)
    then show "first_timestamp a < first_timestamp b" using ab(3) first_le_last[of a] by (auto simp: block_before_def)
  qed
  then have "distinct (map first_timestamp bs)" by (simp add: strict_sorted_iff flip: sorted_wrt_map)
  then have "length bs = card (first_timestamp ` set bs)" using distinct_card by fastforce
  also have "\<dots> \<le> card ((timestamp \<circ> wal_sample) ` set recs)" using key by (intro card_mono) auto
  also have "\<dots> \<le> card (set recs)" by (rule card_image_le) simp
  also have "\<dots> \<le> length recs" by (rule card_length)
  finally show "length bs \<le> length recs" .
qed

lemma index_payload_size:
  "\<forall>b\<in>set bs. block_series b = k \<Longrightarrow>
   length (index_payload_bytes (index_entries off bs)) = length bs * (32 + length (series_bytes k))"
  by (induction off bs rule: index_entries.induct) (auto simp: index_payload_bytes_def entry_bytes_def index_entry_def)

lemma bench_blocks_ok:
  assumes inv: "engine_inv path (E, f) segs recs" and k: "\<forall>r\<in>set recs. wal_series r = bench_key"
    and n: "length recs \<le> 8192" and bs: "make_memtable_blocks E = Inr bs"
  shows "bs = [] \<or> segment_ok bs"
proof -
  have m: "memtable_inv (se_memtable E)" "memtable_content (se_memtable E) = records_store recs"
    using inv by (simp_all add: engine_inv_def)
  then have b: "list_all block_wf bs" "sorted_wrt block_before bs" "blocks_store bs = records_store recs"
    using make_memtable_blocks_correct[OF m(1)] bs by auto
  note few = few_blocks[OF b k]
  have "block_fits c" if "c \<in> set bs" for c
    using that few(1) b(1) by (auto simp: block_fits_def block_payload_bytes_def length_bench_series list_all_iff block_wf_def
        max_samples_per_segment_block_def max_segment_block_payload_size_def length_concat comp_def sum_list_triv)
  then have "list_all block_ok bs" using b(1) by (simp add: block_ok_def list_all_iff)
  then show ?thesis
    using b(2) few(2) n index_payload_size[OF few(1), of 32]
    by (simp add: segment_ok_def length_bench_series max_segment_block_count_def max_index_payload_size_def)
qed

section \<open>The write loop\<close>

definition bench_record :: "nat \<Rightarrow> WalPutRecord" where
  "bench_record j = WalPutRecord bench_key (projr (bench_sample j))"

lemma bench_record_sample:
  assumes "j < 2 ^ 63"
  shows "bench_sample j = Inr (wal_sample (bench_record j))" "sample_wf (wal_sample (bench_record j))"
    "timestamp (wal_sample (bench_record j)) = bench_time j"
  using bench_sample_valid[OF assms] by (auto simp: bench_record_def sample_wf_def)

lemma bench_record_simps [simp]:
  "wal_series (bench_record j) = bench_key" "record_fits (bench_record j)" "length (wal_record_bytes (bench_record j)) = 75"
  by (simp_all add: bench_record_def record_fits_def wal_record_bytes_def wal_payload_bytes_def length_bench_series max_payload_size_def)

lemma bench_key_wf: "series_wf bench_key"
  by (rule bench_series_ok[OF bench_series_key])

lemma bench_log: "length (log_bytes (map bench_record js)) = 75 * length js"
  by (induction js) simp_all

lemma bench_keys:
  assumes "b \<le> 2 ^ 63"
  shows "card (store_keys (records_store (map bench_record [a..<b]))) = b - a"
proof -
  have "store_keys (records_store (map bench_record [a..<b])) = (\<lambda>j. (bench_key, bench_time j)) ` {a..<b}"
    unfolding store_keys_records using assms bench_record_sample(3) by (auto simp: image_iff)
  moreover have "inj_on (\<lambda>j. (bench_key, bench_time j)) {a..<b}" using assms by (auto simp: inj_on_def)
  ultimately show ?thesis by (simp add: card_image)
qed

text \<open>
  The database after \<open>i\<close> samples: every full batch of 8192 is in a segment of its own, and the
  rest in the log.
\<close>

definition bench_at :: "nat \<Rightarrow> Database \<Rightarrow> host \<Rightarrow> bool" where
  "bench_at i D h \<longleftrightarrow> (\<exists>I segs. D = \<lparr>db_impl = Some I\<rparr> \<and> db_flush_threshold_samples I = 8192 \<and>
     engine_inv wal_filename (db_engine I, h_fs h) segs (map bench_record [i - i mod 8192..<i]) \<and>
     length segs = i div 8192 \<and> mf_generation (se_manifest (db_engine I)) = of_nat (length segs) \<and> fs_script (h_fs h) = [])"

lemma put_record_runs:
  assumes inv: "engine_inv path (E, f) segs (map bench_record [a..<i])" and q: "fs_script f = []"
    and i: "i < 2 ^ 63" "a \<le> i" "i - a < 8192"
  shows "\<exists>E' f'. engine_put bench_key (wal_sample (bench_record i)) (E, f) = (Inr (), (E', f')) \<and> fs_script f' = [] \<and>
    engine_inv path (E', f') segs (map bench_record [a..<Suc i]) \<and> se_manifest E' = se_manifest E"
proof -
  obtain r E' f' where run: "engine_put bench_key (wal_sample (bench_record i)) (E, f) = (r, (E', f'))" by (rule prod_cases3)
  note wf = bench_key_wf bench_record_sample(2)[OF i(1)]
  have rec: "WalPutRecord bench_key (wal_sample (bench_record i)) = bench_record i" by (simp add: bench_record_def)
  note eff = engine_put_effect[OF inv wf run, unfolded rec]
  have app: "map bench_record [a..<i] @ [bench_record i] = map bench_record [a..<Suc i]" using i(2) by simp
  have "length (log_bytes (map bench_record [a..<Suc i])) < 2 ^ 64" unfolding bench_log using i(3) by simp
  then have r: "r = Inr ()" using eff q unfolding app by simp
  then show ?thesis using eff put_keeps_quiet[OF inv wf _ q] run unfolding app by auto
qed

lemma div_mod_Suc:
  assumes "i mod 8192 \<noteq> 8191"
  shows "Suc i mod 8192 = Suc (i mod 8192)" "Suc i div 8192 = i div 8192"
  using assms by (simp_all add: mod_Suc div_Suc)

lemma bench_put_runs:
  assumes at: "bench_at i D h" and i: "i < 2 ^ 63" "i div 8192 < max_manifest_segments"
  shows "\<exists>D' h'. database_put bench_key (wal_sample (bench_record i)) (D, h) = (Inr (), (D', h')) \<and> bench_at (Suc i) D' h'"
proof -
  let ?a = "i - i mod 8192" and ?x = "wal_sample (bench_record i)"
  obtain I segs where D: "D = \<lparr>db_impl = Some I\<rparr>" and I: "db_flush_threshold_samples I = 8192"
    and inv: "engine_inv wal_filename (db_engine I, h_fs h) segs (map bench_record [?a..<i])"
    and n: "length segs = i div 8192" and gen: "mf_generation (se_manifest (db_engine I)) = of_nat (length segs)"
    and q: "fs_script (h_fs h) = []" using at by (auto simp: bench_at_def)
  have small: "i - ?a < 8192" by simp
  obtain E f where put: "engine_put bench_key ?x (db_engine I, h_fs h) = (Inr (), (E, f))" and qf: "fs_script f = []"
    and inv1: "engine_inv wal_filename (E, f) segs (map bench_record [?a..<Suc i])" and mf: "se_manifest E = se_manifest (db_engine I)"
    using put_record_runs[OF inv q i(1) _ small] by auto
  have count: "engine_memtable_sample_count (E, f) = Inr (Suc (i mod 8192))"
    using engine_inv_counts(4)[OF inv1] bench_keys[of "Suc i" ?a] i(1) by simp
  show ?thesis
  proof (cases "i mod 8192 = 8191")
    case False
    have "\<not> 8192 \<le> Suc (i mod 8192)" using False mod_less_divisor[of 8192 i] by linarith
    then have "impl_put bench_key ?x (I, h) = (Inr (), (I\<lparr>db_engine := E\<rparr>, h\<lparr>h_fs := f\<rparr>))"
      using put count I by (simp add: impl_put_def act_bind_def translate_corruption_def on_engine_def)
    moreover have "bench_at (Suc i) \<lparr>db_impl = Some (I\<lparr>db_engine := E\<rparr>)\<rparr> (h\<lparr>h_fs := f\<rparr>)"
      using inv1 n gen mf qf I div_mod_Suc[OF False] by (auto simp: bench_at_def)
    ultimately show ?thesis using D by (auto simp: database_put_def with_impl_def implementation_def)
  next
    case True
    then have full: "Suc i mod 8192 = 0" "Suc i div 8192 = Suc (i div 8192)" by (simp_all add: mod_Suc div_Suc)
    have "length segs < max_manifest_segments" using n i(2) by simp
    moreover have "bs = [] \<or> segment_ok bs" if "make_memtable_blocks E = Inr bs" for bs
      by (rule bench_blocks_ok[OF inv1 _ _ that]) (use small in simp_all)
    ultimately obtain E' f' segs' where fl: "engine_flush (E, f) = (Inr (), (E', f'))" "engine_inv wal_filename (E', f') segs' []"
      "fs_script f' = []" "length segs' = Suc (length segs)" "mf_generation (se_manifest E') = of_nat (length segs')"
      using flush_runs[OF inv1 qf] gen mf by auto
    have "impl_put bench_key ?x (I, h) = (Inr (), (I\<lparr>db_engine := E'\<rparr>, h\<lparr>h_fs := f'\<rparr>))"
      using put count True I fl(1) by (simp add: impl_put_def act_bind_def translate_corruption_def on_engine_def)
    moreover have "bench_at (Suc i) \<lparr>db_impl = Some (I\<lparr>db_engine := E'\<rparr>)\<rparr> (h\<lparr>h_fs := f'\<rparr>)"
      using fl(2-5) full n I by (auto simp: bench_at_def)
    ultimately show ?thesis using D by (auto simp: database_put_def with_impl_def implementation_def)
  qed
qed

lemma write_samples_run:
  assumes "bench_at i D (p_host p)" "i + n \<le> 8192 * max_manifest_segments"
  shows "\<exists>D' p'. write_samples bench_key i n (D, p) = (Inr (), (D', p')) \<and> bench_at (i + n) D' (p_host p')"
  using assms
proof (induction n arbitrary: i D p)
  case (Suc n)
  have i: "i < 2 ^ 63" "i div 8192 < max_manifest_segments" using Suc.prems(2) by (simp_all add: max_manifest_segments_def)
  obtain D1 h1 where put: "database_put bench_key (wal_sample (bench_record i)) (D, p_host p) = (Inr (), (D1, h1))"
    "bench_at (Suc i) D1 h1" using bench_put_runs[OF Suc.prems(1) i] by blast
  obtain D' p' where "write_samples bench_key (Suc i) n (D1, p\<lparr>p_host := h1\<rparr>) = (Inr (), (D', p'))"
    "bench_at (Suc i + n) D' (p_host p')" using Suc.IH[of "Suc i" D1 "p\<lparr>p_host := h1\<rparr>"] put(2) Suc.prems(2) by auto
  then show ?case
    using put(1) bench_record_sample(1)[OF i(1)] by (auto simp: act_bind_def check_def on_database_def)
qed auto

text \<open>After the last flush every sample is in a segment.\<close>

definition bench_done :: "nat \<Rightarrow> Database \<Rightarrow> host \<Rightarrow> bool" where
  "bench_done N D h \<longleftrightarrow> (\<exists>I segs. D = \<lparr>db_impl = Some I\<rparr> \<and> engine_inv wal_filename (db_engine I, h_fs h) segs [] \<and>
     length segs = (N + 8191) div 8192 \<and> fs_script (h_fs h) = [])"

lemma batches: "(N + 8191) div 8192 = N div 8192 + (if N mod 8192 = 0 then 0 else 1)" for N :: nat
proof -
  have "(N + 8191) div 8192 = ((N mod 8192 + 8191) + 8192 * (N div 8192)) div 8192" by (rule arg_cong[of _ _ "\<lambda>n. n div 8192"]) simp
  also have "\<dots> = N div 8192 + (N mod 8192 + 8191) div 8192" by (simp only: div_mult_self2)
  moreover have "(N mod 8192 + 8191) div 8192 = 1" if "N mod 8192 \<noteq> 0"
  proof (rule div_nat_eqI)
    have "N mod 8192 < 8192" by simp
    then show "N mod 8192 + 8191 < 8192 * Suc 1" by simp
  qed (use that in simp)
  ultimately show ?thesis by simp
qed

lemma bench_flush_runs:
  assumes at: "bench_at N D h" and N: "N < 8192 * max_manifest_segments"
  shows "\<exists>D' h'. database_flush (D, h) = (Inr (), (D', h')) \<and> bench_done N D' h'"
proof -
  let ?a = "N - N mod 8192"
  obtain I segs where D: "D = \<lparr>db_impl = Some I\<rparr>"
    and inv: "engine_inv wal_filename (db_engine I, h_fs h) segs (map bench_record [?a..<N])"
    and n: "length segs = N div 8192" and gen: "mf_generation (se_manifest (db_engine I)) = of_nat (length segs)"
    and q: "fs_script (h_fs h) = []" using at by (auto simp: bench_at_def)
  have few: "length segs < max_manifest_segments" using n N by (simp add: less_mult_imp_div_less mult.commute)
  have ok: "bs = [] \<or> segment_ok bs" if "make_memtable_blocks (db_engine I) = Inr bs" for bs
    by (rule bench_blocks_ok[OF inv _ _ that]) simp_all
  have "map bench_record [?a..<N] = [] \<longleftrightarrow> N mod 8192 = 0" by auto
  then obtain E' f' segs' where "engine_flush (db_engine I, h_fs h) = (Inr (), (E', f'))"
    "engine_inv wal_filename (E', f') segs' []" "fs_script f' = []" "length segs' = (N + 8191) div 8192"
    using flush_runs[OF inv q gen few] ok n unfolding batches by auto
  then show ?thesis
    using D by (intro exI[of _ "\<lparr>db_impl = Some (I\<lparr>db_engine := E'\<rparr>)\<rparr>"] exI[of _ "h\<lparr>h_fs := f'\<rparr>"])
      (auto simp: database_flush_def with_impl_def implementation_def translate_corruption_def on_engine_def bench_done_def)
qed

section \<open>A whole run\<close>

lemma range_returns:
  assumes "bench_done N D h" "a \<le> b"
  shows "\<exists>xs. database_range (D, h) k a b = Inr xs"
proof -
  obtain I segs where D: "D = \<lparr>db_impl = Some I\<rparr>" and inv: "engine_inv wal_filename (db_engine I, h_fs h) segs []"
    using assms(1) by (auto simp: bench_done_def)
  show ?thesis
    using engine.range_content[OF engine_inv_ready(1)[OF inv], of a b k] engine_inv_ready(2)[OF inv] assms(2) D
    by (auto simp: database_range_def implementation_def)
qed

lemma run_queries_run:
  assumes don: "bench_done N D (p_host p)" and N: "0 < N" "N < 2 ^ 63"
  shows "\<exists>m. run_queries k N q n acc (D, p) = (Inr m, (D, p))"
proof (induction n arbitrary: q acc)
  case (Suc n)
  have "start_index N q < N" using N(1) by (simp add: start_index_def)
  then have b: "start_index N q < 2 ^ 63" "start_index N q + query_width N q < 2 ^ 63" using N(2) by (simp_all add: query_width_min)
  then obtain xs where "database_range (D, p_host p) k (bench_time (start_index N q))
      (bench_time (start_index N q + query_width N q)) = Inr xs"
    using range_returns[OF don] bench_time_simps(2)[OF b] by (metis le_add1)
  then show ?case using Suc.IH[of "q + 1" "acc + length xs"] by (simp add: Let_def act_bind_def query_def)
qed simp

lemma done_stats: "bench_done N D h \<Longrightarrow> \<exists>st. database_stats (D, h) = Inr st \<and> ds_segment_count st = (N + 8191) div 8192"
proof -
  assume "bench_done N D h"
  then obtain I segs where D: "D = \<lparr>db_impl = Some I\<rparr>" and inv: "engine_inv wal_filename (db_engine I, h_fs h) segs []"
    and n: "length segs = (N + 8191) div 8192" by (auto simp: bench_done_def)
  then show ?thesis
    using engine_inv_usable[OF inv] engine_inv_counts(1,2)[OF inv] unat_u64_less[of "se_logical_sample_count (db_engine I)"]
    by (simp add: database_stats_def implementation_def engine_stats_def engine_segment_count_def engine_sample_count_def)
qed

lemma bench_measure_runs:
  assumes at: "bench_at 0 D (p_host p)" and N: "0 < N" "N < 8192 * max_manifest_segments"
  shows "\<exists>m st D' p'. bench_measure N (D, p) = (Inr (m, st), (D', p')) \<and> bench_done N D' (p_host p') \<and>
    ds_segment_count st = (N + 8191) div 8192"
proof -
  obtain D1 p1 where w: "write_samples bench_key 0 N (D, p) = (Inr (), (D1, p1))" "bench_at N D1 (p_host p1)"
    using write_samples_run[OF at, of N] N(2) by auto
  obtain D2 h2 where f: "database_flush (D1, p_host p1) = (Inr (), (D2, h2))" and don: "bench_done N D2 h2"
    using bench_flush_runs[OF w(2) N(2)] by blast
  let ?p = "p1\<lparr>p_host := h2\<rparr>"
  have "N < 2 ^ 63" using N(2) by (simp add: max_manifest_segments_def)
  then obtain m where q: "run_queries bench_key N 0 query_count 0 (D2, ?p) = (Inr m, (D2, ?p))"
    using run_queries_run[of N D2 ?p bench_key 0 query_count 0] don N(1) by auto
  obtain st where st: "database_stats (D2, h2) = Inr st" "ds_segment_count st = (N + 8191) div 8192" using done_stats[OF don] by blast
  have "bench_measure N (D, p) = (Inr (m, st), (D2, ?p))"
    using w(1) f q st(1) by (simp add: bench_measure_def bench_series_key act_bind_def check_def on_database_def query_def)
  then show ?thesis using st(2) don by auto
qed

lemma new_disk_state: "new_directory f \<Longrightarrow> disk_state wal_filename f empty_manifest [] [] []"
  using wal_filename_ok by (simp add: new_directory_def disk_state_def manifest_at_def segs_ok_def log_at_def fs_file_def
      fs_wf_def empty_manifest_def max_manifest_segments_def)

text \<open>A host in which no call fails.\<close>

definition calls_succeed :: "host \<Rightarrow> bool" where
  "calls_succeed h \<longleftrightarrow> fs_script (h_fs h) = [] \<and> \<not> h_exists_fault h \<and> \<not> h_is_directory_fault h"

lemma open_new_database:
  assumes new: "new_directory (h_fs h)" "\<not> h_locked h" "h_entry h = Directory" and q: "calls_succeed h" and dir: "dir \<noteq> []"
  shows "\<exists>D h'. open_database dir bench_options h = (Inr D, h') \<and> bench_at 0 D h'"
proof -
  have prep: "prepare_database_directory dir h = (Inr wal_filename, h)"
    using prepare_quiet[of dir h] new(3) q dir by (simp add: calls_succeed_def)
  obtain r1 h1 where 1: "acquire_lock lock_path h = (r1, h1)" by force
  note a = acquire_lock_effect[OF 1]
  have r1: "r1 = Inr ()" and q1: "fs_script (h_fs h1) = []" using a new(2) q by (auto simp: touches_def calls_succeed_def)
  have ds: "disk_state wal_filename (h_fs h1) empty_manifest [] [] []"
    using disk_state_frame[OF new_disk_state[OF new(1)] _ lock_not_db[OF new_disk_state[OF new(1)]]] a by blast
  obtain r2 h2 where 2: "on_dir (open_engine wal_filename (to_internal_durability (durability bench_options))) h1 = (r2, h2)" by force
  note oe = on_dir_effect[OF 2, THEN conjunct1]
  obtain E where E: "r2 = Inr E" "engine_inv wal_filename (E, h_fs h2) [] []" "se_manifest E = empty_manifest"
    using open_engine_effect[OF ds oe] q1 by blast
  have "fs_script (h_fs h2) = []" by (rule open_engine_quiet[OF ds oe q1])
  then have "bench_at 0 \<lparr>db_impl = Some \<lparr>db_engine = E, db_flush_threshold_samples = 8192\<rparr>\<rparr> h2"
    using E(2,3) by (auto simp: bench_at_def empty_manifest_def)
  then show ?thesis
    using prep 1 2 r1 E(1)
    by (simp add: open_database_def make_impl_def act_bind_def act_on_error_def translate_corruption_def bench_options_def)
qed

lemma unlink_quiet:
  "fs_script f = [] \<Longrightarrow> \<exists>f'. sys_unlink name f = (Ret 0, f') \<and> fs_files f' = om_del name (fs_files f) \<and> fs_script f' = []"
  by (simp add: sys_unlink_def sys_atomic_def next_outcome_quiet fs_delete_def)

lemma remove_entries_quiet:
  assumes "fs_script f = []"
  shows "\<exists>f'. remove_entries None names f = (Inr True, f') \<and> fs_script f' = [] \<and>
    fs_files f' = filter (\<lambda>e. fst e \<notin> set names) (fs_files f)"
  using assms
proof (induction names arbitrary: f)
  case (Cons n ns)
  obtain f1 where f1: "sys_unlink n f = (Ret 0, f1)" "fs_files f1 = om_del n (fs_files f)" "fs_script f1 = []"
    using unlink_quiet[OF Cons.prems] by blast
  have "filter (\<lambda>e. fst e \<notin> set ns) (om_del n xs) = filter (\<lambda>e. fst e \<noteq> n \<and> fst e \<notin> set ns) xs" for xs :: "(string, byte list) omap"
    by (simp add: om_del_def conj_commute)
  then show ?case using Cons.IH[OF f1(3)] f1 by simp
qed simp

lemma remove_scratch_quiet:
  assumes q: "fs_script (h_fs h) = []" "fs_dir_fault (h_fs h) = None"
  shows "\<exists>h'. remove_scratch h = (Inr (), h') \<and> h_entry h' = Missing \<and> fs_files (h_fs h') = []"
proof -
  obtain f' where f': "remove_entries None (map fst (fs_files (h_fs h))) (h_fs h) = (Inr True, f')" "fs_script f' = []" "fs_files f' = []"
    using remove_entries_quiet[OF q(1), of "map fst (fs_files (h_fs h))"] by (auto simp: filter_empty_conv)
  then show ?thesis
    using q by (simp add: remove_scratch_def act_bind_def on_dir_def remove_directory_def next_outcome_quiet)
qed

lemma bench_database_runs:
  assumes new: "new_directory (h_fs (p_host p))" "\<not> h_locked (p_host p)" "h_entry (p_host p) = Directory"
    and q: "calls_succeed (p_host p)" and path: "path \<noteq> []" and N: "0 < N" "N < 8192 * max_manifest_segments"
  shows "\<exists>p'. bench_database path (bench_body env N) p = (Inr 0, p') \<and>
    p_out p' = p_out p @ report_text env N (expected_reads N) ((N + 8191) div 8192) \<and>
    fs_script (h_fs (p_host p')) = [] \<and> fs_dir_fault (h_fs (p_host p')) = None"
proof -
  obtain D h1 where o: "open_database path bench_options (p_host p) = (Inr D, h1)" and at: "bench_at 0 D h1"
    using open_new_database[OF new q path] by blast
  let ?p1 = "p\<lparr>p_host := h1\<rparr>"
  have at1: "bench_at 0 D (p_host ?p1)" using at by simp
  obtain m st D2 p2 where meas: "bench_measure N (D, ?p1) = (Inr (m, st), (D2, p2))" and don: "bench_done N D2 (p_host p2)"
    and st: "ds_segment_count st = (N + 8191) div 8192" using bench_measure_runs[OF at1 N] by blast
  have "N < 2 ^ 63" using N(2) by (simp add: max_manifest_segments_def)
  then have m: "m = expected_reads N" using bench_measure_count[OF opened_empty[OF new(1,2) o] N(1) _ meas] by blast
  define p3 where "p3 = write_out (report_text env N m (ds_segment_count st)) p2"
  have body: "bench_body env N (D, ?p1) = (Inr 0, (D2, p3))"
    using meas by (simp add: bench_body_measure act_bind_def print_text_def p3_def)
  have p3: "p_out p3 = p_out p @ report_text env N (expected_reads N) ((N + 8191) div 8192)" "p_host p3 = p_host p2"
    using silent_run[OF silent_bench_measure meas] m st by (simp_all add: p3_def write_out_def)
  obtain I segs where D2: "D2 = \<lparr>db_impl = Some I\<rparr>" "engine_inv wal_filename (db_engine I, h_fs (p_host p2)) segs []"
    "fs_script (h_fs (p_host p2)) = []" using don by (auto simp: bench_done_def)
  then have "fs_dir_fault (h_fs (p_host p2)) = None" by (simp add: engine_inv_def disk_state_def no_read_faults_def)
  then have "fs_script (h_fs (release_lock (p_host p2))) = []" "fs_dir_fault (h_fs (release_lock (p_host p2))) = None"
    using release_lock_effect[of "p_host p2"] D2(3) by (auto simp: keeps_files_def touches_def)
  then show ?thesis using o body p3 D2(1) by (simp add: bench_database_def close_database_def)
qed

lemma with_scratch_runs:
  assumes new: "h_entry (p_host p) = Missing" "path_wf (p_host p)" and q: "calls_succeed (p_host p)" and path: "path \<noteq> []"
    and N: "0 < N" "N < 8192 * max_manifest_segments"
  shows "\<exists>p'. with_scratch path (bench_database path (bench_body env N)) p = (Inr 0, p') \<and>
    p_out p' = p_out p @ report_text env N (expected_reads N) ((N + 8191) div 8192) \<and>
    h_entry (p_host p') = Missing \<and> fs_files (h_fs (p_host p')) = []"
proof -
  let ?p1 = "p\<lparr>p_host := (p_host p)\<lparr>h_entry := Directory\<rparr>\<rparr>"
  have c: "on_host (create_scratch path) p = (Inr (), ?p1)"
    using new(1) q path by (simp add: on_host_def create_scratch_def next_outcome_quiet calls_succeed_def)
  have n1: "new_directory (h_fs (p_host ?p1))" "\<not> h_locked (p_host ?p1)" "h_entry (p_host ?p1) = Directory" "calls_succeed (p_host ?p1)"
    using new q by (simp_all add: path_wf_def calls_succeed_def)
  obtain p2 where b: "bench_database path (bench_body env N) ?p1 = (Inr 0, p2)"
    "p_out p2 = p_out p @ report_text env N (expected_reads N) ((N + 8191) div 8192)"
    "fs_script (h_fs (p_host p2)) = []" "fs_dir_fault (h_fs (p_host p2)) = None"
    using bench_database_runs[OF n1 path N] by auto
  obtain h3 where "remove_scratch (p_host p2) = (Inr (), h3)" "h_entry h3 = Missing" "fs_files (h_fs h3) = []"
    using remove_scratch_quiet[OF b(3,4)] by blast
  then show ?thesis using c b(1,2) by (simp add: with_scratch_def act_bind_def act_finally_def on_host_def)
qed

end
