(* ===== verification/BenchmarkProperties.thy ===== *)
theory BenchmarkProperties
  imports BenchmarkRun
begin

text \<open>
  The property of the benchmark program: its exit status, what it reports, and what it leaves
  of the scratch directory.
\<close>

lemma bench_arguments_count:
  "bench_arguments env arguments = Inr (N, path) \<Longrightarrow> 0 < N \<and> N < 2 ^ 63"
  by (auto simp: bench_arguments_def parse_count_def ebind_eq_Inr split: if_splits)

lemma bench_arguments_safe:
  assumes "bench_arguments env arguments = Inl e" "temp_directory_path env \<noteq> Inl Crashed"
  shows "e \<noteq> Crashed"
  using assms
  by (auto simp: bench_arguments_def parse_count_def default_database_path_def ebind_def split: if_splits sum.splits)

text \<open>
  Claim C26.  The benchmark reports what it did: whatever the system does, a run dies in a
  system call, or returns 1 with one line of diagnosis and no report, or returns 0 with a
  report in which \<^verbatim>\<open>samples_read\<close> is the number of samples that its queries cover, so the
  database returned every one of them.  A path at which something is already is left alone.
  When no call fails and the samples fit into the segments of a manifest, the run returns 0,
  reports one segment for every 8192 samples begun, and the directory is gone again.
\<close>

theorem benchmark_reports:
  assumes wf: "path_wf (p_host p)" and tmp: "temp_directory_path env \<noteq> Inl Crashed"
    and run: "bench_main env arguments p = (r, p')"
  shows "(r = Inl Crashed \<or>
      (\<exists>e. r = Inr 1 \<and> p_out p' = p_out p \<and>
         p_err p' = p_err p @ ''chronostore-benchmark: '' @ what (error_text env) e @ newline) \<or>
      (\<exists>N path segs. r = Inr 0 \<and> bench_arguments env arguments = Inr (N, path) \<and> p_err p' = p_err p \<and>
         p_out p' = p_out p @ report_text env N (\<Sum>q<1000. min 100 (N - (q * 97) mod N)) segs)) \<and>
    (h_entry (p_host p) \<noteq> Missing \<longrightarrow> r = Inr 1 \<and> p_host p' = p_host p) \<and>
    (\<forall>N path. bench_arguments env arguments = Inr (N, path) \<and> path \<noteq> [] \<and> N < 819200000 \<and>
       h_entry (p_host p) = Missing \<and> calls_succeed (p_host p) \<longrightarrow>
       r = Inr 0 \<and> h_entry (p_host p') = Missing \<and> fs_files (h_fs (p_host p')) = [] \<and>
       p_out p' = p_out p @ report_text env N (\<Sum>q<1000. min 100 (N - (q * 97) mod N)) ((N + 8191) div 8192))"
proof (cases "bench_arguments env arguments")
  case (Inl e)
  then have "e \<noteq> Crashed" "(r, p') = (Inr 1, write_err (''chronostore-benchmark: '' @ what (error_text env) e @ newline) p)"
    using bench_arguments_safe[OF Inl tmp] run by (auto simp: bench_main_def bench_run_def act_bind_def check_def)
  then show ?thesis using Inl by (auto simp: write_err_def)
next
  case (Inr a)
  obtain N path where a: "a = (N, path)" by force
  note N = bench_arguments_count[OF Inr[unfolded a]]
  obtain r1 p1 where s: "with_scratch path (bench_database path (bench_body env N)) p = (r1, p1)" by force
  have bench: "bench_run env arguments p = (r1, p1)"
    using s Inr a by (simp add: bench_run_def act_bind_def check_def)
  note rep = with_scratch_reported[OF wf N[THEN conjunct1] N[THEN conjunct2] s]
  have "r = Inr 0 \<and> h_entry (p_host p') = Missing \<and> fs_files (h_fs (p_host p')) = [] \<and>
       p_out p' = p_out p @ report_text env N (expected_reads N) ((N + 8191) div 8192)"
    if "path \<noteq> []" "N < 819200000" "h_entry (p_host p) = Missing" "calls_succeed (p_host p)"
    using with_scratch_runs[OF that(3) wf that(4,1) N[THEN conjunct1], of env] that(2) s bench run
    by (auto simp: bench_main_def max_manifest_segments_def)
  then show ?thesis
    using rep bench run Inr a
    by (cases r1) (auto simp: bench_main_def reported_def write_err_def expected_reads_def split: if_splits)
qed

definition demo_env :: bench_env where
  "demo_env = \<lparr>temp_directory_path = Inr ''/tmp'', token_reading = 7, write_start = 1000, write_end = 2000001000,
     query_start = 2000001000, query_end = 2500001000, error_text = (\<lambda>_. ''error'')\<rparr>"

lemma default_reads: "(\<Sum>q<1000. min 100 (100000 - (q * 97) mod 100000)) = (100000 :: nat)"
proof -
  have "min 100 (100000 - (q * 97) mod 100000) = (100 :: nat)" if "q < 1000" for q :: nat using that by simp
  then have "(\<Sum>q<1000. min 100 (100000 - (q * 97) mod 100000)) = (\<Sum>q<(1000 :: nat). 100 :: nat)" by (intro sum.cong) simp_all
  then show ?thesis by simp
qed

theorem benchmark_reports_witness:
  "\<exists>p'. bench_main demo_env [''chronostore-benchmark''] \<lparr>p_host = demo_host, p_out = [], p_err = []\<rparr> = (Inr 0, p') \<and>
     p_out p' = report_text demo_env 100000 100000 13 \<and> h_entry (p_host p') = Missing"
proof -
  let ?p = "\<lparr>p_host = demo_host, p_out = [], p_err = []\<rparr>"
  obtain r p' where run: "bench_main demo_env [''chronostore-benchmark''] ?p = (r, p')" by force
  have wf: "path_wf (p_host ?p)" "calls_succeed (p_host ?p)" "h_entry (p_host ?p) = Missing"
    using demo_system_new by (simp_all add: path_wf_def calls_succeed_def new_system_def demo_system_def demo_host_def empty_directory_def)
  obtain path where args: "bench_arguments demo_env [''chronostore-benchmark''] = Inr (100000, path)" "path \<noteq> []"
    by (simp add: bench_arguments_def default_database_path_def demo_env_def)
  have tmp: "temp_directory_path demo_env \<noteq> Inl Crashed" by (simp add: demo_env_def)
  from benchmark_reports[OF wf(1) tmp run] args wf(2,3) run show ?thesis by (auto simp: default_reads)
qed

end
