(* ===== verification/Spec2Isabelle.thy ===== *)
theory Spec2Isabelle
  imports DatabaseProperties MemTableProperties ViewDisplay BenchmarkProperties
begin

text \<open>
  A verification development of ChronoStore, an embedded storage engine for time series:
  samples, which are pairs of a timestamp and a finite double, are stored under series keys,
  which are a measurement with sorted tags.

  \<^bold>\<open>The program.\<close>  A write is appended to a write-ahead log (\<^verbatim>\<open>wal_record.cpp\<close>, \<^verbatim>\<open>wal_file.cpp\<close>)
  and then put into an ordered table in memory (\<^verbatim>\<open>memtable.cpp\<close>).  A flush writes the table as
  an immutable segment file (\<^verbatim>\<open>segment_block.cpp\<close>, \<^verbatim>\<open>segment_block_codec.cpp\<close>, \<^verbatim>\<open>segment_file.cpp\<close>),
  publishes it in a manifest that is replaced atomically (\<^verbatim>\<open>manifest.cpp\<close>, \<^verbatim>\<open>file_io.cpp\<close>), and
  empties the log.  A compaction merges all segments into one.  Opening a database loads the
  manifest and the segments, removes stale files, replays the log (\<^verbatim>\<open>wal_recovery.cpp\<close>) and
  repairs a torn tail.  \<^verbatim>\<open>storage_engine.cpp\<close> composes these parts; \<^verbatim>\<open>database.cpp\<close> is the public
  interface, with automatic flushes and a lock of the directory (\<^verbatim>\<open>database_lock.cpp\<close>).  Three
  programs use it: a command line client (\<^verbatim>\<open>tools/chronostore_cli\<close>), a graphical one
  (\<^verbatim>\<open>tools/chronoview\<close>) and a benchmark (\<^verbatim>\<open>tools/chronostore_benchmark\<close>).

  \<^bold>\<open>The theories.\<close>
  \<^item> \<open>Prelude\<close>: words, bytes, exceptions as values, generic lemmas.  \<open>Model\<close>: tags, series keys,
    timestamps and samples with their constructors and orders (\<^verbatim>\<open>model.cpp\<close>).
  \<^item> \<open>OrderedMap\<close>, \<open>SeriesMap\<close>, \<open>SampleStore\<close>: \<^verbatim>\<open>std::map\<close> as a sorted association list behind the
    locale \<open>ordered_map\<close>; the abstract store, a partial map from series and timestamps to values,
    and the contract \<open>sample_source\<close> of everything that answers queries, interpreted by the
    MemTable, a segment reader and the engine.
  \<^item> \<open>ByteCodec\<close>, \<open>SeriesCodec\<close>, \<open>Crc32c\<close>, \<open>Checksum\<close>, \<open>FramedCodec\<close>: the little-endian codec and
    its reader that checks bounds (\<^verbatim>\<open>byte_codec.cpp\<close>), the checksum (\<^verbatim>\<open>crc32c.cpp\<close>) and what changes
    it detects, and the common frame of the formats.
  \<^item> \<open>WalRecord\<close>, \<open>WalReplay\<close>, \<open>WalFile\<close>, \<open>WalProperties\<close>: the log.
  \<^item> \<open>SegmentBlock\<close>, \<open>SegmentBlockCodec\<close>, \<open>SegmentFile\<close>, \<open>SegmentFormat\<close>, \<open>SegmentOpen\<close>, \<open>Search\<close>,
    \<open>SegmentQueries\<close>, \<open>SegmentProperties\<close>: segment files, from blocks to queries with binary search.
  \<^item> \<open>Manifest\<close>, \<open>FileSystem\<close>, \<open>FileIo\<close>: the manifest, the operating system and the file helpers.
  \<^item> \<open>MemTable\<close>, \<open>MemTableProperties\<close>: the table in memory.
  \<^item> \<open>StorageEngine\<close> has the definitions of the engine; \<open>SegmentNames\<close>, \<open>EngineState\<close> (what files
    mean, the invariant), \<open>EngineBlocks\<close>, \<open>EngineQueries\<close>, \<open>EngineRecovery\<close>, \<open>EngineWrites\<close>,
    \<open>EngineFlush\<close>, \<open>EngineOps\<close>, \<open>EngineCompact\<close> prove the effect of each operation; \<open>EngineMachine\<close>
    is the step relation and its specification; \<open>EngineProperties\<close>, \<open>EngineDemo\<close> and
    \<open>EngineOperations\<close> hold the properties and a concrete run.
  \<^item> \<open>Database\<close>, \<open>DatabaseSystem\<close>, \<open>DatabaseProperties\<close>: the public interface and any number of
    processes that use it on one directory.
  \<^item> \<open>DecimalFloat\<close>, \<open>DecimalRoundtrip\<close>, \<open>DecimalText\<close>: the conversions between numbers and decimal text
    that the client takes from the standard library, exactly rounded, and that printing with
    seventeen digits loses nothing.
  \<^item> \<open>Cli\<close>, \<open>CliProperties\<close>: the command line client, from its arguments to its output and exit status.
  \<^item> \<open>ViewText\<close>, \<open>ChronoView\<close>, \<open>ViewProperties\<close>, \<open>ViewSystem\<close>, \<open>ViewDisplay\<close>: the graphical client: its text
    fields and tag notation, the class \<^verbatim>\<open>GuiState\<close>, the handlers of its widgets as events, whole
    sessions, and the texts it draws.
  \<^item> \<open>Benchmark\<close>, \<open>BenchmarkOutcome\<close>, \<open>BenchmarkRun\<close>, \<open>BenchmarkProperties\<close>: the benchmark program with its
    scratch directory, write loop, queries and report.

  \<^bold>\<open>How code is modelled.\<close>  A class is a record, an enumeration a datatype, a machine integer a
  word, a double its bit pattern (the library never computes with doubles; the clients convert them).  Exceptions are
  values; an operation with effects is a function from a state to a result and the state
  after it, so what happened before an exception stays.  The operating system is the record
  \<open>fs\<close>: the files of the database directory and a script of outcomes for the calls that change
  them.  A script may make any call fail, be interrupted, write only some bytes, or end with
  the death of the process at that point; theorems quantify over all scripts.  As ghost state
  the model keeps the contents that completed synchronisation calls made durable, and the
  theorems about writes, atomic replacement and segment files state durability with it.
  Loops are structural recursion or have a termination proof; nothing uses fuel.

  \<^bold>\<open>What is shown.\<close>  The engine refines the abstract store: over every history of operations that
  return, throw or die in any system call, a database that is opened again answers all
  queries for a store in which returned writes took effect, the others entirely or not at
  all (\<open>crash_recovery\<close> and its consequences).  Each operation is characterised at every
  reachable state, with conditions under which it must succeed, and it is shown when a throwing
  operation leaves the engine failed, also for calls that fail to read.  Through the public
  interface the same holds for any interleaving of processes, of which at most one owns the
  directory.  Codecs are bijections between values and accepted bytes or round trips, damage
  within four bytes is always detected, and replay in chunks equals a scan of the whole log.
  Runs of the command line client and sessions of the graphical one contribute steps to the
  histories of the system, so all of this holds for them; what one run of the client writes a
  later one prints, and the printed text denotes the same sample.  For the graphical client it is
  shown which events end the program and for which series a selection is read back correctly, and that its result table shows what the
  store of the history answers.
  The benchmark reads back every sample its queries cover, and ends with its report and without
  its directory when no call fails.

  \<^bold>\<open>Assumptions.\<close>  Calls that only read files do not fail in the theorems about whole engines
  (the definitions do model such failures, and \<open>failure_is_final\<close>, \<open>no_internal_errors\<close>,
  \<open>client_exit_status\<close> and the theorems about the graphical client's state cover them); the conditions of \<open>wal_path_ok\<close> say that the log is not
  named like another file of the database.  Operations of one object run one at a time: the
  engine holds its mutex, and the automatic flush of a write is part of the write.

  A host stands for one database path: the clients' theorems speak of one path at a time, and
  different spellings of a path are different paths.  Writing to the standard streams succeeds.
  The abscissae of the plot assume a \<^verbatim>\<open>long double\<close> with a 64-bit significand.

  \<^bold>\<open>Parameters.\<close>  Code and data that the sources do not contain: the version string, which the build
  generates; the operating system's texts for error codes (\<open>strerror\<close>); how far the window system
  gets at start (\<open>window_result\<close>); the values of the demonstration samples, which need \<^verbatim>\<open>std::sin\<close>
  (\<open>demo_value\<close>); which widgets are on the screen and which rows its clipper asks for (\<open>toolkit\<close>); the directory for temporary files and the readings of the clock (\<open>bench_env\<close>).

  \<^bold>\<open>Not modelled.\<close>  The Windows variants of file, log and lock calls; closing descriptors in
  destructors, which changes no file, except that of the lock, where the death of the process is
  not distinguished from a return; allocation failure; loss of unsynchronised data when the
  machine itself crashes, beyond the durable contents above; layout, colours and style of the
  graphical client, which go to a third-party toolkit and change no state.
\<close>

end
